(* ===== verification/Go_Strings.thy ===== *)
theory Go_Strings
  imports Prelude
begin

text \<open>
  The parts of Go's \<open>strings\<close>, \<open>unicode/utf8\<close>, \<open>unicode\<close>, \<open>path\<close> and \<open>strconv\<close> packages that
  the repository uses, on byte strings: a Go \<open>string\<close> is a list of \<open>char\<close>, one per byte. A range loop
  over a string is a loop over \<open>utf8_tokens\<close>, the runes with the bytes each one occupies. None of
  these definitions models code of the repository, so none is mapped to it.

  What the Go library computes from tables or engines that are not worth transcribing is a
  parameter, collected in the record \<open>runtime\<close>: the regular expression engine, the Unicode tables
  beyond Latin-1, the IP literal parser, SHA-256, and the order in which \<open>sort.Slice\<close> leaves the keys
  of a map (the iteration order of a map is random, so ties are not determined).
\<close>

section \<open>The runtime parameters\<close>

record runtime =
  regexp_compile :: "string \<Rightarrow> (string \<Rightarrow> bool) option"
  print_table :: "nat \<Rightarrow> bool"
  lower_table :: "nat \<Rightarrow> nat"
  ip_literal :: "string \<Rightarrow> string option"
  sha256 :: "string \<Rightarrow> string"
  name_order :: "string list \<Rightarrow> string list"

definition runtime_ok :: "runtime \<Rightarrow> bool" where
  "runtime_ok rt \<longleftrightarrow>
     (\<forall>s. length (sha256 rt s) = 32) \<and>
     (\<forall>ns. set (name_order rt ns) = set ns \<and> length (name_order rt ns) = length ns \<and>
           sorted_wrt (\<lambda>a b. length b \<le> length a) (name_order rt ns))"

text \<open>
  A concrete runtime, for evaluating the definitions: no regular expression compiles, every rune
  beyond Latin-1 is printable and its own lower case, no IP literal is valid, the digest is zero, and
  the names are sorted stably by descending length.
\<close>

fun insert_by_length :: "string \<Rightarrow> string list \<Rightarrow> string list" where
  "insert_by_length x [] = [x]"
| "insert_by_length x (y # ys) =
     (if length y \<le> length x then x # y # ys else y # insert_by_length x ys)"

definition order_by_length :: "string list \<Rightarrow> string list" where
  "order_by_length ns = foldr insert_by_length ns []"

definition sample_runtime :: runtime where
  "sample_runtime = \<lparr>regexp_compile = (\<lambda>_. None), print_table = (\<lambda>_. True), lower_table = (\<lambda>r. r),
     ip_literal = (\<lambda>_. None), sha256 = (\<lambda>_. replicate 32 (CHR 0x00)), name_order = order_by_length\<rparr>"

lemma set_insert_by_length: "set (insert_by_length x ys) = insert x (set ys)"
  by (induction ys) auto

lemma length_insert_by_length: "length (insert_by_length x ys) = Suc (length ys)"
  by (induction ys) auto

lemma sorted_insert_by_length:
  "sorted_wrt (\<lambda>a b. length b \<le> length a) ys \<Longrightarrow>
   sorted_wrt (\<lambda>a b. length b \<le> length a) (insert_by_length x ys)"
  by (induction ys) (auto simp: set_insert_by_length)

lemma order_by_length_ok:
  "set (order_by_length ns) = set ns \<and> length (order_by_length ns) = length ns \<and>
   sorted_wrt (\<lambda>a b. length b \<le> length a) (order_by_length ns)"
  by (induction ns)
    (auto simp: order_by_length_def set_insert_by_length length_insert_by_length
       sorted_insert_by_length)

lemma runtime_ok_sample: "runtime_ok sample_runtime"
  using order_by_length_ok by (simp add: runtime_ok_def sample_runtime_def)

section \<open>Searching and cutting\<close>

fun has_prefix :: "string \<Rightarrow> string \<Rightarrow> bool" where
  "has_prefix [] s = True"
| "has_prefix (p # ps) [] = False"
| "has_prefix (p # ps) (c # cs) = (p = c \<and> has_prefix ps cs)"

definition has_suffix :: "string \<Rightarrow> string \<Rightarrow> bool" where
  "has_suffix p s = has_prefix (rev p) (rev s)"

fun contains :: "string \<Rightarrow> string \<Rightarrow> bool" where
  "contains p [] = (p = [])"
| "contains p (c # cs) = (has_prefix p (c # cs) \<or> contains p cs)"

definition contains_any :: "string \<Rightarrow> string \<Rightarrow> bool" where
  "contains_any cs s = list_ex (\<lambda>c. c \<in> set cs) s"

definition cut_prefix :: "string \<Rightarrow> string \<Rightarrow> string option" where
  "cut_prefix p s = (if has_prefix p s then Some (drop (length p) s) else None)"

definition trim_prefix :: "string \<Rightarrow> string \<Rightarrow> string" where
  "trim_prefix p s = (if has_prefix p s then drop (length p) s else s)"

text \<open>\<open>strings.Cut\<close> at a one byte separator: what stands before it, and after it when found.\<close>

definition before_char :: "char \<Rightarrow> string \<Rightarrow> string" where
  "before_char c s = takeWhile (\<lambda>x. x \<noteq> c) s"

definition after_char :: "char \<Rightarrow> string \<Rightarrow> string" where
  "after_char c s = tl (dropWhile (\<lambda>x. x \<noteq> c) s)"

lemma has_prefix_iff: "has_prefix p s \<longleftrightarrow> (\<exists>t. s = p @ t)"
  by (induction p s rule: has_prefix.induct) auto

lemma has_prefix_append [simp]: "has_prefix p (p @ s)"
  by (auto simp: has_prefix_iff)

lemma has_prefix_drop: "has_prefix p s \<Longrightarrow> p @ drop (length p) s = s"
  by (auto simp: has_prefix_iff)

lemma has_prefix_length: "has_prefix p s \<Longrightarrow> length p \<le> length s"
  by (auto simp: has_prefix_iff)

lemma contains_iff: "contains p s \<longleftrightarrow> (\<exists>a b. s = a @ p @ b)"
proof (induction s)
  case Nil
  show ?case by auto
next
  case (Cons c cs)
  have "contains p (c # cs) \<longleftrightarrow> (\<exists>b. c # cs = p @ b) \<or> (\<exists>a b. cs = a @ p @ b)"
    using Cons by (simp add: has_prefix_iff)
  also have "\<dots> \<longleftrightarrow> (\<exists>a b. c # cs = a @ p @ b)"
    by (metis append_Cons append_Nil list.exhaust list.sel(3) tl_append2)
  finally show ?case .
qed

lemma contains_single: "contains [c] s \<longleftrightarrow> c \<in> set s"
  by (induction s) auto

lemma contains_any_iff: "contains_any cs s \<longleftrightarrow> (\<exists>c\<in>set s. c \<in> set cs)"
  by (auto simp: contains_any_def list_ex_iff)

lemma contains_any_append [simp]:
  "contains_any cs (a @ b) \<longleftrightarrow> contains_any cs a \<or> contains_any cs b"
  by (auto simp: contains_any_iff)

lemma before_after_char: "c \<in> set s \<Longrightarrow> before_char c s @ c # after_char c s = s"
  by (induction s) (auto simp: before_char_def after_char_def)

lemma before_char_notin: "c \<notin> set (before_char c s)"
  by (auto simp: before_char_def dest: set_takeWhileD)

lemma before_char_id: "c \<notin> set s \<Longrightarrow> before_char c s = s"
  by (simp add: before_char_def takeWhile_neq_id)

lemma before_char_append: "c \<notin> set a \<Longrightarrow> before_char c (a @ c # b) = a"
  by (induction a) (auto simp: before_char_def)

section \<open>Split and Join\<close>

text \<open>\<open>strings.Split\<close> at a one byte separator, and \<open>strings.Join\<close>.\<close>

fun split_on :: "char \<Rightarrow> string \<Rightarrow> string list" where
  "split_on c [] = [[]]"
| "split_on c (x # xs) =
     (if x = c then [] # split_on c xs
      else (case split_on c xs of [] \<Rightarrow> [[x]] | w # ws \<Rightarrow> (x # w) # ws))"

fun join_with :: "string \<Rightarrow> string list \<Rightarrow> string" where
  "join_with sep [] = []"
| "join_with sep [w] = w"
| "join_with sep (w # v # ws) = w @ sep @ join_with sep (v # ws)"

lemma split_on_nonempty [simp]: "split_on c s \<noteq> []"
  by (cases s) (auto split: list.splits)

lemma join_Cons: "ws \<noteq> [] \<Longrightarrow> join_with sep (w # ws) = w @ sep @ join_with sep ws"
  by (cases ws) auto

lemma join_split: "join_with [c] (split_on c s) = s"
proof (induction s)
  case (Cons x xs)
  show ?case
  proof (cases "x = c")
    case True
    with Cons show ?thesis by (simp add: join_Cons)
  next
    case False
    obtain w ws where w: "split_on c xs = w # ws"
      using split_on_nonempty [of c xs] by (cases "split_on c xs") auto
    have "join_with [c] ((x # w) # ws) = x # join_with [c] (w # ws)"
      by (cases ws) auto
    with Cons False w show ?thesis by simp
  qed
qed simp

lemma split_on_notin: "w \<in> set (split_on c s) \<Longrightarrow> c \<notin> set w"
proof (induction s arbitrary: w)
  case (Cons x xs)
  then show ?case by (cases "split_on c xs") (auto split: if_splits)
qed simp

lemma split_on_single: "c \<notin> set s \<Longrightarrow> split_on c s = [s]"
  by (induction s) auto

lemma split_on_append: "c \<notin> set a \<Longrightarrow> split_on c (a @ c # b) = a # split_on c b"
  by (induction a) auto

lemma split_join:
  "ws \<noteq> [] \<Longrightarrow> \<forall>w\<in>set ws. c \<notin> set w \<Longrightarrow> split_on c (join_with [c] ws) = ws"
  by (induction "[c]" ws rule: join_with.induct) (auto simp: split_on_single split_on_append)

lemma set_split_on: "w \<in> set (split_on c s) \<Longrightarrow> set w \<subseteq> set s"
proof (induction s arbitrary: w)
  case (Cons x xs)
  then show ?case by (cases "split_on c xs") (fastforce split: if_splits)+
qed simp

lemma set_join_with: "set (join_with sep ws) \<subseteq> \<Union> (set ` set ws) \<union> set sep"
  by (induction sep ws rule: join_with.induct) auto

lemma join_with_empty_iff: "\<forall>w\<in>set ws. w \<noteq> [] \<Longrightarrow> join_with sep ws = [] \<longleftrightarrow> ws = []"
  by (induction sep ws rule: join_with.induct) auto

section \<open>ReplaceAll\<close>

text \<open>
  \<open>strings.ReplaceAll\<close> for a non-empty old string: leftmost matches, without overlap, the
  replacement not scanned again. Every call of the repository passes a non-empty old string.
\<close>

function replace_all :: "string \<Rightarrow> string \<Rightarrow> string \<Rightarrow> string" where
  "replace_all old new [] = []"
| "replace_all old new (c # cs) =
     (if old \<noteq> [] \<and> has_prefix old (c # cs)
      then new @ replace_all old new (drop (length old) (c # cs))
      else c # replace_all old new cs)"
  by pat_completeness auto
termination
  by (relation "measure (\<lambda>(old, new, s). length s)") auto

lemma replace_all_absent: "\<not> contains old s \<Longrightarrow> replace_all old new s = s"
  by (induction old new s rule: replace_all.induct) (auto split: if_splits)

lemma replace_all_char: "replace_all [a] [b] s = map (\<lambda>c. if c = a then b else c) s"
  by (induction "[a]" "[b]" s rule: replace_all.induct) auto

lemma set_replace_all: "set (replace_all old new s) \<subseteq> set s \<union> set new"
proof (induction old new s rule: replace_all.induct)
  case (2 old new c cs)
  then show ?case using set_drop_subset [of "length old" "c # cs"] by auto
qed simp

section \<open>Trim with a cutset\<close>

text \<open>\<open>strings.TrimLeft\<close>, \<open>TrimRight\<close> and \<open>Trim\<close> with an ASCII cutset work byte by byte.\<close>

definition trim_left :: "string \<Rightarrow> string \<Rightarrow> string" where
  "trim_left cs s = dropWhile (\<lambda>c. c \<in> set cs) s"

definition trim_right :: "string \<Rightarrow> string \<Rightarrow> string" where
  "trim_right cs s = rev (dropWhile (\<lambda>c. c \<in> set cs) (rev s))"

definition trim :: "string \<Rightarrow> string \<Rightarrow> string" where
  "trim cs s = trim_right cs (trim_left cs s)"

lemma set_trim_left: "set (trim_left cs s) \<subseteq> set s"
  by (auto simp: trim_left_def dest: set_dropWhile_sub)

lemma set_trim_right: "set (trim_right cs s) \<subseteq> set s"
  by (auto simp: trim_right_def dest: set_dropWhile_sub)

lemma set_trim: "set (trim cs s) \<subseteq> set s"
  using set_trim_left [of cs s] set_trim_right [of cs "trim_left cs s"] by (simp add: trim_def)

lemma trim_right_last: "trim_right cs s \<noteq> [] \<Longrightarrow> last (trim_right cs s) \<notin> set cs"
  using hd_dropWhile_not [of "\<lambda>c. c \<in> set cs" "rev s"]
  by (simp add: trim_right_def last_rev)

lemma trim_right_prefix: "\<exists>t. s = trim_right cs s @ t \<and> set t \<subseteq> set cs"
proof -
  have "rev s = takeWhile (\<lambda>c. c \<in> set cs) (rev s) @ dropWhile (\<lambda>c. c \<in> set cs) (rev s)"
    by simp
  then have "s = trim_right cs s @ rev (takeWhile (\<lambda>c. c \<in> set cs) (rev s))"
    unfolding trim_right_def by (metis rev_append rev_rev_ident)
  moreover have "set (rev (takeWhile (\<lambda>c. c \<in> set cs) (rev s))) \<subseteq> set cs"
    by (auto dest: set_takeWhileD)
  ultimately show ?thesis by blast
qed

lemma trim_right_id: "s = [] \<or> last s \<notin> set cs \<Longrightarrow> trim_right cs s = s"
  by (cases s rule: rev_cases) (auto simp: trim_right_def)

lemma trim_right_idem [simp]: "trim_right cs (trim_right cs s) = trim_right cs s"
  using trim_right_last [of cs s] by (intro trim_right_id) auto

lemma trim_left_id: "s = [] \<or> hd s \<notin> set cs \<Longrightarrow> trim_left cs s = s"
  by (cases s) (auto simp: trim_left_def)

lemma hd_trim_left: "trim_left cs s \<noteq> [] \<Longrightarrow> hd (trim_left cs s) \<notin> set cs"
  unfolding trim_left_def by (rule hd_dropWhile)

lemma trim_id: "set s \<inter> set cs = {} \<Longrightarrow> trim cs s = s"
proof -
  assume disj: "set s \<inter> set cs = {}"
  then have "trim_left cs s = s" by (cases s) (auto intro!: trim_left_id)
  moreover have "trim_right cs s = s" using disj by (cases s rule: rev_cases) (auto intro!: trim_right_id)
  ultimately show ?thesis by (simp add: trim_def)
qed

section \<open>UTF-8\<close>

text \<open>
  \<open>utf8.DecodeRune\<close> on a non-empty byte string: the rune and its width. An encoding that is not
  valid (an overlong form, a surrogate, a value above 10FFFF, a missing continuation byte) is
  \<open>rune_error\<close> with width one.
\<close>

definition rune_error :: nat where
  "rune_error = 65533"

definition byte :: "char \<Rightarrow> nat" where
  "byte c = of_char c"

definition cont :: "char \<Rightarrow> bool" where
  "cont c \<longleftrightarrow> 128 \<le> byte c \<and> byte c < 192"

text \<open>The six payload bits of a continuation byte.\<close>

definition payload :: "char \<Rightarrow> nat" where
  "payload c = byte c mod 64"

text \<open>The range the second byte of a sequence must lie in, by its first byte.\<close>

definition second_ok :: "nat \<Rightarrow> char \<Rightarrow> bool" where
  "second_ok b c \<longleftrightarrow> cont c \<and> (b = 224 \<longrightarrow> 160 \<le> byte c) \<and> (b = 237 \<longrightarrow> byte c < 160) \<and>
     (b = 240 \<longrightarrow> 144 \<le> byte c) \<and> (b = 244 \<longrightarrow> byte c < 144)"

definition decode_rune :: "string \<Rightarrow> nat \<times> nat" where
  "decode_rune s = (case s of [] \<Rightarrow> (rune_error, 0)
     | c0 # r0 \<Rightarrow> (let b = byte c0 in
       if b < 128 then (b, 1)
       else if b < 194 \<or> 244 < b then (rune_error, 1)
       else (case r0 of [] \<Rightarrow> (rune_error, 1)
         | c1 # r1 \<Rightarrow>
           if \<not> second_ok b c1 then (rune_error, 1)
           else if b < 224 then (b mod 32 * 64 + payload c1, 2)
           else (case r1 of [] \<Rightarrow> (rune_error, 1)
             | c2 # r2 \<Rightarrow>
               if \<not> cont c2 then (rune_error, 1)
               else if b < 240
               then (b mod 16 * 4096 + payload c1 * 64 + payload c2, 3)
               else (case r2 of [] \<Rightarrow> (rune_error, 1)
                 | c3 # r3 \<Rightarrow>
                   if \<not> cont c3 then (rune_error, 1)
                   else (b mod 8 * 262144 + payload c1 * 4096 + payload c2 * 64 + payload c3, 4))))))"

lemma decode_rune_width:
  "s \<noteq> [] \<Longrightarrow> 1 \<le> snd (decode_rune s) \<and> snd (decode_rune s) \<le> length s"
  by (auto simp: decode_rune_def Let_def split: list.splits)

function utf8_tokens :: "string \<Rightarrow> (nat \<times> string) list" where
  "utf8_tokens [] = []"
| "utf8_tokens (c # cs) =
     (let (r, w) = decode_rune (c # cs)
      in (r, take w (c # cs)) # utf8_tokens (drop w (c # cs)))"
  by pat_completeness auto
termination
proof (relation "measure length")
  show "wf (measure (length :: string \<Rightarrow> nat))" by simp
next
  fix c cs x r w
  assume "x = decode_rune (c # cs)" and "(r, w) = x"
  then have "snd (decode_rune (c # cs)) = w" by (metis snd_conv)
  with decode_rune_width [of "c # cs"] have "1 \<le> w" by simp
  then show "(drop w (c # cs), c # cs) \<in> measure length" by simp
qed

definition runes :: "string \<Rightarrow> nat list" where
  "runes s = map fst (utf8_tokens s)"

text \<open>\<open>utf8.AppendRune\<close>: surrogates and values above 10FFFF become \<open>rune_error\<close>.\<close>

definition valid_rune :: "nat \<Rightarrow> bool" where
  "valid_rune r \<longleftrightarrow> r < 55296 \<or> (57344 \<le> r \<and> r \<le> 1114111)"

definition encode_rune :: "nat \<Rightarrow> string" where
  "encode_rune r0 =
     (let r = (if valid_rune r0 then r0 else rune_error) in
      if r < 128 then [char_of r]
      else if r < 2048 then [char_of (192 + r div 64), char_of (128 + r mod 64)]
      else if r < 65536
      then [char_of (224 + r div 4096), char_of (128 + r div 64 mod 64), char_of (128 + r mod 64)]
      else [char_of (240 + r div 262144), char_of (128 + r div 4096 mod 64),
            char_of (128 + r div 64 mod 64), char_of (128 + r mod 64)])"

definition encode :: "nat list \<Rightarrow> string" where
  "encode rs = concat (map encode_rune rs)"

lemma byte_char_of [simp]: "byte (char_of (n::nat)) = n mod 256"
  by (simp add: byte_def)

lemma byte_less [simp]: "byte c < 256"
  by (simp add: byte_def)

lemma byte_eq_iff: "byte c = byte d \<longleftrightarrow> c = d"
  by (simp add: byte_def of_char_eq_iff)

lemma concat_utf8_tokens: "concat (map snd (utf8_tokens s)) = s"
  by (induction s rule: utf8_tokens.induct) (auto simp: Let_def split: prod.splits)

lemma payload_cont: "a < 64 \<Longrightarrow> payload (char_of (128 + a)) = a"
proof -
  assume "a < 64"
  then have "(128 + a) mod 256 = 128 + a" by simp
  moreover have "(128 + a) mod 64 = a" using \<open>a < 64\<close> by (simp add: mod_if)
  ultimately show ?thesis by (simp add: payload_def)
qed


lemma cont_cont: "a < (64::nat) \<Longrightarrow> cont (char_of (128 + a))"
  by (simp add: cont_def)

lemma payload_less [simp]: "payload c < 64"
  by (simp add: payload_def)

lemma byte_payload: "cont c \<Longrightarrow> byte c = 128 + payload c"
  by (auto simp: cont_def payload_def mod_if)

lemma split_bits2: "(r::nat) = r div 64 * 64 + r mod 64"
  by simp

lemma split_bits3: "(r::nat) = r div 4096 * 4096 + r div 64 mod 64 * 64 + r mod 64"
proof -
  have "r div 64 = r div 4096 * 64 + r div 64 mod 64"
    using split_bits2 [of "r div 64"] by (simp add: div_mult2_eq [of r 64 64, simplified, symmetric])
  then show ?thesis using split_bits2 [of r] by linarith
qed

lemma split_bits4:
  "(r::nat) = r div 262144 * 262144 + r div 4096 mod 64 * 4096 + r div 64 mod 64 * 64 + r mod 64"
proof -
  have "r div 4096 = r div 262144 * 64 + r div 4096 mod 64"
    using split_bits2 [of "r div 4096"]
    by (simp add: div_mult2_eq [of r 4096 64, simplified, symmetric])
  then show ?thesis using split_bits3 [of r] by linarith
qed

lemma decode_encode2:
  assumes "128 \<le> r" and "r < 2048"
  shows "decode_rune ([char_of (192 + r div 64), char_of (128 + r mod 64)] @ s) = (r, 2)"
proof -
  define a b where "a = r div 64" and "b = r mod 64"
  have r: "r = a * 64 + b" using split_bits2 [of r] by (simp add: a_def b_def)
  have bd: "2 \<le> a" "a < 32" "b < 64" using assms by (auto simp: a_def b_def)
  then have "(192 + a) mod 32 = a" by (simp add: mod_if)
  with bd show ?thesis
    unfolding a_def [symmetric] b_def [symmetric]
    by (simp add: decode_rune_def Let_def second_ok_def cont_cont payload_cont r)
qed

lemma decode_encode3:
  assumes "2048 \<le> r" and "r < 65536" and "r < 55296 \<or> 57344 \<le> r"
  shows "decode_rune ([char_of (224 + r div 4096), char_of (128 + r div 64 mod 64),
           char_of (128 + r mod 64)] @ s) = (r, 3)"
proof -
  define a b c where "a = r div 4096" and "b = r div 64 mod 64" and "c = r mod 64"
  have r: "r = a * 4096 + b * 64 + c" using split_bits3 [of r] by (simp add: a_def b_def c_def)
  have bd: "a < 16" "b < 64" "c < 64" using assms(2) by (auto simp: a_def b_def c_def)
  then have "(224 + a) mod 16 = a" by (simp add: mod_if)
  moreover have "a = 0 \<longrightarrow> 32 \<le> b" "a = 13 \<longrightarrow> b < 32" using r bd assms by auto
  ultimately show ?thesis
    using bd unfolding a_def [symmetric] b_def [symmetric] c_def [symmetric]
    by (simp add: decode_rune_def Let_def second_ok_def cont_cont payload_cont r)
qed

lemma decode_encode4:
  assumes "65536 \<le> r" and "r \<le> 1114111"
  shows "decode_rune ([char_of (240 + r div 262144), char_of (128 + r div 4096 mod 64),
           char_of (128 + r div 64 mod 64), char_of (128 + r mod 64)] @ s) = (r, 4)"
proof -
  define a b c d where "a = r div 262144" and "b = r div 4096 mod 64" and "c = r div 64 mod 64"
    and "d = r mod 64"
  have r: "r = a * 262144 + b * 4096 + c * 64 + d"
    using split_bits4 [of r] by (simp add: a_def b_def c_def d_def)
  have bd: "a < 5" "b < 64" "c < 64" "d < 64"
    using assms(2) by (auto simp: a_def b_def c_def d_def)
  then have "(240 + a) mod 8 = a" by (simp add: mod_if)
  moreover have "a = 0 \<longrightarrow> 16 \<le> b" "a = 4 \<longrightarrow> b < 16" using r bd assms by auto
  ultimately show ?thesis
    using bd unfolding a_def [symmetric] b_def [symmetric] c_def [symmetric] d_def [symmetric]
    by (simp add: decode_rune_def Let_def second_ok_def cont_cont payload_cont r)
qed

lemma decode_encode:
  assumes "valid_rune r"
  shows "decode_rune (encode_rune r @ s) = (r, length (encode_rune r))"
proof -
  consider "r < 128" | "128 \<le> r" "r < 2048" | "2048 \<le> r" "r < 65536" | "65536 \<le> r" by linarith
  then show ?thesis
  proof cases
    case 1
    with assms show ?thesis by (simp add: encode_rune_def decode_rune_def Let_def)
  next
    case 2
    with assms show ?thesis using decode_encode2 [of r s] by (simp add: encode_rune_def Let_def)
  next
    case 3
    with assms show ?thesis
      using decode_encode3 [of r s] by (auto simp: encode_rune_def Let_def valid_rune_def)
  next
    case 4
    with assms show ?thesis
      using decode_encode4 [of r s] by (simp add: encode_rune_def Let_def valid_rune_def)
  qed
qed

lemma encode_rune_nonempty [simp]: "encode_rune r \<noteq> []"
  by (simp add: encode_rune_def Let_def)

lemma utf8_tokens_step:
  "s \<noteq> [] \<Longrightarrow> decode_rune s = (r, w) \<Longrightarrow> utf8_tokens s = (r, take w s) # utf8_tokens (drop w s)"
  by (cases s) auto

lemma utf8_tokens_encode:
  "\<forall>r\<in>set rs. valid_rune r \<Longrightarrow> utf8_tokens (encode rs) = map (\<lambda>r. (r, encode_rune r)) rs"
proof (induction rs)
  case Nil
  show ?case by (simp add: encode_def)
next
  case (Cons r rs)
  then have "decode_rune (encode_rune r @ encode rs) = (r, length (encode_rune r))"
    by (simp add: decode_encode)
  then have "utf8_tokens (encode_rune r @ encode rs) = (r, encode_rune r) # utf8_tokens (encode rs)"
    by (subst utf8_tokens_step) auto
  with Cons show ?case by (simp add: encode_def)
qed

lemma runes_encode [simp]: "\<forall>r\<in>set rs. valid_rune r \<Longrightarrow> runes (encode rs) = rs"
  by (simp add: runes_def utf8_tokens_encode o_def)

text \<open>Every rune decoded is a valid one, \<open>rune_error\<close> included.\<close>

lemma second_ok_bounds: "second_ok b c \<Longrightarrow> 128 \<le> byte c \<and> byte c < 192"
  by (simp add: second_ok_def cont_def)

lemma valid_rune2: "x < 64 \<Longrightarrow> valid_rune (b mod 32 * 64 + x)"
proof -
  assume "x < 64"
  moreover have "b mod 32 < 32" by simp
  ultimately have "b mod 32 * 64 + x < 55296" by linarith
  then show ?thesis by (simp add: valid_rune_def)
qed

lemma valid_rune3:
  assumes "x < 64" "y < 64" "a < 16" "a = 13 \<longrightarrow> x < 32"
  shows "valid_rune (a * 4096 + x * 64 + y)"
proof -
  have "a * 4096 + x * 64 + y < 55296 \<or> 57344 \<le> a * 4096 + x * 64 + y"
    using assms by (cases "a = 13"; linarith)
  moreover have "a * 4096 + x * 64 + y \<le> 1114111" using assms by linarith
  ultimately show ?thesis by (simp only: valid_rune_def) blast
qed

lemma valid_rune4:
  assumes "x < 64" "y < 64" "z < 64" "a \<le> 4" "a = 0 \<longrightarrow> 16 \<le> x" "a = 4 \<longrightarrow> x < 16"
  shows "valid_rune (a * 262144 + x * 4096 + y * 64 + z)"
proof -
  have "57344 \<le> a * 262144 + x * 4096 + y * 64 + z" using assms by (cases "a = 0"; linarith)
  moreover have "a * 262144 + x * 4096 + y * 64 + z \<le> 1114111"
    using assms by (cases "a = 4"; linarith)
  ultimately show ?thesis by (simp only: valid_rune_def) blast
qed

lemma lead3: "224 \<le> b \<Longrightarrow> b < 240 \<Longrightarrow> b mod 16 = b - (224::nat)"
  by (simp add: mod_if)

lemma lead4: "240 \<le> b \<Longrightarrow> b \<le> 244 \<Longrightarrow> b mod 8 = b - (240::nat)"
proof -
  assume "240 \<le> b" "b \<le> 244"
  then have "b = 240 \<or> b = 241 \<or> b = 242 \<or> b = 243 \<or> b = 244" by linarith
  then show ?thesis by auto
qed

lemma decode_rune_valid3:
  assumes "224 \<le> b" "b < 240" "second_ok b c"
  shows "valid_rune (b mod 16 * 4096 + payload c * 64 + payload d)"
proof (rule valid_rune3)
  show "b mod 16 = 13 \<longrightarrow> payload c < 32"
    using assms byte_payload [of c] by (auto simp: lead3 second_ok_def)
qed (use assms in auto)

lemma decode_rune_valid4:
  assumes "240 \<le> b" "b \<le> 244" "second_ok b c"
  shows "valid_rune (b mod 8 * 262144 + payload c * 4096 + payload d * 64 + payload e)"
proof (rule valid_rune4)
  show "b mod 8 = 0 \<longrightarrow> 16 \<le> payload c" "b mod 8 = 4 \<longrightarrow> payload c < 16"
    using assms byte_payload [of c] by (auto simp: lead4 second_ok_def)
  show "b mod 8 \<le> 4" using assms by (simp add: lead4)
qed auto

lemma decode_rune_valid: "valid_rune (fst (decode_rune s))"
proof -
  have err: "valid_rune rune_error" by (simp add: valid_rune_def rune_error_def)
  have asc: "valid_rune b" if "b < 128" for b using that by (simp add: valid_rune_def)
  show ?thesis
    unfolding decode_rune_def Let_def
    by (auto simp: err asc valid_rune2 not_less intro!: decode_rune_valid3 decode_rune_valid4
        split: list.split)
qed

lemma runes_valid: "r \<in> set (runes s) \<Longrightarrow> valid_rune r"
proof (induction s rule: utf8_tokens.induct)
  case (2 c cs)
  obtain q w where qw: "decode_rune (c # cs) = (q, w)" by fastforce
  with decode_rune_valid [of "c # cs"] have "valid_rune q" by simp
  with 2 qw show ?case by (auto simp: runes_def)
qed (simp add: runes_def)

text \<open>On ASCII bytes the runes are the bytes.\<close>

definition ascii :: "string \<Rightarrow> bool" where
  "ascii s \<longleftrightarrow> list_all (\<lambda>c. byte c < 128) s"

lemma utf8_tokens_ascii: "ascii s \<Longrightarrow> utf8_tokens s = map (\<lambda>c. (byte c, [c])) s"
proof (induction s)
  case (Cons c cs)
  then have "decode_rune (c # cs) = (byte c, 1)"
    by (simp add: decode_rune_def Let_def ascii_def)
  with Cons show ?case by (simp add: ascii_def)
qed simp

lemma runes_ascii: "ascii s \<Longrightarrow> runes s = map byte s"
  by (simp add: runes_def utf8_tokens_ascii o_def)

lemma runes_Nil [simp]: "runes [] = []"
  by (simp add: runes_def)

lemma utf8_tokens_Nil_iff [simp]: "utf8_tokens s = [] \<longleftrightarrow> s = []"
  by (cases s) (auto simp: Let_def split: prod.splits)

lemma runes_Nil_iff [simp]: "runes s = [] \<longleftrightarrow> s = []"
  by (simp add: runes_def)

text \<open>An ASCII rune is one byte, and a byte below 128 is never part of a longer sequence.\<close>

lemma multi_byte_large:
  "194 \<le> b \<Longrightarrow> b < 224 \<Longrightarrow> 128 \<le> b mod 32 * 64 + x"
  "224 \<le> b \<Longrightarrow> b < 240 \<Longrightarrow> second_ok b c \<Longrightarrow> 128 \<le> b mod 16 * 4096 + payload c * 64 + y"
  "240 \<le> b \<Longrightarrow> b \<le> 244 \<Longrightarrow> second_ok b c \<Longrightarrow>
     128 \<le> b mod 8 * 262144 + payload c * 4096 + y + z"
proof -
  assume "194 \<le> b" "b < 224"
  then have "2 \<le> b mod 32" by (auto simp: mod_if)
  then show "128 \<le> b mod 32 * 64 + x" by linarith
next
  assume b: "224 \<le> b" "b < 240" "second_ok b c"
  then have "b mod 16 = 0 \<longrightarrow> 32 \<le> payload c"
    using byte_payload [of c] by (auto simp: lead3 second_ok_def)
  then show "128 \<le> b mod 16 * 4096 + payload c * 64 + y" by (cases "b mod 16 = 0") auto
next
  assume b: "240 \<le> b" "b \<le> 244" "second_ok b c"
  then have "b mod 8 = 0 \<longrightarrow> 16 \<le> payload c"
    using byte_payload [of c] by (auto simp: lead4 second_ok_def)
  then show "128 \<le> b mod 8 * 262144 + payload c * 4096 + y + z" by (cases "b mod 8 = 0") auto
qed

lemma decode_rune_high:
  assumes "128 \<le> byte c"
  shows "128 \<le> fst (decode_rune (c # s))"
proof -
  have err: "128 \<le> rune_error" by (simp add: rune_error_def)
  show ?thesis
    using assms unfolding decode_rune_def Let_def
    by (auto simp: err not_less multi_byte_large split: list.split)
qed

lemma decode_rune_ascii:
  assumes "fst (decode_rune (c # s)) < 128"
  shows "decode_rune (c # s) = (byte c, 1)"
proof -
  have "byte c < 128" using assms decode_rune_high [of c s] by linarith
  then show ?thesis by (simp add: decode_rune_def Let_def)
qed

lemma runes_all_ascii: "\<forall>r\<in>set (runes s). r < 128 \<Longrightarrow> ascii s \<and> runes s = map byte s"
proof (induction s rule: utf8_tokens.induct)
  case (2 c cs)
  obtain q w where qw: "decode_rune (c # cs) = (q, w)" by fastforce
  with 2(2) have "q < 128" by (simp add: runes_def)
  with decode_rune_ascii [of c cs] qw have "byte c = q" "w = 1" by auto
  with 2 qw show ?case by (auto simp: runes_def ascii_def)
qed (simp add: ascii_def)

text \<open>Every byte below 128 is a rune of its own.\<close>

lemma cont_high: "cont c \<Longrightarrow> 128 \<le> byte c"
  by (simp add: cont_def)

lemma second_ok_high: "second_ok b c \<Longrightarrow> 128 \<le> byte c"
  by (simp add: second_ok_def cont_def)

lemma decode_rune_bytes:
  assumes "128 \<le> byte c" and "x \<in> set (take (snd (decode_rune (c # s))) (c # s))"
  shows "128 \<le> byte x"
  using assms
  by (auto simp: decode_rune_def Let_def cont_high second_ok_high
      split: list.splits if_splits dest: cont_high second_ok_high)

lemma ascii_byte_rune:
  "c \<in> set s \<Longrightarrow> byte c < 128 \<Longrightarrow> byte c \<in> set (runes s)"
proof (induction s rule: utf8_tokens.induct)
  case (2 d cs)
  obtain r w where rw: "decode_rune (d # cs) = (r, w)" by fastforce
  show ?case
  proof (cases "c \<in> set (drop w (d # cs))")
    case True
    with 2 rw show ?thesis by (simp add: runes_def)
  next
    case False
    have "c \<in> set (take w (d # cs) @ drop w (d # cs))" using 2(2) by simp
    with False have c: "c \<in> set (take w (d # cs))" by (simp only: set_append) simp
    with 2(3) decode_rune_bytes [of d c cs] rw have "byte d < 128" by (simp add: not_le) force
    then have "decode_rune (d # cs) = (byte d, 1)" by (simp add: decode_rune_def Let_def)
    with rw have "r = byte d" "w = 1" by auto
    with rw c show ?thesis by (simp add: runes_def)
  qed
qed simp

lemma encode_Cons [simp]: "encode (r # rs) = encode_rune r @ encode rs"
  by (simp add: encode_def)

lemma encode_append [simp]: "encode (rs @ qs) = encode rs @ encode qs"
  by (simp add: encode_def)

lemma encode_Nil [simp]: "encode [] = []"
  by (simp add: encode_def)

lemma encode_Nil_iff [simp]: "encode rs = [] \<longleftrightarrow> rs = []"
  by (cases rs) auto

lemma encode_rune_ascii: "r < 128 \<Longrightarrow> encode_rune r = [char_of r]"
  by (simp add: encode_rune_def valid_rune_def)

lemma encode_space: "encode_rune 32 = '' ''"
proof -
  have "byte (CHR '' '') = 32" by (simp add: byte_def)
  then have "char_of (32::nat) = CHR '' ''" by (metis byte_def char_of_char)
  then show ?thesis by (simp add: encode_rune_ascii)
qed

lemma last_encode_rune:
  assumes "valid_rune r" and "last (encode_rune r) = CHR '' ''"
  shows "r = 32"
proof (cases "r < 128")
  case True
  then have "byte (last (encode_rune r)) = r" by (simp add: encode_rune_ascii)
  with assms(2) show ?thesis by (simp add: byte_def)
next
  case False
  then have "128 \<le> byte (last (encode_rune r))"
    using assms(1) by (simp add: encode_rune_def Let_def)
  with assms(2) show ?thesis by (simp add: byte_def)
qed

lemma last_encode: "rs \<noteq> [] \<Longrightarrow> last (encode rs) = last (encode_rune (last rs))"
  by (cases rs rule: rev_cases) auto

lemma concat_take_encode:
  "\<forall>r\<in>set rs. valid_rune r \<Longrightarrow> concat (map snd (take n (utf8_tokens (encode rs)))) = encode (take n rs)"
  by (simp add: utf8_tokens_encode take_map) (simp add: encode_def o_def)

section \<open>Unicode classes\<close>

text \<open>
  \<open>unicode.IsSpace\<close> and \<open>unicode.IsControl\<close> are exact; \<open>unicode.IsPrint\<close> is exact up to Latin-1 and
  reads the runtime's table beyond it. \<open>unicode.ToLower\<close> is exact on ASCII.
\<close>

definition is_space :: "nat \<Rightarrow> bool" where
  "is_space r \<longleftrightarrow> (9 \<le> r \<and> r \<le> 13) \<or> r = 32 \<or> r = 133 \<or> r = 160 \<or> r = 5760 \<or>
     (8192 \<le> r \<and> r \<le> 8202) \<or> r = 8232 \<or> r = 8233 \<or> r = 8239 \<or> r = 8287 \<or> r = 12288"

definition is_control :: "nat \<Rightarrow> bool" where
  "is_control r \<longleftrightarrow> r < 32 \<or> (127 \<le> r \<and> r < 160)"

definition is_print :: "runtime \<Rightarrow> nat \<Rightarrow> bool" where
  "is_print rt r =
     (if r < 256 then (32 \<le> r \<and> r < 127) \<or> (161 \<le> r \<and> r \<noteq> 173) else print_table rt r)"

definition rune_lower :: "runtime \<Rightarrow> nat \<Rightarrow> nat" where
  "rune_lower rt r =
     (if r < 128 then (if 65 \<le> r \<and> r \<le> 90 then r + 32 else r) else lower_table rt r)"

text \<open>\<open>strings.ToLower\<close>: a bad byte becomes the encoding of \<open>rune_error\<close> as in \<open>strings.Map\<close>.\<close>

definition to_lower :: "runtime \<Rightarrow> string \<Rightarrow> string" where
  "to_lower rt s =
     encode (map (\<lambda>r. if r = rune_error then rune_error else rune_lower rt r) (runes s))"

text \<open>\<open>strings.TrimSpace\<close>: leading and trailing white space runes go.\<close>

definition trim_space :: "string \<Rightarrow> string" where
  "trim_space s =
     concat (map snd (rev (dropWhile (\<lambda>t. is_space (fst t))
       (rev (dropWhile (\<lambda>t. is_space (fst t)) (utf8_tokens s))))))"

text \<open>
  \<open>strings.EqualFold\<close> against an ASCII word: ASCII letters fold to lower case, the Kelvin sign to
  \<open>k\<close> and the long s to \<open>s\<close>; no other rune folds to an ASCII letter.
\<close>

definition fold_rune :: "nat \<Rightarrow> nat" where
  "fold_rune r =
     (if 65 \<le> r \<and> r \<le> 90 then r + 32 else if r = 8490 then 107 else if r = 383 then 115 else r)"

definition equal_fold :: "string \<Rightarrow> string \<Rightarrow> bool" where
  "equal_fold s t = (map fold_rune (runes s) = map fold_rune (runes t))"

lemma control_not_print: "is_control r \<Longrightarrow> \<not> is_print rt r"
  by (auto simp: is_control_def is_print_def)

lemma set_trim_space: "set (trim_space s) \<subseteq> set s"
proof -
  have sub: "set (concat (map snd ts)) \<subseteq> set s" if "set ts \<subseteq> set (utf8_tokens s)" for ts
  proof -
    have "set (concat (map snd ts)) \<subseteq> set (concat (map snd (utf8_tokens s)))"
      using that by auto
    then show ?thesis by (simp add: concat_utf8_tokens)
  qed
  show ?thesis
    unfolding trim_space_def by (rule sub) (auto dest!: set_dropWhile_sub)
qed

lemma trim_space_no_space:
  assumes "\<forall>r\<in>set (runes s). \<not> is_space r"
  shows "trim_space s = s"
proof -
  have all: "\<forall>t\<in>set (utf8_tokens s). \<not> is_space (fst t)"
    using assms by (auto simp: runes_def)
  have drop: "dropWhile (\<lambda>t. is_space (fst t)) ts = ts"
    if "set ts \<subseteq> set (utf8_tokens s)" for ts
    using that all by (cases ts) auto
  then show ?thesis by (simp add: trim_space_def concat_utf8_tokens)
qed

lemma trim_space_ends:
  assumes "ascii s" and "s = [] \<or> \<not> is_space (byte (hd s)) \<and> \<not> is_space (byte (last s))"
  shows "trim_space s = s"
proof (cases "s = []")
  case False
  let ?t = "map (\<lambda>c. (byte c, [c])) s"
  have ends: "hd ?t = (byte (hd s), [hd s])" "last ?t = (byte (last s), [last s])"
    using False by (simp_all add: hd_map last_map)
  have "dropWhile (\<lambda>t. is_space (fst t)) ?t = ?t"
    using False assms(2) by (cases s) simp_all
  moreover have "dropWhile (\<lambda>t. is_space (fst t)) (rev ?t) = rev ?t"
    using False assms(2) ends by (cases s rule: rev_cases) simp_all
  ultimately show ?thesis
    using assms(1) concat_utf8_tokens [of s] by (simp only: trim_space_def utf8_tokens_ascii rev_rev_ident)
qed (simp add: trim_space_def)

lemma trim_space_Nil [simp]: "trim_space [] = []"
  by (simp add: trim_space_def)

section \<open>Paths\<close>

text \<open>\<open>path.Clean\<close> and \<open>path.Join\<close>.\<close>

fun clean_push :: "bool \<Rightarrow> string list \<Rightarrow> string \<Rightarrow> string list" where
  "clean_push rooted st seg =
     (if seg = [] \<or> seg = ''.'' then st
      else if seg = ''..''
      then (if st \<noteq> [] \<and> last st \<noteq> ''..'' then butlast st
            else if rooted then st else st @ [''..''])
      else st @ [seg])"

definition path_clean :: "string \<Rightarrow> string" where
  "path_clean s =
     (if s = [] then ''.''
      else (let rooted = has_prefix ''/'' s;
                st = foldl (clean_push rooted) [] (split_on (CHR ''/'') s);
                out = (if rooted then ''/'' else []) @ join_with ''/'' st
            in if out = [] then ''.'' else out))"

definition path_join :: "string list \<Rightarrow> string" where
  "path_join elems =
     (let es = filter (\<lambda>e. e \<noteq> []) elems
      in if es = [] then [] else path_clean (join_with ''/'' es))"

definition plain_segment :: "string \<Rightarrow> bool" where
  "plain_segment seg \<longleftrightarrow> seg \<noteq> [] \<and> seg \<noteq> ''.'' \<and> seg \<noteq> ''..'' \<and> CHR ''/'' \<notin> set seg"

lemma foldl_clean_push_plain:
  "\<forall>w\<in>set ws. plain_segment w \<Longrightarrow> foldl (clean_push r) st ws = st @ ws"
  by (induction ws arbitrary: st) (auto simp: plain_segment_def)

text \<open>Joining plain segments needs no cleaning, so the segments come back when it is split.\<close>

lemma path_join_plain:
  assumes plain: "\<forall>w\<in>set ws. plain_segment w"
  shows "path_join ws = join_with ''/'' ws"
proof (cases "ws = []")
  case False
  have ne: "\<forall>w\<in>set ws. w \<noteq> []" and nosep: "\<forall>w\<in>set ws. CHR ''/'' \<notin> set w"
    using plain by (auto simp: plain_segment_def)
  have filt: "filter (\<lambda>e. e \<noteq> []) ws = ws" using ne by (auto simp: filter_id_conv)
  have jne: "join_with ''/'' ws \<noteq> []" using False ne by (simp add: join_with_empty_iff)
  have "hd (join_with ''/'' ws) = hd (hd ws)" "hd ws \<noteq> []"
    using False ne by (cases ws rule: list.exhaust; cases "tl ws"; auto)+
  then have unrooted: "\<not> has_prefix ''/'' (join_with ''/'' ws)"
    using False nosep jne by (cases ws; cases "hd ws"; cases "join_with ''/'' ws") auto
  have "split_on (CHR ''/'') (join_with ''/'' ws) = ws" using False nosep by (rule split_join)
  with False filt jne unrooted plain show ?thesis
    by (simp add: path_join_def path_clean_def Let_def foldl_clean_push_plain)
qed (simp add: path_join_def)

text \<open>\<open>%x\<close> of a byte string.\<close>

definition hex_digit :: "nat \<Rightarrow> char" where
  "hex_digit n = (if n < 10 then char_of (48 + n) else char_of (87 + n))"

definition hex_string :: "string \<Rightarrow> string" where
  "hex_string s = concat (map (\<lambda>c. [hex_digit (byte c div 16), hex_digit (byte c mod 16)]) s)"

definition hex_chars :: string where
  "hex_chars = ''0123456789abcdef''"

lemma hex_digit_in: "n < 16 \<Longrightarrow> hex_digit n \<in> set hex_chars"
proof -
  assume "n < 16"
  then have "n \<in> set [0..<16]" by simp
  moreover have "list_all (\<lambda>n. hex_digit n \<in> set hex_chars) [0..<16]" by code_simp
  ultimately show ?thesis by (simp only: list_all_iff)
qed

lemma set_hex_string: "set (hex_string s) \<subseteq> set hex_chars"
proof -
  have "hex_digit (byte c div 16) \<in> set hex_chars" "hex_digit (byte c mod 16) \<in> set hex_chars" for c
    using byte_less [of c] by (auto intro!: hex_digit_in simp del: byte_less)
  then show ?thesis by (auto simp: hex_string_def)
qed

lemma hex_string_nonempty: "s \<noteq> [] \<Longrightarrow> hex_string s \<noteq> []"
  by (cases s) (auto simp: hex_string_def)

section \<open>Evaluation on literals\<close>

text \<open>Text of visible ASCII characters needs no decoding: trimming leaves it alone.\<close>

definition visible :: "char \<Rightarrow> bool" where
  "visible c \<longleftrightarrow> 33 \<le> byte c \<and> byte c < 127"

lemma runes_visible: "list_all visible s \<Longrightarrow> runes s = map byte s"
  by (intro runes_ascii) (auto simp: ascii_def visible_def list_all_iff)

lemma trim_space_visible: "list_all visible s \<Longrightarrow> trim_space s = s"
  by (intro trim_space_no_space) (auto simp: runes_visible is_space_def visible_def list_all_iff)

lemma to_lower_visible:
  assumes "list_all visible s"
  shows "to_lower rt s = map (\<lambda>c. if 65 \<le> byte c \<and> byte c \<le> 90 then char_of (byte c + 32) else c) s"
  using assms
proof (induction s)
  case (Cons c s)
  have c: "byte c < 127" "visible c" using Cons.prems by (simp_all add: visible_def)
  have r: "runes (c # s) = byte c # runes s" using Cons.prems by (simp add: runes_visible)
  have e: "encode_rune (rune_lower rt (byte c)) =
      [if 65 \<le> byte c \<and> byte c \<le> 90 then char_of (byte c + 32) else c]"
    using c by (auto simp: rune_lower_def encode_rune_ascii byte_def)
  have "byte c \<noteq> rune_error" using c by (simp add: rune_error_def)
  then show ?case using Cons e by (simp add: to_lower_def r)
qed (simp add: to_lower_def)

lemmas text_eval = trim_space_visible visible_def byte_def before_char_def after_char_def
  has_suffix_def contains_any_iff cut_prefix_def trim_prefix_def

end
