(* ===== verification/Errors.thy ===== *)
theory Errors
  imports Go_Strings
begin

text \<open>
  \<open>internal/model/error.go\<close>: the sentinel errors of the repository, error values as trees of wrapped
  errors, \<open>errors.Is\<close> and \<open>errors.Join\<close> of the standard library on them, and the retry mark.

  A value made by \<open>fmt.Errorf\<close> keeps its format string, its printed string and integer arguments, and
  the errors wrapped with \<open>%w\<close>. An error printed with \<open>%v\<close> is not wrapped, so it is left out.
\<close>

datatype sentinel =
    ErrEventIgnored
  | ErrNoMatchingRule
  | ErrImageTagNotAllowed
  | ErrImageTagDenied
  | ErrIncompleteRule
  | ErrManifestNotFound
  | ErrInvalidManifest
  | ErrImageNotManaged
  | ErrNoDifference
  | ErrDuplicatePullRequest
  | ErrInvalidPullRequest
  | ErrRetryable
  | OsErrNotExist        \<comment> \<open>\<open>os.ErrNotExist\<close>\<close>
  | ErrFileTooLarge      \<comment> \<open>\<open>errFileTooLarge\<close> of the kustomize package\<close>
  | ErrUnsupportedRegistry  \<comment> \<open>of the registry package\<close>
  | ErrDecodeResponse    \<comment> \<open>\<open>errDecodeResponse\<close> of the oci package\<close>
  | ContextCanceled      \<comment> \<open>\<open>context.Canceled\<close>\<close>
  | ContextDeadlineExceeded  \<comment> \<open>\<open>context.DeadlineExceeded\<close>\<close>

datatype fmt_arg = AStr string | AInt int

datatype go_error =
    Sentinel sentinel
  | ErrorsNew string
  | Errorf string "fmt_arg list" "go_error list"
  | Joined "go_error list"

fun errors_is :: "sentinel \<Rightarrow> go_error \<Rightarrow> bool" where
  "errors_is t (Sentinel s) = (s = t)"
| "errors_is t (ErrorsNew msg) = False"
| "errors_is t (Errorf fmt args es) = list_ex (errors_is t) es"
| "errors_is t (Joined es) = list_ex (errors_is t) es"

text \<open>\<open>errors.Join\<close> drops the nil values and is nil when nothing is left.\<close>

definition errors_join :: "go_error list \<Rightarrow> go_error option" where
  "errors_join es = (if es = [] then None else Some (Joined es))"

definition mark_retryable :: "go_error \<Rightarrow> go_error" where
  "mark_retryable err = Errorf ''%w: %w'' [] [Sentinel ErrRetryable, err]"

text \<open>\<open>Retryable\<close> on a possibly nil error; \<open>mark_retryable\<close> is its value on a non-nil one.\<close>

fun Retryable :: "go_error option \<Rightarrow> go_error option" where
  "Retryable None = None"
| "Retryable (Some err) = Some (mark_retryable err)"

definition IsRetryable :: "go_error option \<Rightarrow> bool" where
  "IsRetryable err = (case err of None \<Rightarrow> False | Some e \<Rightarrow> errors_is ErrRetryable e)"

lemma IsRetryable_simps [simp]:
  "\<not> IsRetryable None"
  "IsRetryable (Some e) = errors_is ErrRetryable e"
  by (simp_all add: IsRetryable_def)

lemma errors_is_mark_retryable [simp]:
  "errors_is t (mark_retryable e) \<longleftrightarrow> t = ErrRetryable \<or> errors_is t e"
  by (auto simp: mark_retryable_def)

lemma errors_join_simps [simp]:
  "errors_join [] = None"
  "errors_join (e # es) = Some (Joined (e # es))"
  by (simp_all add: errors_join_def)

lemma errors_join_None_iff [simp]: "errors_join es = None \<longleftrightarrow> es = []"
  by (simp add: errors_join_def)

lemma IsRetryable_join: "IsRetryable (errors_join es) \<longleftrightarrow> (\<exists>e\<in>set es. errors_is ErrRetryable e)"
  by (cases es) (auto simp: list_ex_iff)

end
