(* ===== verification/Events.thy ===== *)
theory Events
  imports Errors
begin

text \<open>
  The domain values of \<open>internal/model\<close> that carry no logic of their own: the event
  (\<open>event.go\<close>), the image reference (\<open>image.go\<close>) and the update and pull request (\<open>update.go\<close>). The
  \<open>LogValue\<close> methods only format log attributes and are not modelled. A registry kind is a string
  type; the time of an event is its nanoseconds.
\<close>

type_synonym registry_kind = string

definition RegistryECR :: registry_kind where
  "RegistryECR = ''ecr''"

record image_reference =
  ref_kind :: registry_kind
  ref_host :: string
  ref_repository :: string
  ref_tag :: string

record image_push_event =
  ev_kind :: registry_kind
  ev_host :: string
  ev_repository :: string
  ev_tag :: string
  ev_digest :: string
  ev_occurred_at :: int

definition Reference :: "image_push_event \<Rightarrow> image_reference" where
  "Reference e = \<lparr>ref_kind = ev_kind e, ref_host = ev_host e, ref_repository = ev_repository e,
     ref_tag = ev_tag e\<rparr>"

definition ref_name :: "image_reference \<Rightarrow> string" where
  "ref_name r = (if ref_host r = [] then ref_repository r
     else ref_host r @ ''/'' @ ref_repository r)"

definition ref_string :: "image_reference \<Rightarrow> string" where
  "ref_string r = (if ref_tag r = [] then ref_name r else ref_name r @ '':'' @ ref_tag r)"

record image_metadata =
  md_labels :: "(string \<times> string) list"
  md_uri :: string
  md_size_bytes :: int

record pull_request =
  pr_owner :: string
  pr_repository :: string
  pr_head :: string
  pr_base :: string
  pr_title :: string
  pr_body :: string
  pr_assignees :: "string list"
  pr_reviewers :: "string list"

lemma ref_name_nonempty: "ref_repository r \<noteq> [] \<Longrightarrow> ref_name r \<noteq> []"
  by (simp add: ref_name_def)

lemma Reference_simps [simp]:
  "ref_kind (Reference e) = ev_kind e"
  "ref_host (Reference e) = ev_host e"
  "ref_repository (Reference e) = ev_repository e"
  "ref_tag (Reference e) = ev_tag e"
  by (simp_all add: Reference_def)

end
