(* ===== verification/Go_Url.thy ===== *)
theory Go_Url
  imports Go_Strings
begin

text \<open>
  The part of Go's \<open>net/url\<close> the repository relies on: \<open>url.Parse\<close> and \<open>URL.String\<close>. The percent
  encoding modes are the library's. Only the presence of user information is kept, since both callers
  reject a URL that has any. The literal between the brackets of an IPv6 host is read by the runtime's
  \<open>ip_literal\<close>.
\<close>

datatype encoding = EncodePath | EncodeHost | EncodeUserPassword | EncodeFragment

record url =
  url_scheme :: string
  url_opaque :: string
  url_user :: bool
  url_host :: string
  url_path :: string
  url_raw_path :: string
  url_omit_host :: bool
  url_force_query :: bool
  url_raw_query :: string
  url_fragment :: string
  url_raw_fragment :: string

definition is_digit :: "char \<Rightarrow> bool" where
  "is_digit c \<longleftrightarrow> 48 \<le> byte c \<and> byte c \<le> 57"

definition is_alpha :: "char \<Rightarrow> bool" where
  "is_alpha c \<longleftrightarrow> (65 \<le> byte c \<and> byte c \<le> 90) \<or> (97 \<le> byte c \<and> byte c \<le> 122)"

definition is_alnum :: "char \<Rightarrow> bool" where
  "is_alnum c \<longleftrightarrow> is_alpha c \<or> is_digit c"

definition is_hex :: "char \<Rightarrow> bool" where
  "is_hex c \<longleftrightarrow> (let b = byte c in (48 \<le> b \<and> b \<le> 57) \<or> (65 \<le> b \<and> b \<le> 70) \<or> (97 \<le> b \<and> b \<le> 102))"

definition unhex :: "char \<Rightarrow> nat" where
  "unhex c = (let b = byte c in
     if b \<le> 57 then b - 48 else if b \<le> 70 then b - 55 else b - 87)"

text \<open>The characters \<open>shouldEscape\<close> distinguishes; 39 is the apostrophe, 34 the double quote.\<close>

definition host_marks :: string where
  "host_marks = ''!$&'' @ [CHR 39] @ ''()*+,;=:[]<>'' @ [CHR 34]"

definition unreserved_marks :: string where
  "unreserved_marks = ''-_.~''"

definition reserved_marks :: string where
  "reserved_marks = ''$&+,/:;=?@''"

definition fragment_marks :: string where
  "fragment_marks = ''!()*''"

definition encoded_marks :: string where
  "encoded_marks = ''!$&'' @ [CHR 39] @ ''()*+,;=:@[]%''"

definition userinfo_marks :: string where
  "userinfo_marks = ''-._:~!$&'' @ [CHR 39] @ ''()*+,;=%@''"

definition should_escape :: "encoding \<Rightarrow> char \<Rightarrow> bool" where
  "should_escape m c =
     (if is_alnum c then False
      else if m = EncodeHost \<and> c \<in> set host_marks then False
      else if c \<in> set unreserved_marks then False
      else if c \<in> set reserved_marks
      then (case m of EncodePath \<Rightarrow> c = CHR ''?''
            | EncodeUserPassword \<Rightarrow> c \<in> set ''@/?:''
            | EncodeFragment \<Rightarrow> False
            | EncodeHost \<Rightarrow> True)
      else if m = EncodeFragment \<and> c \<in> set fragment_marks then False
      else True)"

fun unescape :: "encoding \<Rightarrow> string \<Rightarrow> string option" where
  "unescape m [] = Some []"
| "unescape m (c # cs) =
     (if c = CHR ''%''
      then (case cs of
              a # b # rest \<Rightarrow>
                if \<not> is_hex a \<or> \<not> is_hex b then None
                else if m = EncodeHost \<and> unhex a < 8 \<and> \<not> (a = CHR ''2'' \<and> b = CHR ''5'') then None
                else map_option (\<lambda>t. char_of (unhex a * 16 + unhex b) # t) (unescape m rest)
            | _ \<Rightarrow> None)
      else if m = EncodeHost \<and> byte c < 128 \<and> should_escape m c then None
      else map_option (\<lambda>t. c # t) (unescape m cs))"

definition upper_hex :: "nat \<Rightarrow> char" where
  "upper_hex n = (if n < 10 then char_of (48 + n) else char_of (55 + n))"

definition escape :: "encoding \<Rightarrow> string \<Rightarrow> string" where
  "escape m s = concat (map (\<lambda>c. if should_escape m c
     then [CHR ''%'', upper_hex (byte c div 16), upper_hex (byte c mod 16)] else [c]) s)"

definition valid_encoded :: "encoding \<Rightarrow> string \<Rightarrow> bool" where
  "valid_encoded m s = list_all (\<lambda>c.
     c \<in> set encoded_marks \<or> \<not> should_escape m c) s"

section \<open>Parsing\<close>

text \<open>\<open>getScheme\<close>: \<open>None\<close> is the error of a leading colon; the first component may be empty.\<close>

fun get_scheme :: "string \<Rightarrow> string \<Rightarrow> (string \<times> string) option" where
  "get_scheme acc [] = Some ([], acc)"
| "get_scheme acc (c # cs) =
     (if is_alpha c then get_scheme (acc @ [c]) cs
      else if is_digit c \<or> c = CHR ''+'' \<or> c = CHR ''-'' \<or> c = CHR ''.''
      then (if acc = [] then Some ([], c # cs) else get_scheme (acc @ [c]) cs)
      else if c = CHR '':'' then (if acc = [] then None else Some (acc, cs))
      else Some ([], acc @ c # cs))"

definition ascii_lower :: "string \<Rightarrow> string" where
  "ascii_lower s = map (\<lambda>c. if 65 \<le> byte c \<and> byte c \<le> 90 then char_of (byte c + 32) else c) s"

definition valid_optional_port :: "string \<Rightarrow> bool" where
  "valid_optional_port p = (case p of [] \<Rightarrow> True
     | c # ds \<Rightarrow> c = CHR '':'' \<and> list_all is_digit ds)"

text \<open>The text after the last occurrence of a byte, and the text before it.\<close>

definition after_last :: "char \<Rightarrow> string \<Rightarrow> string" where
  "after_last c s = rev (takeWhile (\<lambda>x. x \<noteq> c) (rev s))"

definition before_last :: "char \<Rightarrow> string \<Rightarrow> string" where
  "before_last c s = rev (tl (dropWhile (\<lambda>x. x \<noteq> c) (rev s)))"

definition parse_host :: "runtime \<Rightarrow> string \<Rightarrow> string option" where
  "parse_host rt h =
     (if CHR ''['' \<in> set h then ip_literal rt h
      else if CHR '':'' \<in> set h \<and> \<not> valid_optional_port ('':'' @ after_last (CHR '':'') h) then None
      else unescape EncodeHost h)"

definition valid_userinfo :: "string \<Rightarrow> bool" where
  "valid_userinfo s = list_all (\<lambda>c. is_alnum c \<or> c \<in> set userinfo_marks) s"

definition parse_authority :: "runtime \<Rightarrow> string \<Rightarrow> (bool \<times> string) option" where
  "parse_authority rt a =
     (if CHR ''@'' \<notin> set a then map_option (\<lambda>h. (False, h)) (parse_host rt a)
      else (case parse_host rt (after_last (CHR ''@'') a) of None \<Rightarrow> None
        | Some h \<Rightarrow>
          let user = before_last (CHR ''@'') a in
          if \<not> valid_userinfo user then None
          else if unescape EncodeUserPassword (before_char (CHR '':'') user) = None \<or>
                  unescape EncodeUserPassword (after_char (CHR '':'') user) = None then None
          else Some (True, h)))"

definition has_ctl :: "string \<Rightarrow> bool" where
  "has_ctl s = list_ex (\<lambda>c. byte c < 32 \<or> byte c = 127) s"

definition count_char :: "char \<Rightarrow> string \<Rightarrow> nat" where
  "count_char c s = length (filter (\<lambda>x. x = c) s)"

definition empty_url :: url where
  "empty_url = \<lparr>url_scheme = [], url_opaque = [], url_user = False, url_host = [], url_path = [],
     url_raw_path = [], url_omit_host = False, url_force_query = False, url_raw_query = [],
     url_fragment = [], url_raw_fragment = []\<rparr>"

definition set_path :: "string \<Rightarrow> url \<Rightarrow> url option" where
  "set_path p u = map_option (\<lambda>d. u\<lparr>url_path := d,
     url_raw_path := (if escape EncodePath d = p then [] else p)\<rparr>) (unescape EncodePath p)"

definition set_fragment :: "string \<Rightarrow> url \<Rightarrow> url option" where
  "set_fragment f u = map_option (\<lambda>d. u\<lparr>url_fragment := d,
     url_raw_fragment := (if escape EncodeFragment d = f then [] else f)\<rparr>) (unescape EncodeFragment f)"

text \<open>What remains after the scheme and the query are split off: authority and path.\<close>

definition parse_hier :: "runtime \<Rightarrow> url \<Rightarrow> string \<Rightarrow> url option" where
  "parse_hier rt u rest =
     (if \<not> has_prefix ''/'' rest \<and> url_scheme u \<noteq> [] then Some (u\<lparr>url_opaque := rest\<rparr>)
      else if \<not> has_prefix ''/'' rest \<and> CHR '':'' \<in> set (before_char (CHR ''/'') rest) then None
      else if (url_scheme u \<noteq> [] \<or> \<not> has_prefix ''///'' rest) \<and> has_prefix ''//'' rest
      then (case parse_authority rt (takeWhile (\<lambda>c. c \<noteq> CHR ''/'') (drop 2 rest)) of None \<Rightarrow> None
            | Some (user, h) \<Rightarrow>
                set_path (dropWhile (\<lambda>c. c \<noteq> CHR ''/'') (drop 2 rest)) (u\<lparr>url_user := user, url_host := h\<rparr>))
      else set_path rest (u\<lparr>url_omit_host := (url_scheme u \<noteq> [] \<and> has_prefix ''/'' rest)\<rparr>))"

definition parse_no_fragment :: "runtime \<Rightarrow> string \<Rightarrow> url option" where
  "parse_no_fragment rt raw =
     (if has_ctl raw then None
      else if raw = ''*'' then Some (empty_url\<lparr>url_path := ''*''\<rparr>)
      else (case get_scheme [] raw of None \<Rightarrow> None
        | Some (scheme, rest) \<Rightarrow>
          let u = empty_url\<lparr>url_scheme := ascii_lower scheme\<rparr> in
          if has_suffix ''?'' rest \<and> count_char (CHR ''?'') rest = 1
          then parse_hier rt (u\<lparr>url_force_query := True\<rparr>) (butlast rest)
          else parse_hier rt (u\<lparr>url_raw_query := after_char (CHR ''?'') rest\<rparr>)
                 (before_char (CHR ''?'') rest)))"

definition url_parse :: "runtime \<Rightarrow> string \<Rightarrow> url option" where
  "url_parse rt raw =
     (let frag = after_char (CHR ''#'') raw in
      case parse_no_fragment rt (before_char (CHR ''#'') raw) of None \<Rightarrow> None
      | Some u \<Rightarrow> if frag = [] then Some u else set_fragment frag u)"

section \<open>Printing\<close>

definition escaped_path :: "url \<Rightarrow> string" where
  "escaped_path u =
     (if url_raw_path u \<noteq> [] \<and> valid_encoded EncodePath (url_raw_path u) \<and>
         unescape EncodePath (url_raw_path u) = Some (url_path u) then url_raw_path u
      else if url_path u = ''*'' then ''*'' else escape EncodePath (url_path u))"

definition escaped_fragment :: "url \<Rightarrow> string" where
  "escaped_fragment u =
     (if url_raw_fragment u \<noteq> [] \<and> valid_encoded EncodeFragment (url_raw_fragment u) \<and>
         unescape EncodeFragment (url_raw_fragment u) = Some (url_fragment u) then url_raw_fragment u
      else escape EncodeFragment (url_fragment u))"

text \<open>\<open>URL.String\<close> of a URL with a scheme, a host and no user information.\<close>

definition url_string :: "url \<Rightarrow> string" where
  "url_string u =
     url_scheme u @ '':'' @
     (if url_opaque u \<noteq> [] then url_opaque u
      else ''//'' @ escape EncodeHost (url_host u) @
        (let p = escaped_path u in if p \<noteq> [] \<and> hd p \<noteq> CHR ''/'' then ''/'' @ p else p)) @
     (if url_force_query u \<or> url_raw_query u \<noteq> [] then ''?'' @ url_raw_query u else []) @
     (if url_fragment u \<noteq> [] then ''#'' @ escaped_fragment u else [])"

section \<open>What a parsed URL is made of\<close>

definition url_char :: "char \<Rightarrow> bool" where
  "url_char c \<longleftrightarrow> 33 \<le> byte c \<and> byte c \<noteq> 127"

lemma marks_url_char:
  "c \<in> set host_marks \<Longrightarrow> url_char c" "c \<in> set unreserved_marks \<Longrightarrow> url_char c"
  "c \<in> set reserved_marks \<Longrightarrow> url_char c" "c \<in> set fragment_marks \<Longrightarrow> url_char c"
  by (auto simp: host_marks_def unreserved_marks_def reserved_marks_def fragment_marks_def
      url_char_def byte_def)

lemma alnum_url_char: "is_alnum c \<Longrightarrow> url_char c"
  by (auto simp: is_alnum_def is_alpha_def is_digit_def url_char_def)

lemma unescaped_url_char:
  assumes "\<not> should_escape m c"
  shows "url_char c"
proof -
  have "is_alnum c \<or> c \<in> set host_marks \<or> c \<in> set unreserved_marks \<or> c \<in> set reserved_marks \<or>
      c \<in> set fragment_marks"
    using assms unfolding should_escape_def by argo
  then show ?thesis by (auto intro: marks_url_char alnum_url_char)
qed

lemma upper_hex_url_char: "n < 16 \<Longrightarrow> url_char (upper_hex n)"
  by (auto simp: upper_hex_def url_char_def)

lemma escape_url_char: "c \<in> set (escape m s) \<Longrightarrow> url_char c"
proof -
  assume "c \<in> set (escape m s)"
  then obtain d where "c \<in> set (if should_escape m d
      then [CHR ''%'', upper_hex (byte d div 16), upper_hex (byte d mod 16)] else [d])"
    unfolding escape_def set_concat set_map by blast
  moreover have "byte d div 16 < 16" by (rule less_mult_imp_div_less) simp
  moreover have "byte d mod 16 < 16" by simp
  moreover have "url_char (CHR ''%'')" by (simp add: url_char_def byte_def)
  ultimately show ?thesis by (auto simp: upper_hex_url_char unescaped_url_char split: if_splits)
qed

lemma set_after_char: "set (after_char c s) \<subseteq> set s"
proof
  fix x assume "x \<in> set (after_char c s)"
  then have "x \<in> set (dropWhile (\<lambda>x. x \<noteq> c) s)"
    unfolding after_char_def by (metis list.sel(2) list.set_sel(2))
  then show "x \<in> set s" by (rule set_dropWhile_sub)
qed

lemma set_before_char: "set (before_char c s) \<subseteq> set s"
  by (auto simp: before_char_def dest: set_takeWhileD)

lemma set_get_scheme: "get_scheme acc s = Some (sc, rest) \<Longrightarrow> set rest \<subseteq> set acc \<union> set s"
proof (induction acc s rule: get_scheme.induct)
  case (2 acc c cs)
  show ?case
  proof (cases "is_alpha c \<or> (is_digit c \<or> c = CHR ''+'' \<or> c = CHR ''-'' \<or> c = CHR ''.'') \<and> acc \<noteq> []")
    case True
    with 2 show ?thesis by (fastforce split: if_splits)
  next
    case False
    with 2(3) show ?thesis by (auto split: if_splits)
  qed
qed simp

lemma set_path_parts:
  assumes "set_path p u = Some u'"
  shows "set (url_raw_path u') \<subseteq> set p" "url_raw_query u' = url_raw_query u"
    "url_host u' = url_host u" "url_opaque u' = url_opaque u" "url_scheme u' = url_scheme u"
    "url_user u' = url_user u" "unescape EncodePath p = Some (url_path u')"
    "url_raw_fragment u' = url_raw_fragment u" "url_fragment u' = url_fragment u"
  using assms by (auto simp: set_path_def split: if_splits)

lemma parse_hier_cases:
  assumes "parse_hier rt u rest = Some u'"
  obtains "u' = u\<lparr>url_opaque := rest\<rparr>"
  | user h where "set_path (dropWhile (\<lambda>c. c \<noteq> CHR ''/'') (drop 2 rest)) (u\<lparr>url_user := user, url_host := h\<rparr>) = Some u'"
  | omit where "set_path rest (u\<lparr>url_omit_host := omit\<rparr>) = Some u'"
proof -
  note eq = assms [unfolded parse_hier_def]
  show ?thesis
  proof (cases "\<not> has_prefix ''/'' rest \<and> url_scheme u \<noteq> []")
    case True
    with eq show ?thesis by (simp add: that(1))
  next
    case opq: False
    show ?thesis
    proof (cases "(url_scheme u \<noteq> [] \<or> \<not> has_prefix ''///'' rest) \<and> has_prefix ''//'' rest")
      case True
      with eq opq show ?thesis
        by (simp only: if_False if_True split: if_splits option.splits prod.splits) (auto intro: that(2))
    next
      case False
      with eq opq show ?thesis by (simp only: if_False split: if_splits) (auto intro: that(3))
    qed
  qed
qed

lemma parse_hier_parts:
  assumes "parse_hier rt u rest = Some u'" and "url_host u = []" and "url_opaque u = []"
    and "url_raw_path u = []"
  shows "set (url_raw_path u') \<subseteq> set rest \<and> url_raw_query u' = url_raw_query u \<and>
    url_scheme u' = url_scheme u \<and> (url_host u' \<noteq> [] \<longrightarrow> url_opaque u' = []) \<and>
    url_raw_fragment u' = url_raw_fragment u"
  using assms(1)
proof (cases rule: parse_hier_cases)
  case 1
  with assms(2-4) show ?thesis by simp
next
  case (2 user h)
  have "set (dropWhile (\<lambda>c. c \<noteq> CHR ''/'') (drop 2 rest)) \<subseteq> set rest"
    by (auto dest!: set_dropWhile_sub in_set_dropD)
  with set_path_parts [OF 2] assms(3) show ?thesis by auto
next
  case (3 omit)
  from set_path_parts [OF 3] assms(2) show ?thesis by auto
qed

lemma parse_no_fragment_parts:
  assumes "parse_no_fragment rt raw = Some u"
  shows "set (url_raw_path u) \<subseteq> set raw \<and> set (url_raw_query u) \<subseteq> set raw \<and>
    (url_host u \<noteq> [] \<longrightarrow> url_opaque u = []) \<and> url_raw_fragment u = []"
proof (cases "has_ctl raw \<or> raw = ''*''")
  case True
  with assms show ?thesis by (auto simp: parse_no_fragment_def empty_url_def split: if_splits)
next
  case False
  with assms obtain sc rest where sc: "get_scheme [] raw = Some (sc, rest)"
    by (auto simp: parse_no_fragment_def split: option.splits)
  have rest: "set rest \<subseteq> set raw" using set_get_scheme [OF sc] by simp
  define v where "v = empty_url\<lparr>url_scheme := ascii_lower sc\<rparr>"
  have v: "url_host v = []" "url_opaque v = []" "url_raw_path v = []" "url_raw_query v = []"
      "url_raw_fragment v = []"
    by (simp_all add: v_def empty_url_def)
  show ?thesis
  proof (cases "has_suffix ''?'' rest \<and> count_char (CHR ''?'') rest = 1")
    case True
    with assms False sc have "parse_hier rt (v\<lparr>url_force_query := True\<rparr>) (butlast rest) = Some u"
      by (simp add: parse_no_fragment_def Let_def v_def split: if_splits)
    from parse_hier_parts [OF this] v have parts: "set (url_raw_path u) \<subseteq> set (butlast rest)"
      "url_raw_query u = []" "url_host u \<noteq> [] \<longrightarrow> url_opaque u = []" "url_raw_fragment u = []"
      by simp_all
    moreover have "set (butlast rest) \<subseteq> set raw" using rest by (auto dest: in_set_butlastD)
    ultimately show ?thesis by auto
  next
    case no: False
    with assms False sc have "parse_hier rt (v\<lparr>url_raw_query := after_char (CHR ''?'') rest\<rparr>)
        (before_char (CHR ''?'') rest) = Some u"
      by (auto simp: parse_no_fragment_def Let_def v_def split: if_splits)
    from parse_hier_parts [OF this] v have parts:
      "set (url_raw_path u) \<subseteq> set (before_char (CHR ''?'') rest)"
      "url_raw_query u = after_char (CHR ''?'') rest" "url_host u \<noteq> [] \<longrightarrow> url_opaque u = []"
      "url_raw_fragment u = []"
      by simp_all
    then show ?thesis
      using rest set_before_char [of "CHR ''?''" rest] set_after_char [of "CHR ''?''" rest] by auto
  qed
qed

lemma url_parse_parts:
  assumes "url_parse rt raw = Some u"
  shows "set (url_raw_path u) \<subseteq> set raw" "set (url_raw_query u) \<subseteq> set raw"
    "set (url_raw_fragment u) \<subseteq> set raw" "url_host u \<noteq> [] \<longrightarrow> url_opaque u = []"
proof -
  obtain v where v: "parse_no_fragment rt (before_char (CHR ''#'') raw) = Some v"
    and u: "u = v \<or> set_fragment (after_char (CHR ''#'') raw) v = Some u"
    using assms by (auto simp: url_parse_def Let_def split: option.splits if_splits)
  note parts = parse_no_fragment_parts [OF v]
  have sub: "set (before_char (CHR ''#'') raw) \<subseteq> set raw" "set (after_char (CHR ''#'') raw) \<subseteq> set raw"
    by (rule set_before_char, rule set_after_char)
  have same: "url_raw_path u = url_raw_path v \<and> url_raw_query u = url_raw_query v \<and>
      url_host u = url_host v \<and> url_opaque u = url_opaque v \<and>
      url_raw_fragment u \<in> {url_raw_fragment v, [], after_char (CHR ''#'') raw}"
    using u by (auto simp: set_fragment_def)
  show "set (url_raw_path u) \<subseteq> set raw" "set (url_raw_query u) \<subseteq> set raw"
    using parts sub(1) same by (metis order_trans)+
  show "set (url_raw_fragment u) \<subseteq> set raw" using parts sub(2) same by auto
  show "url_host u \<noteq> [] \<longrightarrow> url_opaque u = []" using parts same by metis
qed

text \<open>A printed URL has no white space and no control byte when the text it came from has none.\<close>

lemma url_string_chars:
  assumes "url_parse rt raw = Some u" and "\<forall>c\<in>set raw. url_char c" and "url_host u \<noteq> []"
    and "\<forall>c\<in>set (url_scheme u). url_char c"
  shows "\<forall>c\<in>set (url_string u). url_char c"
proof -
  note parts = url_parse_parts [OF assms(1)]
  have lit: "url_char (CHR '':'')" "url_char (CHR ''/'')" "url_char (CHR ''?'')" "url_char (CHR ''#'')"
      "url_char (CHR ''*'')"
    by (simp_all add: url_char_def byte_def)
  have path: "\<forall>c\<in>set (escaped_path u). url_char c"
  proof -
    have "escaped_path u = url_raw_path u \<or> escaped_path u = ''*'' \<or> escaped_path u = escape EncodePath (url_path u)"
      by (simp add: escaped_path_def)
    then show ?thesis using parts(1) assms(2) lit(5) escape_url_char by fastforce
  qed
  have frag: "\<forall>c\<in>set (escaped_fragment u). url_char c"
  proof -
    have "escaped_fragment u = url_raw_fragment u \<or> escaped_fragment u = escape EncodeFragment (url_fragment u)"
      by (simp add: escaped_fragment_def)
    then show ?thesis using parts(3) assms(2) escape_url_char by fastforce
  qed
  have query: "\<forall>c\<in>set (url_raw_query u). url_char c" using parts(2) assms(2) by blast
  have host: "\<forall>c\<in>set (escape EncodeHost (url_host u)). url_char c" using escape_url_char by blast
  have "url_opaque u = []" using parts(4) assms(3) by simp
  with path frag query host lit assms(4) show ?thesis
    by (simp add: url_string_def Let_def ball_Un) blast
qed

text \<open>What evaluates \<open>url_parse\<close> on a literal by simplification.\<close>

lemmas url_eval = url_parse_def parse_no_fragment_def has_ctl_def is_alpha_def is_digit_def
  count_char_def parse_hier_def parse_authority_def parse_host_def should_escape_def set_path_def
  Let_def empty_url_def ascii_lower_def escape_def is_alnum_def upper_hex_def reserved_marks_def
  unreserved_marks_def host_marks_def is_hex_def unhex_def

end
