(* ===== verification/Rules.thy ===== *)
theory Rules
  imports Events Go_Url
begin

text \<open>
  \<open>internal/model/rule.go\<close>: compiling the configured rules, matching an event against them, checking
  the tag, and expanding the captures into a manifest location. A captured variable list is the Go map
  in order of insertion; the order in which \<open>expandVariables\<close> visits its names is the runtime's.
\<close>

section \<open>Rules and their compiled form\<close>

record rule =
  rl_image_pattern :: string
  rl_manifest_url :: string
  rl_env :: string
  rl_allow_tag :: string
  rl_deny_tags :: "string list"
  rl_write_image_manifest :: "bool option"

record manifest_location =
  ml_repository_url :: string
  ml_owner :: string
  ml_repository :: string
  ml_dir :: string

record tag_matcher =
  tm_literal :: string
  tm_re :: "(string \<Rightarrow> bool) option"

record compiled_rule =
  cr_rule :: rule
  cr_host :: string
  cr_segments :: "string list"
  cr_tag_pieces :: "string list"
  cr_allow :: tag_matcher
  cr_deny :: "tag_matcher list"

record matched_rule =
  mr_compiled :: compiled_rule
  mr_event :: image_push_event

type_synonym rule_set = "compiled_rule list"

definition tagRegexpPrefix :: string where "tagRegexpPrefix = ''regexp:''"
definition variableMarker :: string where "variableMarker = ''$''"
definition wildcardSegment :: string where "wildcardSegment = ''*''"
definition recursiveWildcardSegment :: string where "recursiveWildcardSegment = ''**''"

definition isVariable :: "string \<Rightarrow> bool" where
  "isVariable segment = contains variableMarker segment"

definition splitPath :: "string \<Rightarrow> string list" where
  "splitPath raw = filter (\<lambda>segment. trim_space segment \<noteq> []) (split_on (CHR ''/'') raw)"

text \<open>Host, repository segments and tag pieces of an image pattern.\<close>

definition splitImagePattern :: "string \<Rightarrow> string \<times> string list \<times> string list" where
  "splitImagePattern pat =
     (case splitPath pat of
        [] \<Rightarrow> ([], [], [])
      | host # segments \<Rightarrow>
          if segments = [] then (host, [], [])
          else (let l = last segments in
                if CHR '':'' \<notin> set l then (host, segments, [])
                else (host, butlast segments @ [before_char (CHR '':'') l],
                      split_on (CHR ''.'') (after_char (CHR '':'') l))))"

section \<open>Tag matchers\<close>

definition newTagMatcher :: "runtime \<Rightarrow> string \<Rightarrow> (go_error, tag_matcher) result" where
  "newTagMatcher rt pat0 =
     (let pat = trim_space pat0 in
      case cut_prefix tagRegexpPrefix pat of
        None \<Rightarrow> Inr \<lparr>tm_literal = pat, tm_re = None\<rparr>
      | Some expr \<Rightarrow>
          (case regexp_compile rt (trim_space expr) of
             None \<Rightarrow> Inl (Errorf ''invalid tag pattern %q: %w'' [AStr pat] [ErrorsNew ''regexp''])
           | Some re \<Rightarrow> Inr \<lparr>tm_literal = [], tm_re = Some re\<rparr>))"

definition tm_empty :: "tag_matcher \<Rightarrow> bool" where
  "tm_empty m \<longleftrightarrow> tm_re m = None \<and> tm_literal m = []"

definition tm_matches :: "tag_matcher \<Rightarrow> string \<Rightarrow> bool" where
  "tm_matches m tag = (case tm_re m of Some re \<Rightarrow> re tag | None \<Rightarrow> tm_literal m = tag)"

section \<open>Manifest URLs\<close>

definition path_marks :: string where
  "path_marks = [CHR 92] @ ''*?[]''"   \<comment> \<open>92 is the backslash\<close>

fun validate_segments :: "nat \<Rightarrow> string list \<Rightarrow> go_error option" where
  "validate_segments recursiveWildcards [] =
     (if 1 < recursiveWildcards then Some (Errorf ''at most one ** segment is allowed'' [] []) else None)"
| "validate_segments recursiveWildcards (segment # segments) =
     (if segment = ''.'' \<or> segment = ''..''
      then Some (Errorf ''segment %q is not allowed'' [AStr segment] [])
      else if segment = recursiveWildcardSegment
      then validate_segments (Suc recursiveWildcards) segments
      else if contains_any path_marks segment
      then Some (Errorf ''wildcards must be a whole ** segment, got %q'' [AStr segment] [])
      else validate_segments recursiveWildcards segments)"

definition validateManifestPath :: "string list \<Rightarrow> go_error option" where
  "validateManifestPath segments = validate_segments 0 segments"

definition incomplete :: "string \<Rightarrow> fmt_arg list \<Rightarrow> go_error" where
  "incomplete fmt args = Errorf fmt args [Sentinel ErrIncompleteRule]"

definition parseManifestURL :: "runtime \<Rightarrow> string \<Rightarrow> (go_error, manifest_location) result" where
  "parseManifestURL rt raw =
     (case url_parse rt raw of
        None \<Rightarrow> Inl (incomplete ''%w: %q is not a URL: %v'' [AStr raw])
      | Some parsed \<Rightarrow>
          if url_scheme parsed \<noteq> ''https'' \<or> url_host parsed \<noteq> ''github.com'' \<or> url_user parsed \<or>
             url_raw_query parsed \<noteq> [] \<or> url_fragment parsed \<noteq> []
          then Inl (incomplete ''%w: %q must be an https://github.com URL without credentials, port, query, or fragment'' [AStr raw])
          else (let segments = splitPath (url_path parsed) in
            if length segments < 2
            then Inl (incomplete ''%w: %q has no owner and repository'' [AStr raw])
            else if validateManifestPath (drop 2 segments) \<noteq> None
            then Inl (incomplete ''%w: %q has an invalid manifest path: %v'' [AStr raw])
            else (let dir = path_join (drop 2 segments) in
              if has_prefix ''/'' dir \<or> dir = ''..'' \<or> has_prefix ''../'' dir
              then Inl (incomplete ''%w: %q escapes the repository'' [AStr raw])
              else Inr \<lparr>
                ml_repository_url = ''https://github.com/'' @ segments ! 0 @ ''/'' @ segments ! 1,
                ml_owner = segments ! 0,
                ml_repository = segments ! 1,
                ml_dir = dir\<rparr>)))"

section \<open>Compiling\<close>

fun compile_deny :: "runtime \<Rightarrow> string list \<Rightarrow> (go_error, tag_matcher list) result" where
  "compile_deny rt [] = Inr []"
| "compile_deny rt (pat # pats) =
     (case newTagMatcher rt pat of
        Inl err \<Rightarrow> Inl err
      | Inr matcher \<Rightarrow>
          (case compile_deny rt pats of
             Inl err \<Rightarrow> Inl err
           | Inr deny \<Rightarrow> Inr (if tm_empty matcher then deny else matcher # deny)))"

definition compileRule :: "runtime \<Rightarrow> rule \<Rightarrow> (go_error, compiled_rule) result" where
  "compileRule rt r =
     (case splitImagePattern (rl_image_pattern r) of (host, segments, tagPieces) \<Rightarrow>
        if host = [] then Inl (Errorf ''image pattern has no registry host'' [] [])
        else if segments = [] then Inl (Errorf ''image pattern has no repository path'' [] [])
        else if trim_space (rl_manifest_url r) = [] then Inl (Errorf ''manifest URL is empty'' [] [])
        else (case parseManifestURL rt (rl_manifest_url r) of
                Inl err \<Rightarrow> Inl err
              | Inr _ \<Rightarrow>
          (case newTagMatcher rt (rl_allow_tag r) of
             Inl err \<Rightarrow> Inl err
           | Inr allow \<Rightarrow>
          (case compile_deny rt (rl_deny_tags r) of
             Inl err \<Rightarrow> Inl err
           | Inr deny \<Rightarrow> Inr \<lparr>cr_rule = r, cr_host = host, cr_segments = segments,
               cr_tag_pieces = tagPieces, cr_allow = allow, cr_deny = deny\<rparr>))))"

fun compile_rules :: "runtime \<Rightarrow> nat \<Rightarrow> rule list \<Rightarrow> (go_error, rule_set) result" where
  "compile_rules rt i [] = Inr []"
| "compile_rules rt i (r # rs) =
     (case compileRule rt r of
        Inl err \<Rightarrow> Inl (Errorf ''rule %d (%s): %w'' [AInt (int i), AStr (rl_image_pattern r)] [err])
      | Inr c \<Rightarrow> (case compile_rules rt (Suc i) rs of Inl err \<Rightarrow> Inl err | Inr cs \<Rightarrow> Inr (c # cs)))"

definition NewRuleSet :: "runtime \<Rightarrow> rule list \<Rightarrow> (go_error, rule_set) result" where
  "NewRuleSet rt rules = compile_rules rt 0 rules"

section \<open>Matching\<close>

text \<open>The segment loop of \<open>match\<close>, over segments and repository segments of the same number.\<close>

fun match_segments :: "nat \<Rightarrow> string list \<Rightarrow> string list \<Rightarrow> nat option" where
  "match_segments weight (segment # segments) (part # parts) =
     (if segment = wildcardSegment \<or> isVariable segment then match_segments weight segments parts
      else if segment \<noteq> part then None
      else match_segments (Suc weight) segments parts)"
| "match_segments weight segments parts = Some weight"

definition rule_match :: "compiled_rule \<Rightarrow> image_push_event \<Rightarrow> nat option" where
  "rule_match c event =
     (if ev_host event = [] \<or> ev_host event \<noteq> cr_host c then None
      else (let repository = splitPath (ev_repository event) in
        if length repository \<noteq> length (cr_segments c) then None
        else match_segments 0 (cr_segments c) repository))"

fun matches_loop :: "image_push_event \<Rightarrow> int \<Rightarrow> matched_rule list \<Rightarrow> compiled_rule list \<Rightarrow> matched_rule list" where
  "matches_loop event bestWeight acc [] = acc"
| "matches_loop event bestWeight acc (r # rs) =
     (case rule_match r event of
        None \<Rightarrow> matches_loop event bestWeight acc rs
      | Some weight \<Rightarrow>
          if int weight < bestWeight then matches_loop event bestWeight acc rs
          else if bestWeight < int weight
          then matches_loop event (int weight) [\<lparr>mr_compiled = r, mr_event = event\<rparr>] rs
          else matches_loop event bestWeight (acc @ [\<lparr>mr_compiled = r, mr_event = event\<rparr>]) rs)"

definition Matches :: "rule_set \<Rightarrow> image_push_event \<Rightarrow> (go_error, matched_rule list) result" where
  "Matches s event =
     (let ms = matches_loop event (-1) [] s in
      if ms = [] then Inl (Errorf ''%w for %s'' [AStr (ref_string (Reference event))] [Sentinel ErrNoMatchingRule])
      else Inr ms)"

definition Match :: "rule_set \<Rightarrow> image_push_event \<Rightarrow> (go_error, matched_rule) result" where
  "Match s event = (case Matches s event of Inl err \<Rightarrow> Inl err | Inr ms \<Rightarrow> Inr (ms ! 0))"

definition mr_rule :: "matched_rule \<Rightarrow> rule" where
  "mr_rule m = cr_rule (mr_compiled m)"

definition mr_env :: "matched_rule \<Rightarrow> string" where
  "mr_env m = rl_env (mr_rule m)"

definition WritesImageManifest :: "matched_rule \<Rightarrow> bool" where
  "WritesImageManifest m \<longleftrightarrow>
     rl_write_image_manifest (mr_rule m) = None \<or> rl_write_image_manifest (mr_rule m) = Some True"

section \<open>The tag check\<close>

text \<open>
  The loop reports \<open>DenyTags[i]\<close> for the matcher with index \<open>i\<close>. The index is within range for a
  compiled rule (\<open>compile_deny_length\<close> below), so the default of \<open>nth_or\<close> is never read.
\<close>

definition nth_or :: "'a \<Rightarrow> 'a list \<Rightarrow> nat \<Rightarrow> 'a" where
  "nth_or d xs i = (if i < length xs then xs ! i else d)"

fun deny_loop :: "string list \<Rightarrow> string \<Rightarrow> nat \<Rightarrow> tag_matcher list \<Rightarrow> go_error option" where
  "deny_loop denyTags tag i [] = None"
| "deny_loop denyTags tag i (deny # denys) =
     (if tm_matches deny tag
      then Some (Errorf ''%w: %q matches %q'' [AStr tag, AStr (nth_or [] denyTags i)] [Sentinel ErrImageTagDenied])
      else deny_loop denyTags tag (Suc i) denys)"

definition ValidateTag :: "matched_rule \<Rightarrow> go_error option" where
  "ValidateTag m =
     (let tag = ev_tag (mr_event m); c = mr_compiled m in
      if \<not> tm_empty (cr_allow c) \<and> \<not> tm_matches (cr_allow c) tag
      then Some (Errorf ''%w: %q does not match %q'' [AStr tag, AStr (rl_allow_tag (cr_rule c))]
             [Sentinel ErrImageTagNotAllowed])
      else deny_loop (rl_deny_tags (cr_rule c)) tag 0 (cr_deny c))"

section \<open>Captures\<close>

type_synonym captures = "(string \<times> string) list"

fun capture_put :: "string \<Rightarrow> string \<Rightarrow> captures \<Rightarrow> captures" where
  "capture_put k v [] = [(k, v)]"
| "capture_put k v ((k', v') # vs) = (if k' = k then (k, v) # vs else (k', v') # capture_put k v vs)"

fun segment_captures :: "captures \<Rightarrow> string list \<Rightarrow> string list \<Rightarrow> captures" where
  "segment_captures vars (segment # segments) (part # parts) =
     segment_captures (if isVariable segment then capture_put segment part vars else vars) segments parts"
| "segment_captures vars segments parts = vars"

fun tag_captures :: "(string \<Rightarrow> go_error) \<Rightarrow> captures \<Rightarrow> string list \<Rightarrow> string list \<Rightarrow> (go_error, captures) result" where
  "tag_captures err vars [] pieces = Inr vars"
| "tag_captures err vars (p # ps) pieces =
     (if \<not> isVariable p then tag_captures err vars ps (tl pieces)
      else (case pieces of
              [] \<Rightarrow> Inl (err p)
            | piece # rest \<Rightarrow> tag_captures err (capture_put p piece vars) ps rest))"

definition variables :: "compiled_rule \<Rightarrow> image_push_event \<Rightarrow> (go_error, captures) result" where
  "variables c event =
     (let repository = splitPath (ev_repository event) in
      if length repository \<noteq> length (cr_segments c)
      then Inl (incomplete ''%w: %q does not fit %q'' [AStr (ev_repository event), AStr (rl_image_pattern (cr_rule c))])
      else (let vars = segment_captures [] (cr_segments c) repository in
        if cr_tag_pieces c = [] then Inr vars
        else tag_captures
               (\<lambda>piece. incomplete ''%w: tag %q has no piece for %s of %q''
                  [AStr (ev_tag event), AStr piece, AStr (rl_image_pattern (cr_rule c))])
               vars (cr_tag_pieces c) (split_on (CHR ''.'') (ev_tag event))))"

definition capture_value :: "captures \<Rightarrow> string \<Rightarrow> string" where
  "capture_value vars n = (case map_of vars n of None \<Rightarrow> [] | Some v \<Rightarrow> v)"

definition expandVariables :: "runtime \<Rightarrow> string \<Rightarrow> captures \<Rightarrow> string" where
  "expandVariables rt template vars =
     foldl (\<lambda>t n. replace_all n (capture_value vars n) t) template (name_order rt (map fst vars))"

text \<open>What a capture must not be: a dot segment, or a value with a separator or a wildcard.\<close>

definition unsafe_capture :: "string \<Rightarrow> bool" where
  "unsafe_capture v \<longleftrightarrow> v = ''.'' \<or> v = ''..'' \<or> contains_any (''/'' @ path_marks) v"

definition Location :: "runtime \<Rightarrow> matched_rule \<Rightarrow> (go_error, manifest_location) result" where
  "Location rt m =
     (case variables (mr_compiled m) (mr_event m) of
        Inl err \<Rightarrow> Inl err
      | Inr vars \<Rightarrow>
          (case List.find (\<lambda>nv. unsafe_capture (snd nv)) vars of
             Some (n, v) \<Rightarrow> Inl (incomplete ''%w: capture %s has an unsafe path value %q'' [AStr n, AStr v])
           | None \<Rightarrow>
               (let expanded = expandVariables rt (rl_manifest_url (mr_rule m)) vars in
                if contains variableMarker expanded
                then Inl (incomplete ''%w: unresolved variables in %q'' [AStr expanded])
                else parseManifestURL rt expanded)))"

section \<open>The segments of a path\<close>

lemma splitPath_segment:
  assumes "w \<in> set (splitPath raw)"
  shows "trim_space w \<noteq> []" "CHR ''/'' \<notin> set w" "w \<noteq> []"
  using assms split_on_notin [of w "CHR ''/''" raw] by (auto simp: splitPath_def)

text \<open>A segment of a manifest path that was accepted, and a whole path.\<close>

definition manifest_segment :: "string \<Rightarrow> bool" where
  "manifest_segment w \<longleftrightarrow> plain_segment w \<and> trim_space w \<noteq> [] \<and>
     (w = recursiveWildcardSegment \<or> \<not> contains_any path_marks w)"

definition manifest_path_ok :: "string list \<Rightarrow> bool" where
  "manifest_path_ok ws \<longleftrightarrow> list_all manifest_segment ws \<and>
     length (filter (\<lambda>w. w = recursiveWildcardSegment) ws) \<le> 1"

definition allowed_segment :: "string \<Rightarrow> bool" where
  "allowed_segment w \<longleftrightarrow> w \<noteq> ''.'' \<and> w \<noteq> ''..'' \<and>
     (w = recursiveWildcardSegment \<or> \<not> contains_any path_marks w)"

lemma validate_segments_step:
  "validate_segments n (w # ws) = None \<longleftrightarrow>
     allowed_segment w \<and> validate_segments (if w = recursiveWildcardSegment then Suc n else n) ws = None"
  by (simp add: allowed_segment_def)

lemma validate_segments_None:
  "validate_segments n ws = None \<longleftrightarrow>
     (\<forall>w\<in>set ws. allowed_segment w) \<and> n + length (filter (\<lambda>w. w = recursiveWildcardSegment) ws) \<le> 1"
proof (induction ws arbitrary: n)
  case (Cons w ws)
  show ?case unfolding validate_segments_step Cons.IH by auto
qed auto

lemma validateManifestPath_None:
  assumes "\<forall>w\<in>set ws. w \<in> set (splitPath raw)"
  shows "validateManifestPath ws = None \<longleftrightarrow> manifest_path_ok ws"
  using assms splitPath_segment [of _ raw]
  by (auto simp: validateManifestPath_def validate_segments_None manifest_path_ok_def
      manifest_segment_def plain_segment_def allowed_segment_def list_all_iff)

lemma manifest_path_plain: "manifest_path_ok ws \<Longrightarrow> \<forall>w\<in>set ws. plain_segment w"
  by (simp add: manifest_path_ok_def manifest_segment_def list_all_iff)

lemma join_plain_not_dots:
  assumes "\<forall>w\<in>set ws. plain_segment w"
  shows "\<not> has_prefix ''/'' (join_with ''/'' ws)" "join_with ''/'' ws \<noteq> ''..''"
    "\<not> has_prefix ''../'' (join_with ''/'' ws)"
proof -
  have split: "split_on (CHR ''/'') (join_with ''/'' ws) = ws" if "ws \<noteq> []"
    using that assms by (intro split_join) (auto simp: plain_segment_def)
  show "\<not> has_prefix ''/'' (join_with ''/'' ws)" 
  proof
    assume "has_prefix ''/'' (join_with ''/'' ws)"
    then obtain t where t: "join_with ''/'' ws = CHR ''/'' # t" by (auto simp: has_prefix_iff)
    then have "ws \<noteq> []" by auto
    with split t have "[] \<in> set ws" by (metis append_Nil list.set_intros(1) split_on.simps(2))
    with assms show False by (auto simp: plain_segment_def)
  qed
  show "join_with ''/'' ws \<noteq> ''..''"
  proof
    assume eq: "join_with ''/'' ws = ''..''"
    then have "ws \<noteq> []" by auto
    with split eq have "ws = split_on (CHR ''/'') ''..''" by simp
    also have "\<dots> = [''..'']" by simp
    finally show False using assms by (simp add: plain_segment_def)
  qed
  show "\<not> has_prefix ''../'' (join_with ''/'' ws)"
  proof
    assume "has_prefix ''../'' (join_with ''/'' ws)"
    then obtain t where t: "join_with ''/'' ws = ''..'' @ CHR ''/'' # t" by (auto simp: has_prefix_iff)
    then have "ws \<noteq> []" by auto
    with split t have "ws = split_on (CHR ''/'') (''..'' @ CHR ''/'' # t)" by simp
    also have "\<dots> = ''..'' # split_on (CHR ''/'') t" by simp
    finally show False using assms by (metis list.set_intros(1) plain_segment_def)
  qed
qed

section \<open>The locations that are accepted\<close>

text \<open>
  The exact condition under which a manifest URL is accepted. The last check of the function, on the
  joined directory, never rejects anything: the segments are plain by then.
\<close>

definition github_url :: "url \<Rightarrow> bool" where
  "github_url u \<longleftrightarrow> url_scheme u = ''https'' \<and> url_host u = ''github.com'' \<and> \<not> url_user u \<and>
     url_raw_query u = [] \<and> url_fragment u = []"

definition location_at :: "string \<Rightarrow> string \<Rightarrow> string list \<Rightarrow> manifest_location" where
  "location_at owner repo ws = \<lparr>ml_repository_url = ''https://github.com/'' @ owner @ ''/'' @ repo,
     ml_owner = owner, ml_repository = repo, ml_dir = join_with ''/'' ws\<rparr>"

lemma parseManifestURL_accepts:
  "parseManifestURL rt raw = Inr loc \<longleftrightarrow>
     (\<exists>u owner repo ws. url_parse rt raw = Some u \<and> github_url u \<and>
        splitPath (url_path u) = owner # repo # ws \<and> manifest_path_ok ws \<and> loc = location_at owner repo ws)"
proof (cases "url_parse rt raw")
  case None
  then show ?thesis by (simp add: parseManifestURL_def)
next
  case (Some u)
  show ?thesis
  proof (cases "splitPath (url_path u)" rule: remdups_adj.cases)
    case (3 owner repo ws)
    have valid: "validateManifestPath ws = None \<longleftrightarrow> manifest_path_ok ws"
      by (rule validateManifestPath_None [of _ "url_path u"]) (simp add: 3)
    have "path_join ws = join_with ''/'' ws \<and> \<not> (has_prefix ''/'' (path_join ws) \<or> path_join ws = ''..'' \<or>
        has_prefix ''../'' (path_join ws))" if "manifest_path_ok ws"
      using join_plain_not_dots [OF manifest_path_plain [OF that]] path_join_plain [OF manifest_path_plain [OF that]]
      by (simp only: simp_thms)
    with Some 3 valid show ?thesis
      by (auto simp: parseManifestURL_def Let_def github_url_def location_at_def split: if_splits)
  qed (auto simp: Some parseManifestURL_def)
qed

definition location_ok :: "manifest_location \<Rightarrow> bool" where
  "location_ok loc \<longleftrightarrow>
     trim_space (ml_owner loc) \<noteq> [] \<and> CHR ''/'' \<notin> set (ml_owner loc) \<and>
     trim_space (ml_repository loc) \<noteq> [] \<and> CHR ''/'' \<notin> set (ml_repository loc) \<and>
     ml_repository_url loc = ''https://github.com/'' @ ml_owner loc @ ''/'' @ ml_repository loc \<and>
     (ml_dir loc = [] \<or> manifest_path_ok (split_on (CHR ''/'') (ml_dir loc)))"

lemma parseManifestURL_ok: "parseManifestURL rt raw = Inr loc \<Longrightarrow> location_ok loc"
proof -
  assume "parseManifestURL rt raw = Inr loc"
  then obtain u :: url and owner repo ws where w: "splitPath (url_path u) = owner # repo # ws"
      "manifest_path_ok ws" "loc = location_at owner repo ws"
    unfolding parseManifestURL_accepts by blast
  have "ws \<noteq> [] \<Longrightarrow> split_on (CHR ''/'') (join_with ''/'' ws) = ws"
    using manifest_path_plain [OF w(2)] by (intro split_join) (auto simp: plain_segment_def)
  then have "ml_dir loc = [] \<or> manifest_path_ok (split_on (CHR ''/'') (ml_dir loc))"
    using w(2,3) by (cases "ws = []") (simp_all add: location_at_def)
  with w(3) splitPath_segment [of owner "url_path u"] splitPath_segment [of repo "url_path u"] w(1)
  show ?thesis by (simp add: location_ok_def location_at_def)
qed

text \<open>Every failure is an incomplete rule.\<close>

definition incomplete_error :: "go_error \<Rightarrow> bool" where
  "incomplete_error e \<longleftrightarrow> (\<forall>t. errors_is t e \<longleftrightarrow> t = ErrIncompleteRule)"

lemma incomplete_is [simp]: "incomplete_error (incomplete fmt args)"
  by (auto simp: incomplete_error_def incomplete_def)

lemma parseManifestURL_error: "parseManifestURL rt raw = Inl e \<Longrightarrow> incomplete_error e"
  by (auto simp: parseManifestURL_def Let_def split: option.splits if_splits)

lemma tag_captures_error:
  "tag_captures err vars ps pieces = Inl e \<Longrightarrow> \<exists>p\<in>set ps. e = err p"
  by (induction err vars ps pieces rule: tag_captures.induct) (auto split: if_splits list.splits)

lemma variables_error: "variables c ev = Inl e \<Longrightarrow> incomplete_error e"
  by (auto simp: variables_def Let_def split: if_splits dest!: tag_captures_error)

lemma Location_cases:
  obtains (bad) e where "Location rt m = Inl e" "incomplete_error e"
  | (parsed) vars where "variables (mr_compiled m) (mr_event m) = Inr vars"
      "\<forall>v\<in>snd ` set vars. \<not> unsafe_capture v"
      "Location rt m = parseManifestURL rt (expandVariables rt (rl_manifest_url (mr_rule m)) vars)"
      "\<not> isVariable (expandVariables rt (rl_manifest_url (mr_rule m)) vars)"
proof (cases "variables (mr_compiled m) (mr_event m)")
  case (Inl e)
  then show ?thesis using bad [of e] variables_error by (simp add: Location_def)
next
  case (Inr vars)
  show ?thesis
  proof (cases "List.find (\<lambda>nv. unsafe_capture (snd nv)) vars")
    case (Some nv)
    then show ?thesis using Inr bad [OF _ incomplete_is] by (cases nv) (simp add: Location_def)
  next
    case None
    then have "\<forall>v\<in>snd ` set vars. \<not> unsafe_capture v" by (auto simp: find_None_iff)
    with Inr None show ?thesis
      using bad [OF _ incomplete_is] parsed
      by (cases "isVariable (expandVariables rt (rl_manifest_url (mr_rule m)) vars)")
        (auto simp: Location_def Let_def isVariable_def)
  qed
qed

section \<open>Choosing the most specific rules\<close>

text \<open>The declarative reading: the rules that match with a weight no other matching rule exceeds.\<close>

definition most_specific :: "rule_set \<Rightarrow> image_push_event \<Rightarrow> compiled_rule \<Rightarrow> bool" where
  "most_specific s event r \<longleftrightarrow> (case rule_match r event of None \<Rightarrow> False
     | Some weight \<Rightarrow> list_all (\<lambda>r'. case rule_match r' event of None \<Rightarrow> True
         | Some weight' \<Rightarrow> weight' \<le> weight) s)"

text \<open>The weight bound the loop has reached after a prefix of the rules.\<close>

definition weights :: "image_push_event \<Rightarrow> compiled_rule list \<Rightarrow> int list" where
  "weights event s = List.map_filter (\<lambda>r. map_option int (rule_match r event)) s"

definition best_weight :: "image_push_event \<Rightarrow> compiled_rule list \<Rightarrow> int" where
  "best_weight event s = foldl max (-1) (weights event s)"

definition at_weight :: "image_push_event \<Rightarrow> int \<Rightarrow> compiled_rule list \<Rightarrow> matched_rule list" where
  "at_weight event w s =
     map (\<lambda>r. \<lparr>mr_compiled = r, mr_event = event\<rparr>)
       (filter (\<lambda>r. map_option int (rule_match r event) = Some w) s)"

lemma at_weight_append [simp]: "at_weight event w (s @ t) = at_weight event w s @ at_weight event w t"
  by (simp add: at_weight_def)

lemma weights_append [simp]: "weights event (s @ t) = weights event s @ weights event t"
  by (simp add: weights_def map_filter_def)

lemma weights_Cons:
  "weights event (r # s) = (case rule_match r event of None \<Rightarrow> [] | Some w \<Rightarrow> [int w]) @ weights event s"
  by (simp add: weights_def map_filter_simps split: option.splits)

lemma weights_Nil [simp]: "weights event [] = []"
  by (simp add: weights_def map_filter_simps)

lemma foldl_max_le: "(w::int) \<in> set ws \<Longrightarrow> w \<le> foldl max b ws"
  and foldl_max_ge: "b \<le> foldl max b ws"
proof -
  have ge: "b \<le> foldl max b ws" for b :: int and ws
    by (induction ws arbitrary: b) (auto intro: order_trans [OF max.cobounded1])
  show "b \<le> foldl max b ws" by (rule ge)
  show "w \<in> set ws \<Longrightarrow> w \<le> foldl max b ws"
  proof (induction ws arbitrary: b)
    case (Cons x xs)
    then show ?case using ge [of "max b x" xs] by auto
  qed simp
qed

lemma foldl_max_in: "foldl max (b::int) ws = b \<or> foldl max b ws \<in> set ws"
proof (induction ws arbitrary: b)
  case (Cons x xs)
  then show ?case using Cons.IH [of "max b x"] by (auto simp: max_def split: if_splits)
qed simp

lemma match_weight_bound:
  assumes "r \<in> set s" and "rule_match r event = Some w"
  shows "int w \<le> best_weight event s"
proof -
  have "int w \<in> set (weights event s)"
    using assms by (induction s) (auto simp: weights_Cons split: option.splits)
  then show ?thesis unfolding best_weight_def by (rule foldl_max_le)
qed

lemma at_weight_above: "best_weight event s < w \<Longrightarrow> at_weight event w s = []"
  using match_weight_bound [of _ s event]
  by (fastforce simp: at_weight_def filter_empty_conv)

lemma matches_loop_prefix:
  "matches_loop event (best_weight event seen) (at_weight event (best_weight event seen) seen) s =
     at_weight event (best_weight event (seen @ s)) (seen @ s)"
proof (induction s arbitrary: seen)
  case (Cons r s)
  let ?b = "best_weight event seen"
  have next_best: "best_weight event (seen @ [r]) =
      (case rule_match r event of None \<Rightarrow> ?b | Some w \<Rightarrow> max ?b (int w))"
    by (simp add: best_weight_def weights_Cons split: option.splits)
  have one: "at_weight event w [r] = (if map_option int (rule_match r event) = Some w
      then [\<lparr>mr_compiled = r, mr_event = event\<rparr>] else [])" for w
    by (simp add: at_weight_def)
  have above: "?b < int w \<Longrightarrow> at_weight event (int w) seen = []" for w
    by (rule at_weight_above)
  have "matches_loop event ?b (at_weight event ?b seen) (r # s) =
      matches_loop event (best_weight event (seen @ [r]))
        (at_weight event (best_weight event (seen @ [r])) (seen @ [r])) s"
  proof (cases "rule_match r event")
    case None
    then show ?thesis by (simp add: next_best one)
  next
    case (Some w)
    consider "int w < ?b" | "int w = ?b" | "?b < int w" by linarith
    then show ?thesis
      by cases (simp_all add: Some next_best one above max_def del: of_nat_less_iff)
  qed
  also have "\<dots> = at_weight event (best_weight event (seen @ r # s)) (seen @ r # s)"
    using Cons.IH [of "seen @ [r]"] by simp
  finally show ?case .
qed simp

lemma most_specific_weight:
  assumes "r \<in> set s"
  shows "most_specific s event r \<longleftrightarrow> map_option int (rule_match r event) = Some (best_weight event s)"
proof (cases "rule_match r event")
  case (Some w)
  have mem: "x \<in> set (weights event s) \<longleftrightarrow> (\<exists>r\<in>set s. \<exists>w. rule_match r event = Some w \<and> x = int w)" for x
    by (induction s) (auto simp: weights_Cons split: option.splits)
  have "best_weight event s = -1 \<or> best_weight event s \<in> set (weights event s)"
    unfolding best_weight_def by (rule foldl_max_in)
  with match_weight_bound [OF assms Some]
  obtain r' w' where best: "r' \<in> set s" "rule_match r' event = Some w'" "best_weight event s = int w'"
    by (auto simp: mem)
  have "most_specific s event r \<longleftrightarrow> (\<forall>r'\<in>set s. \<forall>w'. rule_match r' event = Some w' \<longrightarrow> w' \<le> w)"
    using Some by (auto simp: most_specific_def list_all_iff split: option.splits)
  also have "\<dots> \<longleftrightarrow> best_weight event s \<le> int w"
    using best match_weight_bound [of _ s event] by fastforce
  finally show ?thesis using match_weight_bound [OF assms Some] Some by auto
qed (simp add: most_specific_def)

lemma matches_loop_most_specific:
  "matches_loop event (-1) [] s =
     map (\<lambda>r. \<lparr>mr_compiled = r, mr_event = event\<rparr>) (filter (most_specific s event) s)"
proof -
  have "matches_loop event (-1) [] s = at_weight event (best_weight event s) s"
    using matches_loop_prefix [of event "[]" s] by (simp add: best_weight_def at_weight_def)
  also have "\<dots> = map (\<lambda>r. \<lparr>mr_compiled = r, mr_event = event\<rparr>) (filter (most_specific s event) s)"
    unfolding at_weight_def using most_specific_weight [of _ s event]
    by (intro arg_cong [where f = "map _"] filter_cong) auto
  finally show ?thesis .
qed

lemma Matches_Inr:
  "Matches s event = Inr ms \<longleftrightarrow> ms \<noteq> [] \<and>
     ms = map (\<lambda>r. \<lparr>mr_compiled = r, mr_event = event\<rparr>) (filter (most_specific s event) s)"
  by (auto simp: Matches_def Let_def matches_loop_most_specific)

lemma Matches_event: "Matches s event = Inr ms \<Longrightarrow> m \<in> set ms \<Longrightarrow>
    mr_event m = event \<and> mr_compiled m \<in> set s \<and> rule_match (mr_compiled m) event \<noteq> None"
  by (auto simp: Matches_Inr most_specific_def split: option.splits)

lemma exists_most_specific:
  assumes "r \<in> set s" and "rule_match r event \<noteq> None"
  shows "filter (most_specific s event) s \<noteq> []"
proof -
  have mem: "x \<in> set (weights event s) \<longleftrightarrow> (\<exists>r\<in>set s. \<exists>w. rule_match r event = Some w \<and> x = int w)" for x
    by (induction s) (auto simp: weights_Cons split: option.splits)
  obtain w where "rule_match r event = Some w" using assms(2) by auto
  with match_weight_bound [OF assms(1)] foldl_max_in [of "-1" "weights event s"]
  have "best_weight event s \<in> set (weights event s)" by (fastforce simp: best_weight_def)
  then obtain r' where "r' \<in> set s" "most_specific s event r'"
    using most_specific_weight [of _ s event] by (auto simp: mem)
  then show ?thesis by (auto simp: filter_empty_conv)
qed

lemma Matches_Inl: "Matches s event = Inl e \<longleftrightarrow>
    (\<forall>r\<in>set s. rule_match r event = None) \<and>
    e = Errorf ''%w for %s'' [AStr (ref_string (Reference event))] [Sentinel ErrNoMatchingRule]"
proof (cases "filter (most_specific s event) s = []")
  case True
  with exists_most_specific [of _ s event] have "\<forall>r\<in>set s. rule_match r event = None" by blast
  with True show ?thesis by (auto simp: Matches_def Let_def matches_loop_most_specific)
next
  case False
  then obtain r where "r \<in> set s" "most_specific s event r" by (auto simp: filter_empty_conv)
  then have "\<not> (\<forall>r\<in>set s. rule_match r event = None)"
    by (auto simp: most_specific_def split: option.splits)
  with False show ?thesis by (simp add: Matches_def Let_def matches_loop_most_specific)
qed

section \<open>Compiled rules\<close>

lemma newTagMatcher_plain:
  "cut_prefix tagRegexpPrefix (trim_space pat) = None \<Longrightarrow>
     newTagMatcher rt pat = Inr \<lparr>tm_literal = trim_space pat, tm_re = None\<rparr>"
  by (simp add: newTagMatcher_def Let_def)

text \<open>What a configured tag pattern accepts, read off the configuration.\<close>

definition pattern_blank :: "string \<Rightarrow> bool" where
  "pattern_blank pat \<longleftrightarrow> trim_space pat = []"

definition pattern_accepts :: "runtime \<Rightarrow> string \<Rightarrow> string \<Rightarrow> bool" where
  "pattern_accepts rt pat tag =
     (case cut_prefix tagRegexpPrefix (trim_space pat) of
        None \<Rightarrow> trim_space pat = tag
      | Some expr \<Rightarrow> (case regexp_compile rt (trim_space expr) of None \<Rightarrow> False | Some re \<Rightarrow> re tag))"

lemma newTagMatcher_meaning:
  assumes "newTagMatcher rt pat = Inr m"
  shows "tm_matches m tag = pattern_accepts rt pat tag" "tm_empty m = pattern_blank pat"
  using assms
  by (auto simp: newTagMatcher_def Let_def pattern_accepts_def pattern_blank_def tm_matches_def
      tm_empty_def cut_prefix_def tagRegexpPrefix_def split: option.splits if_splits)

text \<open>The deny matchers stand for the entries that are not blank, in their order.\<close>

lemma compile_deny_entries:
  "compile_deny rt pats = Inr ms \<Longrightarrow>
     list_all2 (\<lambda>pat m. newTagMatcher rt pat = Inr m) (filter (\<lambda>pat. \<not> pattern_blank pat) pats) ms"
  by (induction pats arbitrary: ms)
    (auto split: sum.splits simp: newTagMatcher_meaning(2) dest: newTagMatcher_meaning(2))

lemma compile_deny_length: "compile_deny rt pats = Inr ms \<Longrightarrow> length ms \<le> length pats"
  by (metis compile_deny_entries length_filter_le list_all2_lengthD)

lemma compileRule_Inr:
  assumes "compileRule rt r = Inr c"
  shows "cr_rule c = r" "cr_host c \<noteq> []" "cr_segments c \<noteq> []"
    "splitImagePattern (rl_image_pattern r) = (cr_host c, cr_segments c, cr_tag_pieces c)"
    "newTagMatcher rt (rl_allow_tag r) = Inr (cr_allow c)"
    "compile_deny rt (rl_deny_tags r) = Inr (cr_deny c)"
    "\<exists>loc. parseManifestURL rt (rl_manifest_url r) = Inr loc"
  using assms by (auto simp: compileRule_def split: prod.splits if_splits sum.splits)

lemma compile_rules_Inr:
  "compile_rules rt i rs = Inr cs \<Longrightarrow> list_all2 (\<lambda>r c. compileRule rt r = Inr c) rs cs"
  by (induction rt i rs arbitrary: cs rule: compile_rules.induct) (auto split: sum.splits)

lemma NewRuleSet_compiled:
  assumes "NewRuleSet rt rules = Inr s" and "c \<in> set s"
  shows "\<exists>r\<in>set rules. compileRule rt r = Inr c"
proof -
  have "list_all2 (\<lambda>r c. compileRule rt r = Inr c) rules s"
    using assms(1) compile_rules_Inr by (simp add: NewRuleSet_def)
  with assms(2) show ?thesis by (auto simp: list_all2_conv_all_nth in_set_conv_nth) (metis nth_mem)
qed

lemma deny_loop_None: "deny_loop ds tag i ms = None \<longleftrightarrow> (\<forall>m\<in>set ms. \<not> tm_matches m tag)"
  by (induction ms arbitrary: i) auto

lemma ValidateTag_None:
  "ValidateTag m = None \<longleftrightarrow>
     (tm_empty (cr_allow (mr_compiled m)) \<or> tm_matches (cr_allow (mr_compiled m)) (ev_tag (mr_event m))) \<and>
     (\<forall>d\<in>set (cr_deny (mr_compiled m)). \<not> tm_matches d (ev_tag (mr_event m)))"
  by (auto simp: ValidateTag_def Let_def deny_loop_None)

lemma deny_loop_error:
  "deny_loop ds tag i ms = Some e \<Longrightarrow> (\<forall>t. errors_is t e \<longleftrightarrow> t = ErrImageTagDenied)"
  by (induction ms arbitrary: i) (auto split: if_splits)

lemma ValidateTag_error:
  "ValidateTag m = Some e \<Longrightarrow> \<exists>k\<in>{ErrImageTagNotAllowed, ErrImageTagDenied}. \<forall>t. errors_is t e \<longleftrightarrow> t = k"
  by (auto simp: ValidateTag_def Let_def split: if_splits dest!: deny_loop_error)

section \<open>Substituting the captures\<close>

text \<open>
  The reference reading of \<open>expandVariables\<close>: every \<open>$\<close> of the template starts a token that runs
  to the next one, and the longest capture name the token starts with is replaced, once, by its value.
\<close>

fun longest_capture :: "captures \<Rightarrow> string \<Rightarrow> (string \<times> string) option" where
  "longest_capture [] t = None"
| "longest_capture ((n, v) # vs) t =
     (case longest_capture vs t of
        None \<Rightarrow> if has_prefix n t then Some (n, v) else None
      | Some (n', v') \<Rightarrow> if has_prefix n t \<and> length n' < length n then Some (n, v) else Some (n', v'))"

definition subst_token :: "captures \<Rightarrow> string \<Rightarrow> string" where
  "subst_token vars t = (case longest_capture vars t of None \<Rightarrow> t | Some (n, v) \<Rightarrow> v @ drop (length n) t)"

definition dollar_tokens :: "string \<Rightarrow> string list" where
  "dollar_tokens t = map (\<lambda>w. CHR ''$'' # w) (tl (split_on (CHR ''$'') t))"

definition subst_captures :: "captures \<Rightarrow> string \<Rightarrow> string" where
  "subst_captures vars t = before_char (CHR ''$'') t @ concat (map (subst_token vars) (dollar_tokens t))"

text \<open>Names are a \<open>$\<close> followed by text without one, and no value has a \<open>$\<close>.\<close>

definition capture_name :: "string \<Rightarrow> bool" where
  "capture_name n \<longleftrightarrow> n \<noteq> [] \<and> hd n = CHR ''$'' \<and> CHR ''$'' \<notin> set (tl n)"

definition captures_ok :: "captures \<Rightarrow> bool" where
  "captures_ok vars \<longleftrightarrow> distinct (map fst vars) \<and> list_all (\<lambda>nv. capture_name (fst nv) \<and> CHR ''$'' \<notin> set (snd nv)) vars"

text \<open>No token of the template is shorter than a name, so no name can reach into the next token.\<close>

definition template_ok :: "captures \<Rightarrow> string \<Rightarrow> bool" where
  "template_ok vars t \<longleftrightarrow>
     list_all (\<lambda>w. list_all (\<lambda>nv. length (fst nv) \<le> length w) vars) (dollar_tokens t)"

text \<open>A template in progress: text already final, and tokens still to be replaced.\<close>

datatype chunk = Final string | Token string

fun emit :: "chunk \<Rightarrow> string" where
  "emit (Final s) = s"
| "emit (Token s) = s"

fun chunk_ok :: "nat \<Rightarrow> chunk \<Rightarrow> bool" where
  "chunk_ok k (Final s) = (CHR ''$'' \<notin> set s)"
| "chunk_ok k (Token s) = (capture_name s \<and> k \<le> length s)"

fun replace_chunk :: "string \<Rightarrow> string \<Rightarrow> chunk \<Rightarrow> chunk" where
  "replace_chunk n v (Final s) = Final s"
| "replace_chunk n v (Token s) = (if has_prefix n s then Final (v @ drop (length n) s) else Token s)"

lemma replace_all_skip:
  assumes "CHR ''$'' \<notin> set s" and "capture_name n"
  shows "replace_all n v (s @ t) = s @ replace_all n v t"
  using assms
proof (induction s)
  case (Cons c s)
  then have "\<not> has_prefix n (c # s @ t)" by (cases n) (auto simp: capture_name_def)
  with Cons show ?case by simp
qed simp

lemma replace_all_chunks:
  assumes n: "capture_name n" and ok: "list_all (chunk_ok (length n)) cs"
  shows "replace_all n v (concat (map emit cs)) = concat (map emit (map (replace_chunk n v) cs))"
  using ok
proof (induction cs)
  case (Cons c cs)
  then have IH: "replace_all n v (concat (map emit cs)) = concat (map emit (map (replace_chunk n v) cs))"
    by simp
  show ?case
  proof (cases c)
    case (Final s)
    with Cons.prems n IH show ?thesis by (simp add: replace_all_skip)
  next
    case (Token s)
    then have s: "capture_name s" "length n \<le> length s" using Cons.prems by simp_all
    then obtain s' where s': "s = CHR ''$'' # s'" "CHR ''$'' \<notin> set s'"
      by (cases s) (auto simp: capture_name_def)
    show ?thesis
    proof (cases "has_prefix n s")
      case True
      then obtain r where r: "s = n @ r" by (auto simp: has_prefix_iff)
      have ne: "n \<noteq> []" using n by (simp add: capture_name_def)
      then have "CHR ''$'' \<notin> set r" using s' r by (cases n) auto
      moreover have "replace_all n v (s @ t) = v @ replace_all n v (r @ t)" for t
      proof -
        have p: "has_prefix n (CHR ''$'' # s' @ t)" using r s'(1) by (metis append_Cons append_assoc has_prefix_append)
        have "drop (length n) (CHR ''$'' # s' @ t) = r @ t" using r s'(1) by (metis append_Cons append_assoc append_eq_conv_conj)
        with p ne show ?thesis by (simp add: s'(1))
      qed
      ultimately show ?thesis using Token r IH True n by (simp add: replace_all_skip)
    next
      case False
      have "\<not> has_prefix n (s @ t)" for t
        using False s(2) by (auto simp: has_prefix_iff append_eq_append_conv_if) (metis append_take_drop_id)
      then have "replace_all n v (s @ t) = CHR ''$'' # replace_all n v (s' @ t)" for t
        using s'(1) by simp
      then show ?thesis using Token False IH s' n by (simp add: replace_all_skip)
    qed
  qed
qed simp

lemma replace_chunk_ok:
  assumes "chunk_ok k c" and "capture_name n" and "CHR ''$'' \<notin> set v" and "k' \<le> k"
  shows "chunk_ok k' (replace_chunk n v c)"
proof (cases c)
  case (Token s)
  show ?thesis
  proof (cases "has_prefix n s")
    case True
    then obtain r where r: "s = n @ r" by (auto simp: has_prefix_iff)
    with Token assms(1,2) have "CHR ''$'' \<notin> set r" by (cases n) (auto simp: capture_name_def)
    with True Token r assms(3) show ?thesis by simp
  qed (use Token assms in auto)
qed (use assms in auto)

fun first_capture :: "captures \<Rightarrow> string list \<Rightarrow> chunk \<Rightarrow> chunk" where
  "first_capture vars [] c = c"
| "first_capture vars (n # ns) c = first_capture vars ns (replace_chunk n (capture_value vars n) c)"

lemma expand_chunks:
  assumes "sorted_wrt (\<lambda>a b. length b \<le> length a) ns"
    and "list_all (\<lambda>n. capture_name n \<and> CHR ''$'' \<notin> set (capture_value vars n)) ns"
    and "list_all (\<lambda>c. list_all (\<lambda>n. chunk_ok (length n) c) ns) cs"
  shows "foldl (\<lambda>t n. replace_all n (capture_value vars n) t) (concat (map emit cs)) ns =
     concat (map emit (map (first_capture vars ns) cs))"
  using assms
proof (induction ns arbitrary: cs)
  case (Cons n ns)
  let ?cs = "map (replace_chunk n (capture_value vars n)) cs"
  have now: "list_all (chunk_ok (length n)) cs" using Cons.prems(3) by (auto simp: list_all_iff)
  have later: "list_all (\<lambda>c. list_all (\<lambda>n'. chunk_ok (length n') c) ns) ?cs"
    using now Cons.prems(1,2) by (auto simp: list_all_iff intro!: replace_chunk_ok)
  have "foldl (\<lambda>t n. replace_all n (capture_value vars n) t) (concat (map emit cs)) (n # ns) =
      foldl (\<lambda>t n. replace_all n (capture_value vars n) t) (concat (map emit ?cs)) ns"
    using replace_all_chunks [OF _ now] Cons.prems(2) by simp
  also have "\<dots> = concat (map emit (map (first_capture vars ns) ?cs))"
    using Cons.IH [OF _ _ later] Cons.prems(1,2) by simp
  finally show ?case by (simp add: comp_def)
qed (simp add: comp_def)

lemma first_capture_Final: "first_capture vars ns (Final s) = Final s"
  by (induction ns) simp_all

lemma first_capture_absent: "\<forall>n\<in>set ns. \<not> has_prefix n s \<Longrightarrow> first_capture vars ns (Token s) = Token s"
  by (induction ns) simp_all

text \<open>Among the prefixes of a text the length determines the name.\<close>

lemma prefix_unique: "has_prefix a t \<Longrightarrow> has_prefix b t \<Longrightarrow> length a = length b \<Longrightarrow> a = b"
  by (auto simp: has_prefix_iff)

lemma longest_capture_None: "longest_capture vs t = None \<longleftrightarrow> (\<forall>nv\<in>set vs. \<not> has_prefix (fst nv) t)"
  by (induction vs) (auto split: option.splits if_splits)

lemma longest_capture_Some:
  "longest_capture vs t = Some (n, v) \<Longrightarrow>
     (n, v) \<in> set vs \<and> has_prefix n t \<and> (\<forall>nv\<in>set vs. has_prefix (fst nv) t \<longrightarrow> length (fst nv) \<le> length n)"
proof (induction vs arbitrary: n v)
  case (Cons nv vs)
  obtain m w where nv: "nv = (m, w)" by (cases nv)
  show ?case
  proof (cases "longest_capture vs t")
    case None
    then show ?thesis using Cons.prems nv longest_capture_None [of vs t] by (auto split: if_splits)
  next
    case (Some best)
    obtain n' v' where best: "best = (n', v')" by (cases best)
    have IH: "(n', v') \<in> set vs \<and> has_prefix n' t \<and>
        (\<forall>nv\<in>set vs. has_prefix (fst nv) t \<longrightarrow> length (fst nv) \<le> length n')"
      by (rule Cons.IH) (simp add: Some best)
    then show ?thesis
    proof (cases "has_prefix m t \<and> length n' < length m")
      case True
      then have "n = m" "v = w" using Cons.prems nv Some best by auto
      with IH True nv show ?thesis by fastforce
    next
      case False
      then have "n = n'" "v = v'" using Cons.prems nv Some best by auto
      with IH False nv show ?thesis by auto
    qed
  qed
qed simp

lemma first_capture_longest:
  assumes "sorted_wrt (\<lambda>a b. length b \<le> length a) ns"
    and "n \<in> set ns" and "has_prefix n s"
    and "\<forall>m\<in>set ns. has_prefix m s \<longrightarrow> length m \<le> length n"
  shows "first_capture vars ns (Token s) = Final (capture_value vars n @ drop (length n) s)"
  using assms
proof (induction ns)
  case (Cons m ns)
  show ?case
  proof (cases "has_prefix m s")
    case True
    then have "length m = length n" using Cons.prems by auto
    then have "m = n" using prefix_unique [OF True Cons.prems(3)] by simp
    then show ?thesis using True by (simp add: first_capture_Final)
  next
    case False
    then have "n \<noteq> m" using Cons.prems(3) by auto
    with False Cons show ?thesis by simp
  qed
qed simp

lemma emit_first_capture:
  assumes "distinct (map fst vars)" and "set ns = fst ` set vars"
    and "sorted_wrt (\<lambda>a b. length b \<le> length a) ns"
  shows "emit (first_capture vars ns (Token s)) = subst_token vars s"
proof (cases "longest_capture vars s")
  case None
  then have "\<forall>n\<in>set ns. \<not> has_prefix n s" using assms(2) by (auto simp: longest_capture_None)
  with None show ?thesis by (simp add: first_capture_absent subst_token_def)
next
  case (Some nv)
  obtain n v where nv: "nv = (n, v)" by (cases nv)
  have n: "(n, v) \<in> set vars \<and> has_prefix n s \<and>
      (\<forall>nv\<in>set vars. has_prefix (fst nv) s \<longrightarrow> length (fst nv) \<le> length n)"
    by (rule longest_capture_Some) (simp add: Some nv)
  then have "n \<in> set ns" using assms(2) by force
  then have "first_capture vars ns (Token s) = Final (capture_value vars n @ drop (length n) s)"
    using first_capture_longest [OF assms(3), of n s vars] n assms(2) by auto
  moreover have "capture_value vars n = v"
    using map_of_is_SomeI [OF assms(1), of n v] n by (simp add: capture_value_def)
  ultimately show ?thesis using Some nv by (simp add: subst_token_def)
qed

lemma template_chunks: "before_char (CHR ''$'') t @ concat (dollar_tokens t) = t"
proof (induction t)
  case (Cons c t)
  obtain w ws where w: "split_on (CHR ''$'') t = w # ws" by (cases "split_on (CHR ''$'') t") simp_all
  show ?case
  proof (cases "c = CHR ''$''")
    case True
    have "before_char (CHR ''$'') t = w" using w
      by (induction t arbitrary: w ws) (auto simp: before_char_def split: if_splits list.splits)
    with True Cons w show ?thesis by (simp add: dollar_tokens_def before_char_def)
  next
    case False
    with Cons w show ?thesis by (simp add: dollar_tokens_def before_char_def)
  qed
qed (simp add: dollar_tokens_def before_char_def)

lemma expandVariables_subst:
  assumes rt: "runtime_ok rt" and vars: "captures_ok vars" and t: "template_ok vars t"
  shows "expandVariables rt t vars = subst_captures vars t"
proof -
  let ?ns = "name_order rt (map fst vars)"
  let ?cs = "Final (before_char (CHR ''$'') t) # map Token (dollar_tokens t)"
  have ns: "set ?ns = fst ` set vars" "sorted_wrt (\<lambda>a b. length b \<le> length a) ?ns"
    using rt by (simp_all add: runtime_ok_def)
  have dist: "distinct (map fst vars)" using vars by (simp add: captures_ok_def)
  have names: "list_all (\<lambda>n. capture_name n \<and> CHR ''$'' \<notin> set (capture_value vars n)) ?ns"
    using vars dist by (auto simp: list_all_iff ns captures_ok_def capture_value_def split: option.splits)
  have tokens: "capture_name w" if "w \<in> set (dollar_tokens t)" for w
    using that split_on_notin [of _ "CHR ''$''" t] list.set_sel(2) [of "split_on (CHR ''$'') t"]
    by (auto simp: dollar_tokens_def capture_name_def)
  have chunks: "list_all (\<lambda>c. list_all (\<lambda>n. chunk_ok (length n) c) ?ns) ?cs"
    using t tokens before_char_notin [of "CHR ''$''" t]
    by (auto simp: list_all_iff ns template_ok_def)
  have t_chunks: "concat (map emit ?cs) = t" using template_chunks [of t] by (simp add: comp_def)
  have "expandVariables rt t vars = concat (map emit (map (first_capture vars ?ns) ?cs))"
    using expand_chunks [OF ns(2) names chunks] by (simp only: expandVariables_def t_chunks)
  also have "\<dots> = subst_captures vars t"
    using emit_first_capture [OF dist ns]
    by (simp add: subst_captures_def first_capture_Final comp_def)
  finally show ?thesis .
qed

lemma replace_all_no_dollar:
  "capture_name n \<Longrightarrow> CHR ''$'' \<notin> set t \<Longrightarrow> replace_all n v t = t"
  using replace_all_skip [of t n v "[]"] by simp

section \<open>Properties\<close>

text \<open>
  C19. Location returns either an error that is an incomplete rule and nothing else (so it is never
  retried), or a location whose owner and repository are single non-blank segments, whose URL is the
  GitHub URL of the two, and whose directory is relative, has no dot segment and no wildcard other than
  at most one whole \<open>**\<close> segment. It holds for every event, whatever the pushed names are.
\<close>
theorem Location_safe:
  "case Location rt m of Inl e \<Rightarrow> incomplete_error e | Inr loc \<Rightarrow> location_ok loc"
  by (rule Location_cases [of rt m])
    (auto dest: parseManifestURL_ok parseManifestURL_error split: sum.splits)

text \<open>
  Location succeeds exactly when every capture resolves to a safe value, nothing is left to expand,
  and the expanded URL is a GitHub URL without credentials, query or fragment with an owner, a
  repository and an acceptable path below them; the location is then read off those segments.
\<close>
lemma Location_exact:
  "Location rt m = Inr loc \<longleftrightarrow>
     (\<exists>vars u owner repo ws.
        variables (mr_compiled m) (mr_event m) = Inr vars \<and>
        list_all (\<lambda>nv. \<not> unsafe_capture (snd nv)) vars \<and>
        \<not> isVariable (expandVariables rt (rl_manifest_url (mr_rule m)) vars) \<and>
        url_parse rt (expandVariables rt (rl_manifest_url (mr_rule m)) vars) = Some u \<and>
        github_url u \<and> splitPath (url_path u) = owner # repo # ws \<and> manifest_path_ok ws \<and>
        loc = location_at owner repo ws)"
proof (rule Location_cases [of rt m])
  fix e assume e: "Location rt m = Inl e"
  have "Location rt m = parseManifestURL rt (expandVariables rt (rl_manifest_url (mr_rule m)) vars)"
    if "variables (mr_compiled m) (mr_event m) = Inr vars" "list_all (\<lambda>nv. \<not> unsafe_capture (snd nv)) vars"
      "\<not> isVariable (expandVariables rt (rl_manifest_url (mr_rule m)) vars)" for vars
  proof -
    have "List.find (\<lambda>nv. unsafe_capture (snd nv)) vars = None"
      using that(2) by (auto simp: find_None_iff list_all_iff)
    with that show ?thesis by (simp add: Location_def Let_def isVariable_def)
  qed
  with e show ?thesis by (metis Inl_Inr_False parseManifestURL_accepts)
next
  fix vars
  assume "variables (mr_compiled m) (mr_event m) = Inr vars" "\<forall>v\<in>snd ` set vars. \<not> unsafe_capture v"
    "Location rt m = parseManifestURL rt (expandVariables rt (rl_manifest_url (mr_rule m)) vars)"
    "\<not> isVariable (expandVariables rt (rl_manifest_url (mr_rule m)) vars)"
  then show ?thesis by (simp add: parseManifestURL_accepts list_all_iff)
qed

text \<open>
  C20. Matches returns exactly the rules that match with the greatest number of literal segments, each
  with the event, in declaration order; when no rule matches it fails with ErrNoMatchingRule.
\<close>
theorem Matches_most_specific:
  "Matches s event =
     (if list_ex (\<lambda>r. rule_match r event \<noteq> None) s
      then Inr (map (\<lambda>r. \<lparr>mr_compiled = r, mr_event = event\<rparr>) (filter (most_specific s event) s))
      else Inl (Errorf ''%w for %s'' [AStr (ref_string (Reference event))] [Sentinel ErrNoMatchingRule]))"
proof (cases "Matches s event")
  case (Inl e)
  then have "\<not> list_ex (\<lambda>r. rule_match r event \<noteq> None) s"
    "e = Errorf ''%w for %s'' [AStr (ref_string (Reference event))] [Sentinel ErrNoMatchingRule]"
    unfolding Matches_Inl by (auto simp: list_ex_iff)
  with Inl show ?thesis by (simp only: if_False)
next
  case (Inr ms)
  then have "list_ex (\<lambda>r. rule_match r event \<noteq> None) s"
    unfolding Matches_Inr by (auto simp: list_ex_iff filter_empty_conv most_specific_def split: option.splits)
  moreover have "ms = map (\<lambda>r. \<lparr>mr_compiled = r, mr_event = event\<rparr>) (filter (most_specific s event) s)"
    using Inr unfolding Matches_Inr by blast
  ultimately show ?thesis using Inr by (simp only: if_True)
qed

text \<open>
  C21. For a rule of a set that compiled, the tag of a matched event is accepted exactly when the
  configured allow pattern is blank or accepts it and no deny entry that is not blank accepts it; a
  pattern is a literal, or a regular expression after \<open>regexp:\<close>.
\<close>
theorem ValidateTag_configured:
  assumes "NewRuleSet rt rules = Inr s" and "Matches s event = Inr ms" and "m \<in> set ms"
  shows "mr_rule m \<in> set rules \<and>
    (ValidateTag m = None \<longleftrightarrow>
       (pattern_blank (rl_allow_tag (mr_rule m)) \<or> pattern_accepts rt (rl_allow_tag (mr_rule m)) (ev_tag event)) \<and>
       list_all (\<lambda>pat. pattern_blank pat \<or> \<not> pattern_accepts rt pat (ev_tag event)) (rl_deny_tags (mr_rule m)))"
proof -
  have m: "mr_event m = event" "mr_compiled m \<in> set s" using Matches_event [OF assms(2,3)] by simp_all
  obtain r where r: "r \<in> set rules" "compileRule rt r = Inr (mr_compiled m)"
    using NewRuleSet_compiled [OF assms(1) m(2)] by blast
  note c = compileRule_Inr [OF r(2)]
  have "list_all2 (\<lambda>pat d. newTagMatcher rt pat = Inr d)
      (filter (\<lambda>pat. \<not> pattern_blank pat) (rl_deny_tags r)) (cr_deny (mr_compiled m))"
    using c(6) by (rule compile_deny_entries)
  then have "list_all2 (\<lambda>pat d. (\<not> pattern_accepts rt pat (ev_tag event)) = (\<not> tm_matches d (ev_tag event)))
      (filter (\<lambda>pat. \<not> pattern_blank pat) (rl_deny_tags r)) (cr_deny (mr_compiled m))"
    by (rule list_all2_mono) (simp add: newTagMatcher_meaning(1))
  note deny = list_all2_ball [OF this]
  with r(1) c(1) m(1) newTagMatcher_meaning [OF c(5)] show ?thesis
    by (auto simp: ValidateTag_None mr_rule_def list_all_iff deny [symmetric])
qed

subsection \<open>A rule and an event to evaluate\<close>

definition sample_rule :: rule where
  "sample_rule = \<lparr>rl_image_pattern = ''h/a/$1'', rl_manifest_url = ''https://github.com/o/r/$1'',
     rl_env = ''dev'', rl_allow_tag = [], rl_deny_tags = [[], ''latest''], rl_write_image_manifest = None\<rparr>"

definition sample_event :: "string \<Rightarrow> string \<Rightarrow> image_push_event" where
  "sample_event name tag = \<lparr>ev_kind = RegistryECR, ev_host = ''h'', ev_repository = ''a/'' @ name,
     ev_tag = tag, ev_digest = [], ev_occurred_at = 0\<rparr>"

definition sample_compiled :: compiled_rule where
  "sample_compiled = \<lparr>cr_rule = sample_rule, cr_host = ''h'', cr_segments = [''a'', ''$1''], cr_tag_pieces = [],
     cr_allow = \<lparr>tm_literal = [], tm_re = None\<rparr>, cr_deny = [\<lparr>tm_literal = ''latest'', tm_re = None\<rparr>]\<rparr>"

lemmas rule_eval = splitImagePattern_def splitPath_def isVariable_def variableMarker_def
  wildcardSegment_def recursiveWildcardSegment_def tagRegexpPrefix_def newTagMatcher_def tm_empty_def
  tm_matches_def

lemma char_of_slash: "char_of (47::nat) = CHR ''/''"
  by (simp flip: byte_eq_iff add: byte_def)

lemma sample_parse:
  "parseManifestURL sample_runtime ''https://github.com/o/r/$1'' = Inr (location_at ''o'' ''r'' [''$1''])"
  by (simp add: parseManifestURL_def url_eval text_eval rule_eval validateManifestPath_def path_marks_def
      path_join_def path_clean_def location_at_def)

lemma sample_compile: "NewRuleSet sample_runtime [sample_rule] = Inr [sample_compiled]"
  by (simp add: NewRuleSet_def compileRule_def sample_rule_def sample_compiled_def sample_parse text_eval
      rule_eval Let_def)

lemma sample_match:
  assumes "name = ''x'' \<or> name = ''%2F..%2Fevil''"
  shows "Matches [sample_compiled] (sample_event name tag) =
     Inr [\<lparr>mr_compiled = sample_compiled, mr_event = sample_event name tag\<rparr>]"
  using assms by (auto simp: Matches_def rule_match_def sample_compiled_def sample_event_def text_eval
      rule_eval Let_def)

theorem ValidateTag_configured_witness:
  "mr_rule \<lparr>mr_compiled = sample_compiled, mr_event = sample_event ''x'' ''v1''\<rparr> \<in> set [sample_rule] \<and>
   ValidateTag \<lparr>mr_compiled = sample_compiled, mr_event = sample_event ''x'' ''v1''\<rparr> = None"
proof -
  let ?m = "\<lparr>mr_compiled = sample_compiled, mr_event = sample_event ''x'' ''v1''\<rparr>"
  have "Matches [sample_compiled] (sample_event ''x'' ''v1'') = Inr [?m]" by (rule sample_match) simp
  from ValidateTag_configured [OF sample_compile this, of ?m] show ?thesis
    by (simp add: mr_rule_def sample_compiled_def sample_rule_def pattern_blank_def pattern_accepts_def
        sample_event_def text_eval tagRegexpPrefix_def)
qed

text \<open>
  C27. For captures named \<open>$\<close> and text, with values free of \<open>$\<close>, and a template none of whose tokens is
  shorter than a name, the successive replacements of expandVariables are one simultaneous
  substitution of the longest name at each \<open>$\<close>, whatever order sort.Slice leaves names of equal
  length in.
\<close>
theorem expandVariables_simultaneous:
  assumes "runtime_ok rt" and "captures_ok vars" and "template_ok vars t"
  shows "expandVariables rt t vars = subst_captures vars t"
  using assms by (rule expandVariables_subst)

theorem expandVariables_simultaneous_witness:
  "expandVariables sample_runtime ''s/$1/$10/x'' [(''$1'', ''a''), (''$10'', ''b'')] = ''s/a/b/x''"
proof -
  have "expandVariables sample_runtime ''s/$1/$10/x'' [(''$1'', ''a''), (''$10'', ''b'')] =
      subst_captures [(''$1'', ''a''), (''$10'', ''b'')] ''s/$1/$10/x''"
    by (rule expandVariables_simultaneous [OF runtime_ok_sample])
      (simp_all add: captures_ok_def capture_name_def template_ok_def dollar_tokens_def)
  then show ?thesis
    by (simp add: subst_captures_def subst_token_def dollar_tokens_def text_eval)
qed

text \<open>
  A deny entry after a blank one is reported under the wrong pattern: the matchers skip the blank
  entries but the message reads \<open>DenyTags\<close> at the matcher's own index. The tag \<open>latest\<close> is refused, as
  it should be, and the error names the empty pattern.
\<close>
lemma deny_report_shifted:
  "ValidateTag \<lparr>mr_compiled = sample_compiled, mr_event = sample_event ''x'' ''latest''\<rparr> =
     Some (Errorf ''%w: %q matches %q'' [AStr ''latest'', AStr []] [Sentinel ErrImageTagDenied])"
  by (simp add: ValidateTag_def sample_compiled_def sample_rule_def sample_event_def tm_empty_def
      tm_matches_def nth_or_def)

text \<open>
  The captures are checked before the URL is percent-decoded: a repository segment that carries
  \<open>%2F\<close> passes the check for separators and is then split into several directory segments. The check
  of the path still keeps the result inside the repository: with a dot segment it is refused.
\<close>
lemma capture_checked_before_decoding:
  "(case Location sample_runtime \<lparr>mr_compiled = sample_compiled, mr_event = sample_event ''x%2Fy'' ''v''\<rparr> of
      Inl e \<Rightarrow> False | Inr loc \<Rightarrow> ml_dir loc = ''x/y'') \<and>
   (case Location sample_runtime \<lparr>mr_compiled = sample_compiled, mr_event = sample_event ''%2F..%2Fevil'' ''v''\<rparr> of
      Inl e \<Rightarrow> incomplete_error e | Inr loc \<Rightarrow> False)"
  by (simp add: Location_def variables_def sample_compiled_def sample_rule_def sample_event_def text_eval
      rule_eval Let_def unsafe_capture_def path_marks_def mr_rule_def expandVariables_def
      sample_runtime_def order_by_length_def capture_value_def parseManifestURL_def url_eval
      validateManifestPath_def path_join_def path_clean_def char_of_slash)

end
