(* ===== verification/Labels.thy ===== *)
theory Labels
  imports Events Go_Url "HOL-Library.Multiset"
begin

text \<open>
  \<open>internal/model/label_value.go\<close> and \<open>labels.go\<close>: how the labels an image was pushed with are
  normalised on their way into the domain. The five sanitisers are modelled loop by loop over the
  runes of the value. The contract they share, that a value is dropped or well formed, is a locale,
  and each sanitiser interprets it with the shape it promises.
\<close>

section \<open>The sanitisers\<close>

definition maxLabelTextLength :: nat where "maxLabelTextLength = 512"
definition maxLabelURLLength :: nat where "maxLabelURLLength = 2048"
definition maxLabelHandleLength :: nat where "maxLabelHandleLength = 39"
definition maxLabelTokenLength :: nat where "maxLabelTokenLength = 256"

definition tokenExtraCharacters :: string where
  "tokenExtraCharacters = ''._-/:+''"

definition isASCIIAlphanumeric :: "nat \<Rightarrow> bool" where
  "isASCIIAlphanumeric r \<longleftrightarrow> (97 \<le> r \<and> r \<le> 122) \<or> (65 \<le> r \<and> r \<le> 90) \<or> (48 \<le> r \<and> r \<le> 57)"

text \<open>The loop returns at the rune with index \<open>limit\<close>, with the bytes before it.\<close>

definition truncateRunes :: "string \<Rightarrow> nat \<Rightarrow> string" where
  "truncateRunes value limit =
     (if length (runes value) \<le> limit then value
      else trim_right '' '' (concat (map snd (take limit (utf8_tokens value)))))"

text \<open>The loop of \<open>sanitizeLabelText\<close>: the builder, whether a space is pending, the runes left.\<close>

fun text_loop :: "runtime \<Rightarrow> string \<Rightarrow> bool \<Rightarrow> nat list \<Rightarrow> string" where
  "text_loop rt builder pending [] = builder"
| "text_loop rt builder pending (r # rs) =
     (if r = rune_error \<or> \<not> is_print rt r then text_loop rt builder (builder \<noteq> []) rs
      else if is_space r then text_loop rt builder (builder \<noteq> []) rs
      else text_loop rt ((if pending then builder @ '' '' else builder) @ encode_rune r) False rs)"

definition sanitizeLabelText :: "runtime \<Rightarrow> string \<Rightarrow> string" where
  "sanitizeLabelText rt value = truncateRunes (text_loop rt [] False (runes value)) maxLabelTextLength"

definition sanitizeLabelURL :: "runtime \<Rightarrow> string \<Rightarrow> string" where
  "sanitizeLabelURL rt value0 =
     (let value = trim_space value0 in
      if value = [] \<or> maxLabelURLLength < length value then []
      else if list_ex (\<lambda>r. is_space r \<or> \<not> is_print rt r) (runes value) then []
      else (case url_parse rt value of
              None \<Rightarrow> []
            | Some parsed \<Rightarrow>
                if url_scheme parsed \<noteq> ''http'' \<and> url_scheme parsed \<noteq> ''https'' then []
                else if url_host parsed = [] then []
                else if url_user parsed then []
                else url_string parsed))"

text \<open>The loop of \<open>sanitizeLabelHandle\<close>; \<open>None\<close> is the early return of the empty string.\<close>

fun handle_loop :: "nat \<Rightarrow> bool \<Rightarrow> (nat \<times> string) list \<Rightarrow> bool option" where
  "handle_loop i previousHyphen [] = Some previousHyphen"
| "handle_loop i previousHyphen ((r, bs) # ts) =
     (if isASCIIAlphanumeric r then handle_loop (i + length bs) False ts
      else if r = 45 \<and> 0 < i \<and> \<not> previousHyphen then handle_loop (i + length bs) True ts
      else None)"

definition sanitizeLabelHandle :: "string \<Rightarrow> string" where
  "sanitizeLabelHandle value0 =
     (let value = trim_space value0 in
      if value = [] \<or> maxLabelHandleLength < length value then []
      else (case handle_loop 0 False (utf8_tokens value) of
              None \<Rightarrow> []
            | Some previousHyphen \<Rightarrow> if previousHyphen then [] else value))"

definition sanitizeLabelNumber :: "string \<Rightarrow> string" where
  "sanitizeLabelNumber value0 =
     (let value = trim_space value0 in
      if value = [] \<or> maxLabelTokenLength < length value then []
      else if list_ex (\<lambda>r. r < 48 \<or> 57 < r) (runes value) then []
      else value)"

definition sanitizeLabelToken :: "string \<Rightarrow> string" where
  "sanitizeLabelToken value0 =
     (let value = trim_space value0 in
      if value = [] \<or> maxLabelTokenLength < length value then []
      else if list_ex (\<lambda>r. \<not> isASCIIAlphanumeric r \<and> r \<notin> set (map byte tokenExtraCharacters)) (runes value)
      then []
      else value)"

section \<open>The labels of an image\<close>

definition LabelExtraPrefix :: string where
  "LabelExtraPrefix = ''org.opencontainers.image.extra.''"

text \<open>What the loop of \<open>normalizeExtraKey\<close> writes for one rune.\<close>

definition extra_key_rune :: "nat \<Rightarrow> string" where
  "extra_key_rune r =
     (if (97 \<le> r \<and> r \<le> 122) \<or> (48 \<le> r \<and> r \<le> 57) \<or> r = 95 then encode_rune r
      else if r = 46 \<or> r = 45 \<or> r = 47 then ''_''
      else [])"

definition normalizeExtraKey :: "runtime \<Rightarrow> string \<Rightarrow> string" where
  "normalizeExtraKey rt sfx = trim ''_'' (concat (map extra_key_rune (runes (to_lower rt sfx))))"

text \<open>
  A Go map is the list of its entries in the order a range loop visits them, which is random; the
  keys are distinct. The extra labels are a map, empty when the code returns nil.
\<close>

definition extra_step :: "runtime \<Rightarrow> (string \<rightharpoonup> string) \<Rightarrow> string \<times> string \<Rightarrow> (string \<rightharpoonup> string)" where
  "extra_step rt extra kv = (case cut_prefix LabelExtraPrefix (fst kv) of
     None \<Rightarrow> extra
   | Some sfx \<Rightarrow>
       if normalizeExtraKey rt sfx = [] then extra
       else if sanitizeLabelText rt (snd kv) = [] then extra
       else extra(normalizeExtraKey rt sfx \<mapsto> sanitizeLabelText rt (snd kv)))"

definition newExtraLabels :: "runtime \<Rightarrow> (string \<times> string) list \<Rightarrow> (string \<rightharpoonup> string)" where
  "newExtraLabels rt labels = foldl (extra_step rt) Map.empty labels"

record image_labels =
  lb_source :: string
  lb_revision :: string
  lb_created :: string
  lb_pr_number :: string
  lb_pr_author :: string
  lb_pr_title :: string
  lb_build_url :: string
  lb_build_run_id :: string
  lb_build_ref :: string
  lb_build_event :: string
  lb_build_actor :: string
  lb_extra :: "string \<rightharpoonup> string"
  lb_image_uri :: string
  lb_image_size_bytes :: int

definition no_labels :: image_labels where
  "no_labels = \<lparr>lb_source = [], lb_revision = [], lb_created = [], lb_pr_number = [],
     lb_pr_author = [], lb_pr_title = [], lb_build_url = [], lb_build_run_id = [], lb_build_ref = [],
     lb_build_event = [], lb_build_actor = [], lb_extra = Map.empty, lb_image_uri = [],
     lb_image_size_bytes = 0\<rparr>"

definition label_get :: "(string \<times> string) list \<Rightarrow> string \<Rightarrow> string" where
  "label_get labels key = (case map_of labels key of None \<Rightarrow> [] | Some v \<Rightarrow> v)"

definition NewImageLabels :: "runtime \<Rightarrow> (string \<times> string) list \<Rightarrow> image_labels" where
  "NewImageLabels rt labels = \<lparr>
     lb_source = sanitizeLabelURL rt (label_get labels ''org.opencontainers.image.source''),
     lb_revision = sanitizeLabelToken (label_get labels ''org.opencontainers.image.revision''),
     lb_created = sanitizeLabelToken (label_get labels ''org.opencontainers.image.created''),
     lb_pr_number = sanitizeLabelNumber (label_get labels ''org.opencontainers.image.pr.number''),
     lb_pr_author = sanitizeLabelHandle (label_get labels ''org.opencontainers.image.pr.author''),
     lb_pr_title = sanitizeLabelText rt (label_get labels ''org.opencontainers.image.pr.title''),
     lb_build_url = sanitizeLabelURL rt (label_get labels ''org.opencontainers.image.build.url''),
     lb_build_run_id = sanitizeLabelToken (label_get labels ''org.opencontainers.image.build.run_id''),
     lb_build_ref = sanitizeLabelToken (label_get labels ''org.opencontainers.image.build.ref''),
     lb_build_event = sanitizeLabelToken (label_get labels ''org.opencontainers.image.build.event''),
     lb_build_actor = sanitizeLabelHandle (label_get labels ''org.opencontainers.image.build.actor''),
     lb_extra = newExtraLabels rt labels,
     lb_image_uri = [],
     lb_image_size_bytes = 0\<rparr>"

definition ImageLabels :: "runtime \<Rightarrow> image_metadata \<Rightarrow> image_labels" where
  "ImageLabels rt m = (NewImageLabels rt (md_labels m))\<lparr>lb_image_uri := md_uri m,
     lb_image_size_bytes := md_size_bytes m\<rparr>"

section \<open>The contract of a sanitiser\<close>

text \<open>
  A sanitiser returns the empty string or a value of the shape \<open>ok\<close>. One that never repairs what is
  already of that shape is idempotent, and its results are exactly the empty string and the values of
  the shape.
\<close>

locale label_filter =
  fixes sanitize :: "string \<Rightarrow> string" and ok :: "string \<Rightarrow> bool"
  assumes sound: "sanitize v \<noteq> [] \<Longrightarrow> ok (sanitize v)"
    and empty: "sanitize [] = []"
begin

lemma dropped_or_ok: "sanitize v = [] \<or> ok (sanitize v)"
  using sound by blast

end

locale label_normaliser = label_filter +
  assumes keeps: "ok v \<Longrightarrow> sanitize v = v"
begin

lemma sanitize_idem: "sanitize (sanitize v) = sanitize v"
  using dropped_or_ok [of v] keeps empty by auto

lemma fixed_iff: "sanitize v = v \<longleftrightarrow> v = [] \<or> ok v"
  using dropped_or_ok [of v] keeps empty by auto

lemma range_iff: "s \<in> range sanitize \<longleftrightarrow> s = [] \<or> ok s"
  using dropped_or_ok keeps empty by (metis rangeE rangeI)

end

section \<open>The shapes\<close>

definition number_ok :: "string \<Rightarrow> bool" where
  "number_ok v \<longleftrightarrow> v \<noteq> [] \<and> length v \<le> maxLabelTokenLength \<and> (\<forall>c\<in>set v. 48 \<le> byte c \<and> byte c \<le> 57)"

definition token_ok :: "string \<Rightarrow> bool" where
  "token_ok v \<longleftrightarrow> v \<noteq> [] \<and> length v \<le> maxLabelTokenLength \<and>
     (\<forall>c\<in>set v. isASCIIAlphanumeric (byte c) \<or> c \<in> set tokenExtraCharacters)"

text \<open>A GitHub login: alphanumeric words separated by single hyphens.\<close>

definition handle_ok :: "string \<Rightarrow> bool" where
  "handle_ok v \<longleftrightarrow> v \<noteq> [] \<and> length v \<le> maxLabelHandleLength \<and>
     (\<forall>w\<in>set (split_on (CHR ''-'') v). w \<noteq> [] \<and> (\<forall>c\<in>set w. isASCIIAlphanumeric (byte c)))"

text \<open>Printable runes, no white space but single spaces between words, at most 512 runes.\<close>

fun single_spaced :: "nat list \<Rightarrow> bool" where
  "single_spaced [] = True"
| "single_spaced [r] = (r \<noteq> 32)"
| "single_spaced (r # q # rs) = ((r = 32 \<longrightarrow> q \<noteq> 32) \<and> single_spaced (q # rs))"

definition text_runes_ok :: "runtime \<Rightarrow> nat list \<Rightarrow> bool" where
  "text_runes_ok rt rs \<longleftrightarrow>
     (\<forall>r\<in>set rs. valid_rune r \<and> r \<noteq> rune_error \<and> is_print rt r \<and> (is_space r \<longrightarrow> r = 32)) \<and>
     (rs \<noteq> [] \<longrightarrow> hd rs \<noteq> 32) \<and> single_spaced rs"

definition text_ok :: "runtime \<Rightarrow> string \<Rightarrow> bool" where
  "text_ok rt v \<longleftrightarrow> v \<noteq> [] \<and> (\<exists>rs. v = encode rs \<and> text_runes_ok rt rs \<and> length rs \<le> maxLabelTextLength)"

text \<open>An absolute http or https URL without a byte of white space or a control byte.\<close>

definition url_ok :: "string \<Rightarrow> bool" where
  "url_ok v \<longleftrightarrow> (has_prefix ''http://'' v \<or> has_prefix ''https://'' v) \<and> (\<forall>c\<in>set v. url_char c)"

subsection \<open>Numbers, tokens and handles are ASCII\<close>

lemma alnum_ascii: "isASCIIAlphanumeric r \<Longrightarrow> r < 128 \<and> \<not> is_space r"
  by (auto simp: isASCIIAlphanumeric_def is_space_def)

lemma extra_chars_ascii: "r \<in> set (map byte tokenExtraCharacters) \<Longrightarrow> r < 128 \<and> \<not> is_space r"
  by (auto simp: tokenExtraCharacters_def byte_def is_space_def)

lemma ascii_value:
  assumes "\<forall>c\<in>set v. byte c < 128 \<and> \<not> is_space (byte c)"
  shows "runes v = map byte v" "trim_space v = v" "utf8_tokens v = map (\<lambda>c. (byte c, [c])) v"
proof -
  have "ascii v" using assms by (auto simp: ascii_def list_all_iff)
  then show runes: "runes v = map byte v" and "utf8_tokens v = map (\<lambda>c. (byte c, [c])) v"
    by (auto simp: runes_ascii utf8_tokens_ascii)
  show "trim_space v = v" using assms runes by (intro trim_space_no_space) auto
qed

interpretation number: label_normaliser sanitizeLabelNumber number_ok
proof unfold_locales
  fix v assume "sanitizeLabelNumber v \<noteq> []"
  then have eq: "sanitizeLabelNumber v = trim_space v" and len: "length (trim_space v) \<le> maxLabelTokenLength"
    and digits: "\<forall>r\<in>set (runes (trim_space v)). 48 \<le> r \<and> r \<le> 57"
    by (auto simp: sanitizeLabelNumber_def Let_def list_ex_iff not_less split: if_splits)
  then have "runes (trim_space v) = map byte (trim_space v)"
    using runes_all_ascii [of "trim_space v"] by force
  with eq len digits \<open>sanitizeLabelNumber v \<noteq> []\<close> show "number_ok (sanitizeLabelNumber v)"
    by (auto simp: number_ok_def)
next
  fix v assume v: "number_ok v"
  then have "\<forall>c\<in>set v. byte c < 128 \<and> \<not> is_space (byte c)"
    by (auto simp: number_ok_def is_space_def)
  with v show "sanitizeLabelNumber v = v"
    by (auto simp: sanitizeLabelNumber_def number_ok_def ascii_value Let_def list_ex_iff)
qed (simp add: sanitizeLabelNumber_def)

interpretation token: label_normaliser sanitizeLabelToken token_ok
proof unfold_locales
  fix v assume "sanitizeLabelToken v \<noteq> []"
  then have eq: "sanitizeLabelToken v = trim_space v" and len: "length (trim_space v) \<le> maxLabelTokenLength"
    and chars: "\<forall>r\<in>set (runes (trim_space v)). isASCIIAlphanumeric r \<or> r \<in> set (map byte tokenExtraCharacters)"
    by (auto simp: sanitizeLabelToken_def Let_def list_ex_iff simp del: set_map split: if_splits)
  have "runes (trim_space v) = map byte (trim_space v)"
    using runes_all_ascii [of "trim_space v"] chars alnum_ascii extra_chars_ascii by blast
  with eq len chars \<open>sanitizeLabelToken v \<noteq> []\<close> show "token_ok (sanitizeLabelToken v)"
    by (auto simp: token_ok_def byte_eq_iff)
next
  fix v assume v: "token_ok v"
  then have "\<forall>c\<in>set v. byte c < 128 \<and> \<not> is_space (byte c)"
    using alnum_ascii extra_chars_ascii by (fastforce simp: token_ok_def)
  with v show "sanitizeLabelToken v = v"
    by (auto simp: sanitizeLabelToken_def token_ok_def ascii_value Let_def list_ex_iff)
qed (simp add: sanitizeLabelToken_def)

subsection \<open>Handles\<close>

lemma handle_loop_ascii:
  "handle_loop i p ts = Some q \<Longrightarrow> \<forall>r\<in>set (map fst ts). isASCIIAlphanumeric r \<or> r = 45"
  by (induction i p ts rule: handle_loop.induct) (auto split: if_splits)

text \<open>The words between the hyphens, read from a position that is or is not right after one.\<close>

definition words_ok :: "string list \<Rightarrow> bool" where
  "words_ok ws \<longleftrightarrow> (\<forall>w\<in>set ws. w \<noteq> [] \<and> (\<forall>c\<in>set w. isASCIIAlphanumeric (byte c)))"

lemma alnum_not_hyphen: "isASCIIAlphanumeric (byte c) \<Longrightarrow> c \<noteq> CHR ''-''"
  by (auto simp: isASCIIAlphanumeric_def byte_def)

lemma byte_hyphen: "byte c = 45 \<longleftrightarrow> c = CHR ''-''"
  using byte_eq_iff [of c "CHR ''-''"] by (simp add: byte_def)

lemma hyphen_ascii: "\<not> is_space 45"
  by (simp add: is_space_def)

lemma handle_loop_words:
  "0 < i \<Longrightarrow> handle_loop i p (map (\<lambda>c. (byte c, [c])) v) = Some False \<longleftrightarrow>
     (if p then words_ok (split_on (CHR ''-'') v)
      else (\<forall>c\<in>set (hd (split_on (CHR ''-'') v)). isASCIIAlphanumeric (byte c)) \<and>
           words_ok (tl (split_on (CHR ''-'') v)))"
proof (induction v arbitrary: i p)
  case Nil
  show ?case by (simp add: words_ok_def)
next
  case (Cons c v)
  obtain w ws where w: "split_on (CHR ''-'') v = w # ws"
    using split_on_nonempty [of "CHR ''-''" v] by (cases "split_on (CHR ''-'') v") auto
  show ?case
  proof (cases "isASCIIAlphanumeric (byte c)")
    case True
    then have "c \<noteq> CHR ''-''" by (rule alnum_not_hyphen)
    with True w Cons show ?thesis by (auto simp: words_ok_def)
  next
    case False
    with w Cons show ?thesis by (auto simp: words_ok_def byte_hyphen)
  qed
qed

lemma handle_loop_start:
  assumes "v \<noteq> []"
  shows "handle_loop 0 False (map (\<lambda>c. (byte c, [c])) v) = Some False \<longleftrightarrow>
     words_ok (split_on (CHR ''-'') v)"
proof -
  obtain c u where v: "v = c # u" using assms by (cases v) auto
  obtain w ws where w: "split_on (CHR ''-'') u = w # ws"
    using split_on_nonempty [of "CHR ''-''" u] by (cases "split_on (CHR ''-'') u") auto
  show ?thesis
  proof (cases "isASCIIAlphanumeric (byte c)")
    case True
    then have "c \<noteq> CHR ''-''" by (rule alnum_not_hyphen)
    with True v w handle_loop_words [of 1 False u] show ?thesis by (auto simp: words_ok_def)
  next
    case False
    with v w show ?thesis by (auto simp: words_ok_def)
  qed
qed

lemma sanitizeLabelHandle_nonempty:
  assumes "sanitizeLabelHandle v \<noteq> []"
  shows "sanitizeLabelHandle v = trim_space v" "length (trim_space v) \<le> maxLabelHandleLength"
    "handle_loop 0 False (utf8_tokens (trim_space v)) = Some False"
  using assms
  by (auto simp: sanitizeLabelHandle_def Let_def split: if_splits option.splits)

lemma handle_ok_chars: "handle_ok v \<Longrightarrow> c \<in> set v \<Longrightarrow> isASCIIAlphanumeric (byte c) \<or> c = CHR ''-''"
  using set_join_with [of "''-''" "split_on (CHR ''-'') v"]
  by (fastforce simp: handle_ok_def join_split)

interpretation handle: label_normaliser sanitizeLabelHandle handle_ok
proof unfold_locales
  fix v assume ne: "sanitizeLabelHandle v \<noteq> []"
  note facts = sanitizeLabelHandle_nonempty [OF ne]
  have "\<forall>r\<in>set (runes (trim_space v)). r < 128"
    using handle_loop_ascii [OF facts(3)] alnum_ascii by (fastforce simp: runes_def)
  then have "ascii (trim_space v)" using runes_all_ascii by blast
  then have "words_ok (split_on (CHR ''-'') (trim_space v))"
    using facts(1,3) ne handle_loop_start [of "trim_space v"] by (simp add: utf8_tokens_ascii)
  with facts ne show "handle_ok (sanitizeLabelHandle v)"
    by (simp add: handle_ok_def words_ok_def)
next
  fix v assume v: "handle_ok v"
  have "\<forall>c\<in>set v. byte c < 128 \<and> \<not> is_space (byte c)"
  proof
    fix c assume "c \<in> set v"
    then show "byte c < 128 \<and> \<not> is_space (byte c)"
      using handle_ok_chars [OF v] alnum_ascii [of "byte c"] hyphen_ascii byte_hyphen [of c] by auto
  qed
  with v handle_loop_start [of v] show "sanitizeLabelHandle v = v"
    by (simp add: sanitizeLabelHandle_def ascii_value handle_ok_def words_ok_def Let_def)
qed (simp add: sanitizeLabelHandle_def)

subsection \<open>Free text\<close>

text \<open>The loop on the runes of the builder.\<close>

fun text_runes :: "runtime \<Rightarrow> nat list \<Rightarrow> bool \<Rightarrow> nat list \<Rightarrow> nat list" where
  "text_runes rt bs pending [] = bs"
| "text_runes rt bs pending (r # rs) =
     (if r = rune_error \<or> \<not> is_print rt r \<or> is_space r then text_runes rt bs (bs \<noteq> []) rs
      else text_runes rt ((if pending then bs @ [32] else bs) @ [r]) False rs)"

lemma text_loop_runes: "text_loop rt (encode bs) p rs = encode (text_runes rt bs p rs)"
proof (induction rs arbitrary: bs p)
  case (Cons r rs)
  from Cons [of "(if p then bs @ [32] else bs) @ [r]" False] Cons [of bs "bs \<noteq> []"]
  show ?case by (auto simp: encode_space)
qed simp

lemma single_spaced_snoc:
  "single_spaced bs \<Longrightarrow> r \<noteq> 32 \<Longrightarrow> single_spaced (bs @ [r])"
  by (induction bs rule: single_spaced.induct) auto

lemma single_spaced_snoc2:
  "single_spaced bs \<Longrightarrow> bs \<noteq> [] \<Longrightarrow> r \<noteq> 32 \<Longrightarrow> single_spaced (bs @ [32, r])"
  by (induction bs rule: single_spaced.induct) auto

lemma single_spaced_prefix:
  "single_spaced (xs @ ys) \<Longrightarrow> xs \<noteq> [] \<Longrightarrow> last xs \<noteq> 32 \<Longrightarrow> single_spaced xs"
  by (induction xs rule: single_spaced.induct) auto

lemma single_spaced_before_space:
  "single_spaced (xs @ 32 # ys) \<Longrightarrow> xs \<noteq> [] \<Longrightarrow> last xs \<noteq> 32"
  by (induction xs rule: single_spaced.induct) auto

lemma not_single_spaced_end: "\<not> single_spaced (xs @ [32])"
  by (induction xs rule: single_spaced.induct) auto

lemma text_runes_ok_snoc:
  assumes "text_runes_ok rt bs" "valid_rune r" "r \<noteq> rune_error" "is_print rt r" "\<not> is_space r"
    "r \<noteq> 32"
  shows "text_runes_ok rt (bs @ [r])"
  using assms by (simp add: text_runes_ok_def single_spaced_snoc hd_append)

lemma text_runes_ok_snoc2:
  assumes "text_runes_ok rt bs" "valid_rune r" "r \<noteq> rune_error" "is_print rt r" "\<not> is_space r"
    "r \<noteq> 32" "bs \<noteq> []"
  shows "text_runes_ok rt ((bs @ [32]) @ [r])"
proof -
  have "valid_rune 32" "32 \<noteq> rune_error" "is_print rt 32"
    by (simp_all add: valid_rune_def rune_error_def is_print_def)
  with assms show ?thesis by (simp add: text_runes_ok_def single_spaced_snoc2 hd_append)
qed

lemma text_runes_invariant:
  assumes "\<forall>r\<in>set rs. valid_rune r" and "text_runes_ok rt bs" and "p \<longrightarrow> bs \<noteq> []"
  shows "text_runes_ok rt (text_runes rt bs p rs)"
  using assms
proof (induction rs arbitrary: bs p)
  case (Cons r rs)
  show ?case
  proof (cases "r = rune_error \<or> \<not> is_print rt r \<or> is_space r")
    case True
    with Cons show ?thesis by simp
  next
    case False
    then have "r \<noteq> 32" by (auto simp: is_space_def)
    with False Cons.prems have "text_runes_ok rt ((if p then bs @ [32] else bs) @ [r])"
      using text_runes_ok_snoc [of rt bs r] text_runes_ok_snoc2 [of rt bs r] by (cases p) simp_all
    with False Cons show ?thesis by simp
  qed
qed simp

lemma text_runes_keeps:
  assumes "text_runes_ok rt (bs @ (if p then [32] else []) @ rs)" and "p \<longrightarrow> bs \<noteq> []"
  shows "text_runes rt bs p rs = bs @ (if p then [32] else []) @ rs"
  using assms
proof (induction rs arbitrary: bs p)
  case Nil
  then show ?case using not_single_spaced_end [of bs] by (auto simp: text_runes_ok_def)
next
  case (Cons r rs)
  show ?case
  proof (cases "r = 32")
    case True
    have ss: "single_spaced (bs @ (if p then [32] else []) @ r # rs)"
      and hd: "hd (bs @ (if p then [32] else []) @ r # rs) \<noteq> 32"
      using Cons.prems(1) by (simp_all add: text_runes_ok_def)
    have "\<not> p" using ss True single_spaced_before_space [of "bs @ [32]" rs] by (cases p) auto
    moreover have "bs \<noteq> []" using hd True \<open>\<not> p\<close> by (cases bs) auto
    moreover have "is_space 32" by (simp add: is_space_def)
    ultimately show ?thesis using True Cons.IH [of bs True] Cons.prems by simp
  next
    case False
    have r: "r \<noteq> rune_error \<and> is_print rt r \<and> (is_space r \<longrightarrow> r = 32)"
      using Cons.prems(1) by (simp add: text_runes_ok_def)
    with False have "text_runes rt bs p (r # rs) =
        text_runes rt ((if p then bs @ [32] else bs) @ [r]) False rs" by auto
    also have "\<dots> = bs @ (if p then [32] else []) @ r # rs"
      using Cons.IH [of "(if p then bs @ [32] else bs) @ [r]" False] Cons.prems by (cases p) simp_all
    finally show ?thesis .
  qed
qed

lemma trim_right_encode_id:
  assumes "text_runes_ok rt qs"
  shows "trim_right '' '' (encode qs) = encode qs"
proof (cases qs rule: rev_cases)
  case (snoc rs r)
  have "valid_rune r" "r \<noteq> 32"
    using assms snoc not_single_spaced_end [of rs] by (auto simp: text_runes_ok_def)
  then have "last (encode qs) \<noteq> CHR '' ''" using last_encode_rune [of r] snoc by auto
  then show ?thesis by (intro trim_right_id) auto
qed (simp add: trim_right_def)

lemma trim_right_encode_space: "trim_right '' '' (encode (qs @ [32])) = trim_right '' '' (encode qs)"
  by (simp add: encode_space trim_right_def)

lemma text_runes_ok_prefix:
  assumes "text_runes_ok rt (qs @ ys)" and "qs = [] \<or> last qs \<noteq> 32"
  shows "text_runes_ok rt qs"
  using assms single_spaced_prefix [of qs ys]
  by (cases "qs = []") (simp_all add: text_runes_ok_def hd_append)

lemma trim_right_encode:
  assumes ok: "text_runes_ok rt rs"
  shows "\<exists>qs. trim_right '' '' (encode (take n rs)) = encode qs \<and> text_runes_ok rt qs \<and> length qs \<le> n"
proof (cases "take n rs = [] \<or> last (take n rs) \<noteq> 32")
  case True
  with ok have "text_runes_ok rt (take n rs)"
    using text_runes_ok_prefix [of rt "take n rs" "drop n rs"] by simp
  then show ?thesis by (intro exI [of _ "take n rs"]) (simp add: trim_right_encode_id)
next
  case False
  then obtain qs where qs: "take n rs = qs @ [32]"
    by (cases "take n rs" rule: rev_cases) auto
  have rs: "rs = qs @ 32 # drop n rs" using qs append_take_drop_id [of n rs] by simp
  have len: "length qs \<le> n" using arg_cong [OF qs, of length] by simp
  have "qs = [] \<or> last qs \<noteq> 32"
    using single_spaced_before_space [of qs "drop n rs"] rs ok by (auto simp: text_runes_ok_def)
  then have "text_runes_ok rt qs"
    using text_runes_ok_prefix [of rt qs "32 # drop n rs"] rs ok by simp
  then show ?thesis
    using qs len by (intro exI [of _ qs]) (simp only: trim_right_encode_space trim_right_encode_id)
qed

lemma sanitizeLabelText_runes:
  "\<exists>qs. sanitizeLabelText rt v = encode qs \<and> text_runes_ok rt qs \<and> length qs \<le> maxLabelTextLength"
proof -
  define rs where "rs = text_runes rt [] False (runes v)"
  have ok: "text_runes_ok rt rs"
    unfolding rs_def by (rule text_runes_invariant) (auto simp: runes_valid text_runes_ok_def)
  then have valid: "\<forall>r\<in>set rs. valid_rune r" by (auto simp: text_runes_ok_def)
  have loop: "text_loop rt [] False (runes v) = encode rs"
    using text_loop_runes [of rt "[]"] by (simp add: rs_def)
  show ?thesis
  proof (cases "length rs \<le> maxLabelTextLength")
    case True
    with ok valid show ?thesis
      by (intro exI [of _ rs]) (simp add: sanitizeLabelText_def loop truncateRunes_def)
  next
    case False
    with valid have "sanitizeLabelText rt v = trim_right '' '' (encode (take maxLabelTextLength rs))"
      by (simp add: sanitizeLabelText_def loop truncateRunes_def concat_take_encode)
    with trim_right_encode [OF ok] show ?thesis by metis
  qed
qed

lemma sanitizeLabelText_keeps:
  assumes "text_runes_ok rt rs" and "length rs \<le> maxLabelTextLength"
  shows "sanitizeLabelText rt (encode rs) = encode rs"
proof -
  have "runes (encode rs) = rs" using assms(1) by (simp add: text_runes_ok_def)
  moreover have "text_loop rt [] False rs = encode rs"
    using text_loop_runes [of rt "[]" False rs] text_runes_keeps [of rt "[]" False rs] assms(1) by simp
  ultimately show ?thesis using assms(2) by (simp add: sanitizeLabelText_def truncateRunes_def)
qed

interpretation label_text: label_normaliser "sanitizeLabelText rt" "text_ok rt" for rt
proof unfold_locales
  show "sanitizeLabelText rt [] = []" by (simp add: sanitizeLabelText_def truncateRunes_def)
next
  fix v assume "sanitizeLabelText rt v \<noteq> []"
  with sanitizeLabelText_runes [of rt v] show "text_ok rt (sanitizeLabelText rt v)"
    by (auto simp: text_ok_def)
next
  fix v assume "text_ok rt v"
  then show "sanitizeLabelText rt v = v" by (auto simp: text_ok_def sanitizeLabelText_keeps)
qed

subsection \<open>URLs\<close>

lemma printable_url_char:
  assumes "\<forall>r\<in>set (runes v). \<not> is_space r \<and> is_print rt r"
  shows "\<forall>c\<in>set v. url_char c"
proof
  fix c assume c: "c \<in> set v"
  show "url_char c"
  proof (cases "byte c < 128")
    case True
    with c assms have "\<not> is_space (byte c) \<and> is_print rt (byte c)"
      using ascii_byte_rune by blast
    with True show ?thesis by (auto simp: is_space_def is_print_def url_char_def)
  qed (simp add: url_char_def)
qed

interpretation label_url: label_filter "sanitizeLabelURL rt" url_ok for rt
proof unfold_locales
  show "sanitizeLabelURL rt [] = []" by (simp add: sanitizeLabelURL_def)
next
  fix v assume ne: "sanitizeLabelURL rt v \<noteq> []"
  define w where "w = trim_space v"
  obtain u where u: "url_parse rt w = Some u" "url_scheme u = ''http'' \<or> url_scheme u = ''https''"
      "url_host u \<noteq> []" "sanitizeLabelURL rt v = url_string u"
    and clean: "\<forall>r\<in>set (runes w). \<not> is_space r \<and> is_print rt r"
    using ne unfolding w_def
    by (fastforce simp: sanitizeLabelURL_def Let_def list_ex_iff split: if_splits option.splits)
  have "\<forall>c\<in>set (url_scheme u). url_char c" using u(2) by (auto simp: url_char_def byte_def)
  then have "\<forall>c\<in>set (url_string u). url_char c"
    using url_string_chars [OF u(1) printable_url_char [OF clean] u(3)] by simp
  moreover have "has_prefix ''http://'' (url_string u) \<or> has_prefix ''https://'' (url_string u)"
    using u(2,3) url_parse_parts(4) [OF u(1)] by (auto simp: url_string_def)
  ultimately show "url_ok (sanitizeLabelURL rt v)" using u(4) by (simp add: url_ok_def)
qed

section \<open>The extra labels\<close>

definition key_char :: "char \<Rightarrow> bool" where
  "key_char c \<longleftrightarrow> (97 \<le> byte c \<and> byte c \<le> 122) \<or> (48 \<le> byte c \<and> byte c \<le> 57) \<or> byte c = 95"

text \<open>A manifest key: snake case, no underscore at either end.\<close>

definition extra_key_ok :: "string \<Rightarrow> bool" where
  "extra_key_ok k \<longleftrightarrow> k \<noteq> [] \<and> (\<forall>c\<in>set k. key_char c) \<and> hd k \<noteq> CHR ''_'' \<and> last k \<noteq> CHR ''_''"

lemma trim_ends:
  assumes "trim cs s \<noteq> []"
  shows "hd (trim cs s) \<notin> set cs" "last (trim cs s) \<notin> set cs"
proof -
  obtain t where t: "trim_left cs s = trim cs s @ t"
    using trim_right_prefix [of "trim_left cs s" cs] by (auto simp: trim_def)
  with assms have "hd (trim_left cs s) = hd (trim cs s)" "trim_left cs s \<noteq> []" by auto
  with hd_trim_left [of cs s] show "hd (trim cs s) \<notin> set cs" by simp
  show "last (trim cs s) \<notin> set cs"
    using assms trim_right_last [of cs "trim_left cs s"] by (simp add: trim_def)
qed

lemma extra_key_rune_char: "c \<in> set (extra_key_rune r) \<Longrightarrow> key_char c"
proof -
  assume c: "c \<in> set (extra_key_rune r)"
  show "key_char c"
  proof (cases "(97 \<le> r \<and> r \<le> 122) \<or> (48 \<le> r \<and> r \<le> 57) \<or> r = 95")
    case True
    with c have "r < 128" "c \<in> set (encode_rune r)" by (auto simp: extra_key_rune_def)
    then have "byte c = r" by (simp add: encode_rune_ascii)
    with True show ?thesis by (simp add: key_char_def)
  next
    case False
    with c have "c = CHR ''_''" by (auto simp: extra_key_rune_def split: if_splits)
    then show ?thesis by (simp add: key_char_def byte_def)
  qed
qed

lemma normalizeExtraKey_ok:
  assumes "normalizeExtraKey rt sfx \<noteq> []"
  shows "extra_key_ok (normalizeExtraKey rt sfx)"
proof -
  have "\<forall>c\<in>set (concat (map extra_key_rune rs)). key_char c" for rs
    using extra_key_rune_char by auto
  then have "\<forall>c\<in>set (normalizeExtraKey rt sfx). key_char c"
    unfolding normalizeExtraKey_def using set_trim by blast
  with assms show ?thesis
    using trim_ends [of "''_''"] by (auto simp: extra_key_ok_def normalizeExtraKey_def)
qed

definition extra_ok :: "runtime \<Rightarrow> (string \<rightharpoonup> string) \<Rightarrow> bool" where
  "extra_ok rt extra \<longleftrightarrow> (\<forall>k v. extra k = Some v \<longrightarrow> extra_key_ok k \<and> text_ok rt v)"

lemma extra_step_ok: "extra_ok rt extra \<Longrightarrow> extra_ok rt (extra_step rt extra kv)"
  using normalizeExtraKey_ok label_text.sound [of rt "snd kv"]
  by (auto simp: extra_ok_def extra_step_def split: option.splits)

lemma foldl_extra_step_ok: "extra_ok rt extra \<Longrightarrow> extra_ok rt (foldl (extra_step rt) extra labels)"
  by (induction labels arbitrary: extra) (auto intro: extra_step_ok)

lemma newExtraLabels_ok: "extra_ok rt (newExtraLabels rt labels)"
  unfolding newExtraLabels_def by (rule foldl_extra_step_ok) (simp add: extra_ok_def)

text \<open>The entry one label contributes, if any.\<close>

definition extra_entry :: "runtime \<Rightarrow> string \<times> string \<Rightarrow> (string \<times> string) option" where
  "extra_entry rt kv = (case cut_prefix LabelExtraPrefix (fst kv) of
     None \<Rightarrow> None
   | Some sfx \<Rightarrow>
       if normalizeExtraKey rt sfx = [] \<or> sanitizeLabelText rt (snd kv) = [] then None
       else Some (normalizeExtraKey rt sfx, sanitizeLabelText rt (snd kv)))"

lemma extra_step_entry:
  "extra_step rt extra kv = (case extra_entry rt kv of None \<Rightarrow> extra | Some (k, v) \<Rightarrow> extra(k \<mapsto> v))"
  by (auto simp: extra_step_def extra_entry_def split: option.splits)

lemma foldl_extra_entries:
  "foldl (extra_step rt) extra labels =
     extra ++ map_of (rev (List.map_filter (extra_entry rt) labels))"
  by (induction labels arbitrary: extra)
    (auto simp: extra_step_entry map_filter_simps split: option.splits)

lemma newExtraLabels_entries:
  "newExtraLabels rt labels = map_of (rev (List.map_filter (extra_entry rt) labels))"
  by (simp add: newExtraLabels_def foldl_extra_entries)

lemma map_of_eq_of_set_eq:
  assumes "distinct (map fst xs)" and "distinct (map fst ys)" and "set xs = set ys"
  shows "map_of xs k = map_of ys k"
proof (cases "map_of xs k")
  case None
  with assms(3) show ?thesis by (metis map_of_eq_None_iff)
next
  case (Some v)
  with assms show ?thesis by (metis map_of_SomeD map_of_is_SomeI)
qed

lemma newExtraLabels_order:
  assumes perm: "mset labels = mset labels'"
    and inj: "distinct (map fst (List.map_filter (extra_entry rt) labels))"
  shows "newExtraLabels rt labels = newExtraLabels rt labels'"
proof -
  let ?es = "List.map_filter (extra_entry rt) labels"
  let ?es' = "List.map_filter (extra_entry rt) labels'"
  have "mset ?es = mset ?es'" using perm by (simp add: List.map_filter_def)
  then have "mset (map fst ?es) = mset (map fst ?es')" and set_eq: "set ?es = set ?es'"
    by (simp, metis set_mset_mset)
  then have "distinct (map fst ?es')" using inj mset_eq_imp_distinct_iff by blast
  then have "map_of (rev ?es) k = map_of (rev ?es') k" for k
    using inj set_eq by (intro map_of_eq_of_set_eq) (simp_all add: rev_map [symmetric])
  then show ?thesis unfolding newExtraLabels_entries by blast
qed

lemma sanitizeLabelText_plain:
  "(\<forall>c\<in>set (sanitizeLabelText rt v). 32 \<le> byte c \<and> byte c \<noteq> 127) \<and>
   length (runes (sanitizeLabelText rt v)) \<le> 512"
proof -
  obtain qs where qs: "sanitizeLabelText rt v = encode qs" "text_runes_ok rt qs" "length qs \<le> 512"
    using sanitizeLabelText_runes [of rt v] by (auto simp: maxLabelTextLength_def)
  then have runes: "runes (encode qs) = qs" by (simp add: text_runes_ok_def)
  have "32 \<le> byte c \<and> byte c \<noteq> 127" if c: "c \<in> set (encode qs)" for c
  proof (cases "byte c < 128")
    case True
    then have "byte c \<in> set qs" using ascii_byte_rune c runes by metis
    then have "is_print rt (byte c)" using qs(2) by (simp add: text_runes_ok_def)
    with True show ?thesis by (auto simp: is_print_def)
  qed simp
  with qs runes show ?thesis by (simp add: list_all_iff)
qed

section \<open>Properties\<close>

definition image_labels_ok :: "runtime \<Rightarrow> image_labels \<Rightarrow> bool" where
  "image_labels_ok rt l \<longleftrightarrow>
     list_all (\<lambda>v. v = [] \<or> url_ok v) [lb_source l, lb_build_url l] \<and>
     list_all (\<lambda>v. v = [] \<or> token_ok v)
       [lb_revision l, lb_created l, lb_build_run_id l, lb_build_ref l, lb_build_event l] \<and>
     list_all (\<lambda>v. v = [] \<or> handle_ok v) [lb_pr_author l, lb_build_actor l] \<and>
     (lb_pr_number l = [] \<or> number_ok (lb_pr_number l)) \<and>
     (lb_pr_title l = [] \<or> text_ok rt (lb_pr_title l)) \<and>
     extra_ok rt (lb_extra l)"

text \<open>
  C22. Whatever labels an image was pushed with, every field of NewImageLabels is empty or of the shape
  of its kind: an http or https URL, a token, a GitHub handle, a number, a line of printable text; and
  every extra label has a snake case key and a line of printable text.
\<close>
theorem NewImageLabels_safe:
  "image_labels_ok rt (NewImageLabels rt labels)"
  using label_url.dropped_or_ok token.dropped_or_ok handle.dropped_or_ok number.dropped_or_ok
    label_text.dropped_or_ok newExtraLabels_ok
  by (simp add: image_labels_ok_def NewImageLabels_def)

text \<open>
  Normalising never repairs a value that is well formed: the fixed points of the four sanitisers
  that do not rewrite URLs are exactly the empty string and the values of their shape, so
  normalising twice is normalising once.
\<close>
lemma sanitizers_fixed:
  "(sanitizeLabelNumber v = v \<longleftrightarrow> v = [] \<or> number_ok v) \<and>
   (sanitizeLabelToken v = v \<longleftrightarrow> v = [] \<or> token_ok v) \<and>
   (sanitizeLabelHandle v = v \<longleftrightarrow> v = [] \<or> handle_ok v) \<and>
   (sanitizeLabelText rt v = v \<longleftrightarrow> v = [] \<or> text_ok rt v) \<and>
   sanitizeLabelText rt (sanitizeLabelText rt v) = sanitizeLabelText rt v"
  by (intro conjI number.fixed_iff token.fixed_iff handle.fixed_iff label_text.fixed_iff
      label_text.sanitize_idem)

text \<open>
  A normalised text is one line: it has no control byte (so no line break) and at most 512 runes,
  whatever bytes the label had.
\<close>
lemma sanitizeLabelText_one_line:
  "list_all (\<lambda>c. 32 \<le> byte c \<and> byte c \<noteq> 127) (sanitizeLabelText rt v) \<and>
   length (runes (sanitizeLabelText rt v)) \<le> 512"
  using sanitizeLabelText_plain by (simp add: list_all_iff)

text \<open>
  When no two labels normalise to the same key, the extra labels do not depend on the order in
  which the range loop visits the map of labels.
\<close>
lemma newExtraLabels_order_free:
  assumes "mset labels = mset labels'"
    and "distinct (map fst (List.map_filter (extra_entry rt) labels))"
  shows "newExtraLabels rt labels = newExtraLabels rt labels'"
  using assms by (rule newExtraLabels_order)

lemmas extra_eval = extra_step_def newExtraLabels_def LabelExtraPrefix_def normalizeExtraKey_def
  to_lower_visible extra_key_rune_def encode_rune_ascii trim_def trim_left_def trim_right_def
  sanitizeLabelText_def runes_visible is_print_def is_space_def rune_error_def truncateRunes_def
  maxLabelTextLength_def

lemma char_of_byte_literals:
  "char_of (97::nat) = CHR ''a''" "char_of (98::nat) = CHR ''b''" "char_of (120::nat) = CHR ''x''"
  "char_of (121::nat) = CHR ''y''"
  by (simp_all flip: byte_eq_iff add: byte_def)

text \<open>Two labels whose keys differ in the separator only.\<close>

definition dotted :: "string \<times> string" where
  "dotted = (''org.opencontainers.image.extra.a.b'', ''x'')"

definition dashed :: "string \<times> string" where
  "dashed = (''org.opencontainers.image.extra.a-b'', ''y'')"

lemma extra_colliding:
  "extra_step rt extra dotted = extra(''a_b'' \<mapsto> ''x'')" "extra_step rt extra dashed = extra(''a_b'' \<mapsto> ''y'')"
  by (simp_all add: dotted_def dashed_def extra_eval text_eval char_of_byte_literals)

lemma newExtraLabels_order_free_witness:
  "newExtraLabels sample_runtime [dotted, (''k'', ''v'')] = newExtraLabels sample_runtime [(''k'', ''v''), dotted]"
proof (rule newExtraLabels_order_free)
  show "distinct (map fst (List.map_filter (extra_entry sample_runtime) [dotted, (''k'', ''v'')]))"
    by (simp add: map_filter_simps extra_entry_def LabelExtraPrefix_def cut_prefix_def split: option.splits)
qed simp

text \<open>
  Keys that normalise to the same key collide, and the entry visited last wins: with the two
  labels \<open>extra.a.b\<close> and \<open>extra.a-b\<close> the value surfaced depends on the iteration order of the map, so
  two runs over the same image can write different manifests.
\<close>
lemma newExtraLabels_collision:
  "newExtraLabels rt [dotted, dashed] ''a_b'' = Some ''y'' \<and>
   newExtraLabels rt [dashed, dotted] ''a_b'' = Some ''x''"
  by (simp add: newExtraLabels_def extra_colliding)

end
