(* ===== verification/Image_Manifest.thy ===== *)
theory Image_Manifest
  imports Labels
begin

text \<open>
  \<open>internal/model/manifest.go\<close>: the metadata document of the managed comment block, inserting into
  it, rendering it as comment lines and reading it back. The YAML library is a parameter, an encoder
  (taking the indent) and a decoder of documents. \<open>sort.SliceStable\<close> by the image is the stable
  \<open>sort_key\<close>; Go compares strings bytewise, which is the lexicographic order of char lists.
\<close>

section \<open>The document\<close>

record image_manifest =
  im_image :: string
  im_github_repo :: string
  im_git_sha :: string
  im_commit_url :: string
  im_built_at :: string
  im_build_run_url :: string
  im_extra :: "string \<rightharpoonup> string"

record image_document =
  doc_schema_version :: string
  doc_generator :: string
  doc_images :: "image_manifest list"

definition ImageManifestSchemaVersion :: string where "ImageManifestSchemaVersion = ''v1''"
definition ImageManifestGenerator :: string where "ImageManifestGenerator = ''image-updater''"

definition ImageManifestBeginMarker :: string where
  "ImageManifestBeginMarker = ''--- BEGIN image-updater metadata (auto-generated, do not edit) ---''"

definition ImageManifestEndMarker :: string where
  "ImageManifestEndMarker = ''--- END image-updater metadata ---''"

definition ImageManifestIndentDefault :: int where "ImageManifestIndentDefault = 2"
definition ImageManifestIndentMin :: int where "ImageManifestIndentMin = 2"
definition ImageManifestIndentMax :: int where "ImageManifestIndentMax = 9"

definition IsValidImageManifestIndent :: "int \<Rightarrow> bool" where
  "IsValidImageManifestIndent indent \<longleftrightarrow> ImageManifestIndentMin \<le> indent \<and> indent \<le> ImageManifestIndentMax"

definition empty_document :: image_document where
  "empty_document = \<lparr>doc_schema_version = [], doc_generator = [], doc_images = []\<rparr>"

definition NewImageManifest :: "string \<Rightarrow> image_labels \<Rightarrow> image_manifest" where
  "NewImageManifest img labels = \<lparr>
     im_image = img,
     im_github_repo = lb_source labels,
     im_git_sha = lb_revision labels,
     im_commit_url = (if lb_source labels \<noteq> [] \<and> lb_revision labels \<noteq> []
                      then lb_source labels @ ''/commit/'' @ lb_revision labels else []),
     im_built_at = lb_created labels,
     im_build_run_url = lb_build_url labels,
     im_extra = lb_extra labels\<rparr>"

lemma im_image_New [simp]: "im_image (NewImageManifest img labels) = img"
  by (simp add: NewImageManifest_def)

text \<open>The loop of \<open>Upsert\<close>: replace the first entry of the same image; \<open>None\<close> when there is none.\<close>

fun replace_image :: "image_manifest \<Rightarrow> image_manifest list \<Rightarrow> image_manifest list option" where
  "replace_image m [] = None"
| "replace_image m (i # is) =
     (if im_image i = im_image m then Some (m # is) else map_option (\<lambda>js. i # js) (replace_image m is))"

definition Upsert :: "image_document \<Rightarrow> image_manifest \<Rightarrow> image_document" where
  "Upsert d m = \<lparr>
     doc_schema_version = ImageManifestSchemaVersion,
     doc_generator = ImageManifestGenerator,
     doc_images = sort_key im_image
       (case replace_image m (doc_images d) of None \<Rightarrow> doc_images d @ [m] | Some ms \<Rightarrow> ms)\<rparr>"

section \<open>Comment lines\<close>

definition commentPrefix :: string where "commentPrefix = ''#''"

definition commentLine :: "string \<Rightarrow> string" where
  "commentLine content = (if content = [] then commentPrefix else commentPrefix @ '' '' @ content)"

definition blanks :: string where "blanks = [CHR '' '', CHR 0x09]"

definition uncommentLine :: "string \<Rightarrow> string option" where
  "uncommentLine line =
     (let trimmed = trim_left blanks line in
      if \<not> has_prefix commentPrefix trimmed then None
      else Some (trim_prefix '' '' (trim_prefix commentPrefix trimmed)))"

definition isMarker :: "string \<Rightarrow> string \<Rightarrow> bool" where
  "isMarker line marker = (case uncommentLine line of None \<Rightarrow> False | Some content \<Rightarrow> trim_space content = marker)"

definition IsImageManifestBegin :: "string \<Rightarrow> bool" where
  "IsImageManifestBegin line = isMarker line ImageManifestBeginMarker"

definition IsImageManifestEnd :: "string \<Rightarrow> bool" where
  "IsImageManifestEnd line = isMarker line ImageManifestEndMarker"

definition isBlockMarkerContent :: "string \<Rightarrow> bool" where
  "isBlockMarkerContent line \<longleftrightarrow>
     trim_space line = ImageManifestBeginMarker \<or> trim_space line = ImageManifestEndMarker"

section \<open>Rendering and parsing\<close>

record yaml_codec =
  yaml_encode :: "int \<Rightarrow> image_document \<Rightarrow> string option"
  yaml_decode :: "string \<Rightarrow> image_document option"

definition newline :: char where "newline = CHR 0x0A"

definition RenderImageManifestComment ::
    "yaml_codec \<Rightarrow> image_document \<Rightarrow> int \<Rightarrow> (go_error, string list) result" where
  "RenderImageManifestComment yc document0 indent0 =
     (let document = document0\<lparr>doc_schema_version := ImageManifestSchemaVersion,
            doc_generator := ImageManifestGenerator\<rparr>;
          indent = (if \<not> IsValidImageManifestIndent indent0 then ImageManifestIndentDefault else indent0) in
      case yaml_encode yc indent document of
        None \<Rightarrow> Inl (Errorf ''failed to marshal image manifest: %w'' [] [ErrorsNew ''yaml''])
      | Some buf \<Rightarrow>
          (let body = split_on newline (trim_right [newline] buf) in
           case List.find isBlockMarkerContent body of
             Some line \<Rightarrow> Inl (Errorf ''image manifest carries a block marker of its own: %q'' [AStr line] [])
           | None \<Rightarrow> Inr (commentLine ImageManifestBeginMarker # map commentLine body @
               [commentLine ImageManifestEndMarker])))"

fun block_body :: "string list \<Rightarrow> string list" where
  "block_body [] = []"
| "block_body (line # lines) =
     (case uncommentLine line of
        None \<Rightarrow> block_body lines
      | Some content \<Rightarrow>
          if IsImageManifestBegin line \<or> IsImageManifestEnd line then block_body lines
          else content # block_body lines)"

definition ParseImageManifestComment ::
    "yaml_codec \<Rightarrow> string list \<Rightarrow> (go_error, image_document) result" where
  "ParseImageManifestComment yc lines =
     (case yaml_decode yc (join_with [newline] (block_body lines)) of
        None \<Rightarrow> Inl (Errorf ''failed to unmarshal image manifest: %w'' [] [ErrorsNew ''yaml''])
      | Some document \<Rightarrow> Inr document)"

section \<open>A keyed document\<close>

text \<open>
  What a client of a keyed collection relies on: putting an entry changes the entry of its key and no
  other, the invariant is kept, and two collections with the same entries are equal. Putting is then
  idempotent, a later entry overwrites an earlier one, and entries of different keys commute.
\<close>

locale keyed =
  fixes put :: "'d \<Rightarrow> 'm \<Rightarrow> 'd" and get :: "'d \<Rightarrow> 'k \<Rightarrow> 'm option"
    and key :: "'m \<Rightarrow> 'k" and inv :: "'d \<Rightarrow> bool"
  assumes put_inv: "inv d \<Longrightarrow> inv (put d m)"
    and get_put: "inv d \<Longrightarrow> get (put d m) k = (if k = key m then Some m else get d k)"
    and ext: "inv d \<Longrightarrow> inv d' \<Longrightarrow> (\<And>k. get d k = get d' k) \<Longrightarrow> d = d'"
begin

lemma put_overwrite: "inv d \<Longrightarrow> key m = key n \<Longrightarrow> put (put d m) n = put d n"
  by (rule ext) (simp_all add: put_inv get_put)

lemma put_idem: "inv d \<Longrightarrow> put (put d m) m = put d m"
  by (rule put_overwrite) simp_all

lemma put_commute: "inv d \<Longrightarrow> key m \<noteq> key n \<Longrightarrow> put (put d m) n = put (put d n) m"
  by (rule ext) (auto simp: put_inv get_put)

lemma put_present: "inv d \<Longrightarrow> get d (key m) = Some m \<Longrightarrow> put d m = d"
  by (rule ext) (auto simp: put_inv get_put)

lemma puts_inv: "inv d \<Longrightarrow> inv (foldl put d ms)"
  by (induction ms arbitrary: d) (simp_all add: put_inv)

lemma get_puts:
  "inv d \<Longrightarrow> get (foldl put d ms) k =
     (case List.find (\<lambda>m. key m = k) (rev ms) of Some m \<Rightarrow> Some m | None \<Rightarrow> get d k)"
proof (induction ms rule: rev_induct)
  case (snoc m ms)
  then show ?case using puts_inv [of d ms] by (simp add: get_put)
qed simp

end

section \<open>The document is keyed by the image\<close>

definition doc_get :: "image_document \<Rightarrow> string \<Rightarrow> image_manifest option" where
  "doc_get d img = List.find (\<lambda>m. im_image m = img) (doc_images d)"

text \<open>What every document written by this program satisfies.\<close>

definition doc_ok :: "image_document \<Rightarrow> bool" where
  "doc_ok d \<longleftrightarrow> doc_schema_version d = ImageManifestSchemaVersion \<and>
     doc_generator d = ImageManifestGenerator \<and>
     sorted (map im_image (doc_images d)) \<and> distinct (map im_image (doc_images d))"

lemma replace_image_None: "replace_image m ms = None \<longleftrightarrow> im_image m \<notin> im_image ` set ms"
  by (induction ms) auto

lemma replace_image_keys:
  "replace_image m ms = Some ns \<Longrightarrow> map im_image ns = map im_image ms"
  by (induction ms arbitrary: ns) (auto split: if_splits)

lemma replace_image_find:
  "replace_image m ms = Some ns \<Longrightarrow>
     List.find (\<lambda>i. im_image i = k) ns = (if k = im_image m then Some m else List.find (\<lambda>i. im_image i = k) ms)"
  by (induction ms arbitrary: ns) (auto split: if_splits)

lemma Upsert_images:
  assumes "distinct (map im_image (doc_images d))"
  shows "distinct (map im_image (doc_images (Upsert d m)))"
    "sorted (map im_image (doc_images (Upsert d m)))"
    "doc_get (Upsert d m) k = (if k = im_image m then Some m else doc_get d k)"
proof -
  let ?ms = "case replace_image m (doc_images d) of None \<Rightarrow> doc_images d @ [m] | Some ms \<Rightarrow> ms"
  have ms: "distinct (map im_image ?ms) \<and>
      List.find (\<lambda>i. im_image i = k) ?ms = (if k = im_image m then Some m else doc_get d k)"
  proof (cases "replace_image m (doc_images d)")
    case None
    then have "im_image m \<notin> im_image ` set (doc_images d)" by (simp add: replace_image_None)
    moreover from this have "List.find (\<lambda>i. im_image i = im_image m) (doc_images d) = None"
      unfolding find_None_iff by (metis image_eqI)
    ultimately show ?thesis using None assms
      by (cases "k = im_image m") (simp_all add: doc_get_def find_append split: option.splits)
  next
    case (Some ms)
    with assms show ?thesis using replace_image_keys [OF Some] replace_image_find [OF Some]
      by (simp add: doc_get_def)
  qed
  show "distinct (map im_image (doc_images (Upsert d m)))"
    using ms by (simp add: Upsert_def distinct_sort_key)
  show "sorted (map im_image (doc_images (Upsert d m)))" by (simp add: Upsert_def)
  have "List.find (\<lambda>i. im_image i = k) (sort_key im_image ?ms) = List.find (\<lambda>i. im_image i = k) ?ms"
    using ms by (intro find_key_set_eq) (simp_all add: distinct_sort_key)
  with ms show "doc_get (Upsert d m) k = (if k = im_image m then Some m else doc_get d k)"
    by (simp add: doc_get_def Upsert_def)
qed

lemma doc_ext:
  assumes "doc_ok d" and "doc_ok d'" and "\<And>k. doc_get d k = doc_get d' k"
  shows "d = d'"
proof -
  have "set (doc_images d) = set (doc_images d')"
    using assms find_key [of im_image "doc_images d"] find_key [of im_image "doc_images d'"]
    by (auto simp: doc_ok_def doc_get_def)
  then have "doc_images d = doc_images d'"
    using assms(1,2) by (intro map_sorted_distinct_set_unique [of im_image]) (auto simp: doc_ok_def distinct_map)
  with assms(1,2) show ?thesis by (simp add: doc_ok_def)
qed

interpretation image_doc: keyed Upsert doc_get im_image doc_ok
proof unfold_locales
  fix d m assume "doc_ok d"
  then show "doc_ok (Upsert d m)"
    using Upsert_images [of d m] by (simp add: doc_ok_def) (simp add: Upsert_def)
next
  fix d m k assume "doc_ok d"
  then show "doc_get (Upsert d m) k = (if k = im_image m then Some m else doc_get d k)"
    using Upsert_images(3) by (simp add: doc_ok_def)
next
  fix d d' assume "doc_ok d" "doc_ok d'" "\<And>k. doc_get d k = doc_get d' k"
  then show "d = d'" by (rule doc_ext)
qed

section \<open>Comment lines round trip\<close>

lemma trim_left_blanks: "set pre \<subseteq> set blanks \<Longrightarrow> trim_left blanks (pre @ s) = trim_left blanks s"
  by (simp add: trim_left_def dropWhile_append subset_iff)

lemma uncomment_commentLine:
  assumes "set pre \<subseteq> set blanks"
  shows "uncommentLine (pre @ commentLine content) = Some content"
proof -
  have "trim_left blanks (commentLine content) = commentLine content"
    by (rule trim_left_id) (simp add: commentLine_def commentPrefix_def blanks_def)
  then show ?thesis using assms
    by (simp add: uncommentLine_def trim_left_blanks Let_def commentLine_def commentPrefix_def trim_prefix_def)
qed

lemma isMarker_commentLine:
  "set pre \<subseteq> set blanks \<Longrightarrow> isMarker (pre @ commentLine content) marker \<longleftrightarrow> trim_space content = marker"
  by (simp add: isMarker_def uncomment_commentLine)

lemma trim_markers:
  "trim_space ImageManifestBeginMarker = ImageManifestBeginMarker"
  "trim_space ImageManifestEndMarker = ImageManifestEndMarker"
  by (rule trim_space_ends; simp add: ascii_def ImageManifestBeginMarker_def ImageManifestEndMarker_def
      byte_def is_space_def)+

lemma markers_differ: "ImageManifestBeginMarker \<noteq> ImageManifestEndMarker"
  by (simp add: ImageManifestBeginMarker_def ImageManifestEndMarker_def)

text \<open>A rendered block: the markers around lines that are no marker.\<close>

definition block_lines :: "string list \<Rightarrow> string list" where
  "block_lines body = commentLine ImageManifestBeginMarker # map commentLine body @
     [commentLine ImageManifestEndMarker]"

definition stamped :: "image_document \<Rightarrow> image_document" where
  "stamped d = d\<lparr>doc_schema_version := ImageManifestSchemaVersion, doc_generator := ImageManifestGenerator\<rparr>"

definition render_indent :: "int \<Rightarrow> int" where
  "render_indent indent = (if IsValidImageManifestIndent indent then indent else ImageManifestIndentDefault)"

lemma render_indent_valid: "IsValidImageManifestIndent (render_indent indent)"
  by (simp add: render_indent_def IsValidImageManifestIndent_def ImageManifestIndentDefault_def
      ImageManifestIndentMin_def ImageManifestIndentMax_def)

lemma Render_cases:
  "RenderImageManifestComment yc d indent =
     (case yaml_encode yc (render_indent indent) (stamped d) of
        None \<Rightarrow> Inl (Errorf ''failed to marshal image manifest: %w'' [] [ErrorsNew ''yaml''])
      | Some buf \<Rightarrow>
          (case List.find isBlockMarkerContent (split_on newline (trim_right [newline] buf)) of
             Some line \<Rightarrow> Inl (Errorf ''image manifest carries a block marker of its own: %q'' [AStr line] [])
           | None \<Rightarrow> Inr (block_lines (split_on newline (trim_right [newline] buf)))))"
  by (cases "IsValidImageManifestIndent indent")
    (simp_all add: RenderImageManifestComment_def render_indent_def stamped_def Let_def block_lines_def
      cong: option.case_cong)

lemma Render_Inr:
  "RenderImageManifestComment yc d indent = Inr lines \<longleftrightarrow>
     (\<exists>buf. yaml_encode yc (render_indent indent) (stamped d) = Some buf \<and>
        list_all (\<lambda>l. \<not> isBlockMarkerContent l) (split_on newline (trim_right [newline] buf)) \<and>
        lines = block_lines (split_on newline (trim_right [newline] buf)))"
proof (cases "yaml_encode yc (render_indent indent) (stamped d)")
  case (Some buf)
  then show ?thesis
    by (cases "List.find isBlockMarkerContent (split_on newline (trim_right [newline] buf))")
      (auto simp: Render_cases find_None_all [symmetric])
qed (simp add: Render_cases)

lemma block_body_append: "block_body (xs @ ys) = block_body xs @ block_body ys"
  by (induction xs) (auto split: option.splits)

lemma block_body_comments:
  assumes "set pre \<subseteq> set blanks" and "list_all (\<lambda>l. \<not> isBlockMarkerContent l) body"
  shows "block_body (map (\<lambda>l. pre @ commentLine l) body) = body"
  using assms(2)
  by (induction body)
    (auto simp: uncomment_commentLine assms(1) IsImageManifestBegin_def IsImageManifestEnd_def
      isMarker_commentLine isBlockMarkerContent_def)

lemma block_body_block:
  assumes "set pre \<subseteq> set blanks" and "list_all (\<lambda>l. \<not> isBlockMarkerContent l) body"
  shows "block_body (map (\<lambda>l. pre @ l) (block_lines body)) = body"
proof -
  have "block_body [pre @ commentLine m] = []"
    if "m = ImageManifestBeginMarker \<or> m = ImageManifestEndMarker" for m
    using that by (auto simp: uncomment_commentLine assms(1) IsImageManifestBegin_def
        IsImageManifestEnd_def isMarker_commentLine trim_markers)
  then show ?thesis
    using block_body_comments [OF assms] block_body_append
      [of "[pre @ commentLine ImageManifestBeginMarker]"
        "map (\<lambda>l. pre @ commentLine l) body @ [pre @ commentLine ImageManifestEndMarker]"]
    by (simp add: block_lines_def block_body_append comp_def)
qed

section \<open>Documents of plain lines\<close>

text \<open>What the normalised labels guarantee of a manifest: no value has a control byte.\<close>

definition plain_line :: "string \<Rightarrow> bool" where
  "plain_line v \<longleftrightarrow> list_all (\<lambda>c. 32 \<le> byte c \<and> byte c \<noteq> 127) v"

definition manifest_plain :: "image_manifest \<Rightarrow> bool" where
  "manifest_plain m \<longleftrightarrow>
     list_all plain_line [im_image m, im_github_repo m, im_git_sha m, im_commit_url m, im_built_at m, im_build_run_url m] \<and>
     (\<forall>k v. im_extra m k = Some v \<longrightarrow> plain_line k \<and> plain_line v)"

definition doc_plain :: "image_document \<Rightarrow> bool" where
  "doc_plain d \<longleftrightarrow> list_all manifest_plain (doc_images d)"

lemma plain_line_append [simp]: "plain_line (a @ b) \<longleftrightarrow> plain_line a \<and> plain_line b"
  by (simp add: plain_line_def)

lemma plain_line_Nil [simp]: "plain_line []"
  by (simp add: plain_line_def)

lemma url_ok_plain: "url_ok v \<Longrightarrow> plain_line v"
  by (auto simp: url_ok_def url_char_def plain_line_def list_all_iff)

lemma token_ok_plain: "token_ok v \<Longrightarrow> plain_line v"
proof -
  have "c \<in> set tokenExtraCharacters \<Longrightarrow> 32 \<le> byte c \<and> byte c \<noteq> 127" for c
    by (auto simp: tokenExtraCharacters_def byte_def)
  moreover have "isASCIIAlphanumeric r \<Longrightarrow> 32 \<le> r \<and> r \<noteq> 127" for r
    by (auto simp: isASCIIAlphanumeric_def)
  ultimately show "token_ok v \<Longrightarrow> plain_line v" by (auto simp: token_ok_def plain_line_def list_all_iff)
qed

lemma text_plain: "plain_line (sanitizeLabelText rt v)"
  using sanitizeLabelText_plain by (simp add: plain_line_def list_all_iff)

lemma text_ok_plain: "text_ok rt v \<Longrightarrow> plain_line v"
  using text_plain [of rt v] label_text.keeps [of rt v] by simp

lemma extra_key_plain: "extra_key_ok k \<Longrightarrow> plain_line k"
  by (auto simp: extra_key_ok_def key_char_def plain_line_def list_all_iff)

lemma NewImageManifest_plain:
  "manifest_plain (NewImageManifest img (ImageLabels rt md)) \<longleftrightarrow> plain_line img"
proof -
  have "plain_line (sanitizeLabelURL rt v)" for v
    using label_url.dropped_or_ok [of rt v] url_ok_plain by auto
  moreover have "plain_line (sanitizeLabelToken v)" for v
    using token.dropped_or_ok [of v] token_ok_plain by auto
  moreover have "newExtraLabels rt ls k = Some v \<Longrightarrow> plain_line k \<and> plain_line v" for ls k v
    using newExtraLabels_ok [of rt ls] text_ok_plain extra_key_plain by (auto simp: extra_ok_def)
  moreover have "plain_line (''/commit/'' @ v) \<longleftrightarrow> plain_line v" for v by (simp add: plain_line_def byte_def)
  ultimately show ?thesis
    by (auto simp: manifest_plain_def NewImageManifest_def ImageLabels_def NewImageLabels_def)
qed

lemma set_replace_image: "replace_image m ms = Some ns \<Longrightarrow> set ns \<subseteq> insert m (set ms)"
  by (induction ms arbitrary: ns) (fastforce split: if_splits)+

lemma Upsert_plain: "doc_plain d \<Longrightarrow> manifest_plain m \<Longrightarrow> doc_plain (Upsert d m)"
  using set_replace_image [of m "doc_images d"]
  by (fastforce simp: doc_plain_def Upsert_def list_all_iff split: option.splits)

text \<open>Any document, sorted or not, is left alone by a second update with the same entry.\<close>

lemma find_first: "List.find P xs = (case filter P xs of [] \<Rightarrow> None | x # _ \<Rightarrow> Some x)"
  by (induction xs) auto

lemma replace_image_same:
  "List.find (\<lambda>i. im_image i = im_image m) ms = Some m \<Longrightarrow> replace_image m ms = Some ms"
  by (induction ms) (auto split: if_splits)

lemma Upsert_again: "Upsert (Upsert d m) m = Upsert d m"
proof -
  let ?ms = "case replace_image m (doc_images d) of None \<Rightarrow> doc_images d @ [m] | Some ms \<Rightarrow> ms"
  have "List.find (\<lambda>i. im_image i = im_image m) ?ms = Some m"
  proof (cases "replace_image m (doc_images d)")
    case None
    then have "List.find (\<lambda>i. im_image i = im_image m) (doc_images d) = None"
      unfolding replace_image_None find_None_iff by (metis image_eqI)
    with None show ?thesis by (simp add: find_append)
  next
    case (Some ms)
    then show ?thesis using replace_image_find [OF Some] by simp
  qed
  then have "List.find (\<lambda>i. im_image i = im_image m) (sort_key im_image ?ms) = Some m"
    by (simp add: find_first sort_key_stable)
  then have "replace_image m (sort_key im_image ?ms) = Some (sort_key im_image ?ms)"
    by (rule replace_image_same)
  then show ?thesis by (simp add: Upsert_def sort_key_id_if_sorted)
qed

lemma stamped_Upsert [simp]: "stamped (Upsert d m) = Upsert d m"
  by (simp add: stamped_def Upsert_def)

text \<open>
  What the program relies on from the YAML library: a document of plain lines that encodes, at an
  indent the emitter honours, decodes to itself, also without the final newlines.
\<close>

definition codec_ok :: "yaml_codec \<Rightarrow> bool" where
  "codec_ok yc \<longleftrightarrow> (\<forall>i d buf. IsValidImageManifestIndent i \<longrightarrow> doc_plain d \<longrightarrow> yaml_encode yc i d = Some buf \<longrightarrow>
     yaml_decode yc (trim_right [newline] buf) = Some d)"

lemma Parse_Render:
  assumes codec: "codec_ok yc" and d: "stamped d = d" "doc_plain d"
    and lines: "RenderImageManifestComment yc d indent = Inr lines" and pre: "set pre \<subseteq> set blanks"
  shows "ParseImageManifestComment yc (map (\<lambda>l. pre @ l) lines) = Inr d"
proof -
  from lines d(1) obtain buf where buf: "yaml_encode yc (render_indent indent) d = Some buf"
      "list_all (\<lambda>l. \<not> isBlockMarkerContent l) (split_on newline (trim_right [newline] buf))"
      "lines = block_lines (split_on newline (trim_right [newline] buf))"
    unfolding Render_Inr by auto
  have "yaml_decode yc (trim_right [newline] buf) = Some d"
    using codec buf(1) d(2) render_indent_valid unfolding codec_ok_def by blast
  then show ?thesis
    by (simp add: ParseImageManifestComment_def block_body_block [OF pre buf(2)] buf(3) join_split)
qed

section \<open>Properties\<close>

text \<open>
  A rendered block starts with the begin marker and ends with the end marker, and no line between
  them reads as either marker, so the block a later run finds is the whole block; a document that
  would render a marker of its own is refused with an error that is not retried.
\<close>
lemma Render_delimited:
  "case RenderImageManifestComment yc d indent of
     Inl e \<Rightarrow> \<not> errors_is ErrRetryable e
   | Inr lines \<Rightarrow> \<exists>body. lines = commentLine ImageManifestBeginMarker # body @ [commentLine ImageManifestEndMarker] \<and>
       list_all (\<lambda>l. \<not> IsImageManifestBegin l \<and> \<not> IsImageManifestEnd l) body"
proof (cases "RenderImageManifestComment yc d indent")
  case (Inl e)
  then show ?thesis by (auto simp: Render_cases split: option.splits)
next
  case (Inr lines)
  then obtain buf where
    "list_all (\<lambda>l. \<not> isBlockMarkerContent l) (split_on newline (trim_right [newline] buf))"
    "lines = block_lines (split_on newline (trim_right [newline] buf))"
    unfolding Render_Inr by blast
  moreover have "isMarker (commentLine l) m \<longleftrightarrow> trim_space l = m" for l m
    using isMarker_commentLine [of "[]"] by simp
  ultimately show ?thesis using Inr
    by (auto simp: block_lines_def IsImageManifestBegin_def IsImageManifestEnd_def isBlockMarkerContent_def
        list_all_iff)
qed

text \<open>
  C26. The managed block survives a round trip: the document an update writes, with an entry built from
  the labels of any image, is read back from the rendered comment lines at any indentation of blanks.
  The labels need no further check: normalising them already made every value a plain line.
\<close>
theorem managed_block_roundtrip:
  assumes "codec_ok yc" and "doc_ok d" and "doc_plain d" and "plain_line img" and "set pre \<subseteq> set blanks"
    and "RenderImageManifestComment yc (Upsert d (NewImageManifest img (ImageLabels rt md))) indent = Inr lines"
  shows "ParseImageManifestComment yc (map (\<lambda>l. pre @ l) lines) =
     Inr (Upsert d (NewImageManifest img (ImageLabels rt md)))"
  using assms Upsert_plain NewImageManifest_plain stamped_Upsert by (intro Parse_Render) auto

subsection \<open>Witnesses\<close>

text \<open>
  A codec that knows one document, the one with a single entry that has only an image, and writes it
  the way the library does.
\<close>

definition one_image :: image_document where
  "one_image = \<lparr>doc_schema_version = ImageManifestSchemaVersion, doc_generator = ImageManifestGenerator,
     doc_images = [NewImageManifest ''h/a'' no_labels]\<rparr>"

definition one_image_yaml :: string where
  "one_image_yaml = ''schema_version: v1'' @ [newline] @ ''generator: image-updater'' @ [newline] @ ''images:'' @
     [newline] @ ''  - image: h/a''"

definition sample_codec :: yaml_codec where
  "sample_codec = \<lparr>yaml_encode = (\<lambda>i d. if d = one_image then Some (one_image_yaml @ [newline]) else None),
     yaml_decode = (\<lambda>s. if s = one_image_yaml then Some one_image else None)\<rparr>"

lemma one_image_yaml_trim: "trim_right [newline] (one_image_yaml @ [newline]) = one_image_yaml"
  by (simp add: trim_right_def one_image_yaml_def newline_def)

lemma not_marker_content: "CHR ''E'' \<notin> set l \<Longrightarrow> \<not> isBlockMarkerContent l"
  using set_trim_space [of l]
  by (auto simp: isBlockMarkerContent_def ImageManifestBeginMarker_def ImageManifestEndMarker_def)

lemma sample_codec_ok: "codec_ok sample_codec"
  by (simp add: codec_ok_def sample_codec_def one_image_yaml_trim)

definition no_metadata :: image_metadata where
  "no_metadata = \<lparr>md_labels = [], md_uri = [], md_size_bytes = 0\<rparr>"

lemma no_labels_image:
  "NewImageManifest ''h/a'' (ImageLabels rt no_metadata) = NewImageManifest ''h/a'' no_labels"
  by (simp add: NewImageManifest_def ImageLabels_def NewImageLabels_def no_metadata_def label_get_def
      no_labels_def newExtraLabels_def sanitizeLabelURL_def sanitizeLabelToken_def)

lemma Upsert_one_image: "Upsert empty_document (NewImageManifest ''h/a'' no_labels) = one_image"
  "Upsert one_image (NewImageManifest ''h/a'' no_labels) = one_image"
  by (simp_all add: Upsert_def empty_document_def one_image_def NewImageManifest_def)

lemma one_image_ok: "doc_ok one_image" "doc_plain one_image"
  by (simp_all add: one_image_def doc_ok_def doc_plain_def manifest_plain_def NewImageManifest_def
      no_labels_def plain_line_def byte_def)

theorem managed_block_roundtrip_witness:
  "ParseImageManifestComment sample_codec (map (\<lambda>l. ''  '' @ l) (block_lines (split_on newline one_image_yaml))) =
     Inr one_image"
proof -
  have lines: "RenderImageManifestComment sample_codec one_image 2 = Inr (block_lines (split_on newline one_image_yaml))"
    unfolding Render_Inr using one_image_ok(1)
    by (simp add: sample_codec_def one_image_yaml_trim stamped_def doc_ok_def)
      (simp add: one_image_yaml_def newline_def not_marker_content)
  show ?thesis
    using managed_block_roundtrip [OF sample_codec_ok one_image_ok, of "''h/a''" "''  ''" sample_runtime no_metadata 2]
      lines by (simp add: no_labels_image Upsert_one_image plain_line_def byte_def blanks_def)
qed

text \<open>
  Upsert leaves a sorted document without duplicates in which the entry of the image is the new one
  and every other entry is as it was.
\<close>
lemma Upsert_lookup:
  assumes "distinct (map im_image (doc_images d))"
  shows "doc_ok (Upsert d m) \<and> doc_get (Upsert d m) k = (if k = im_image m then Some m else doc_get d k)"
  using Upsert_images [OF assms] by (simp add: doc_ok_def) (simp add: Upsert_def)

lemma Upsert_lookup_witness:
  "doc_ok one_image \<and> doc_get one_image ''h/a'' = Some (NewImageManifest ''h/a'' no_labels)"
proof -
  have "distinct (map im_image (doc_images empty_document))" by (simp add: empty_document_def)
  from Upsert_lookup [OF this, of "NewImageManifest ''h/a'' no_labels" "''h/a''"]
  show ?thesis by (simp add: Upsert_one_image)
qed

text \<open>
  The order of updates of different images does not matter, and repeating an update changes nothing
  more; an update of the same image replaces the earlier one.
\<close>
lemma Upsert_order_free:
  assumes "doc_ok d"
  shows "Upsert (Upsert d m) m = Upsert d m \<and>
     Upsert (Upsert d m) n = (if im_image m = im_image n then Upsert d n else Upsert (Upsert d n) m)"
  using image_doc.put_idem [OF assms] image_doc.put_overwrite [OF assms] image_doc.put_commute [OF assms]
  by simp

lemma Upsert_order_free_witness:
  "Upsert (Upsert one_image (NewImageManifest ''h/b'' no_labels)) (NewImageManifest ''h/c'' no_labels) =
     Upsert (Upsert one_image (NewImageManifest ''h/c'' no_labels)) (NewImageManifest ''h/b'' no_labels)"
  using Upsert_order_free [OF one_image_ok(1), of "NewImageManifest ''h/b'' no_labels" "NewImageManifest ''h/c'' no_labels"]
  by simp

end
