(* ===== verification/Pull_Request_Body.thy ===== *)
theory Pull_Request_Body
  imports Image_Manifest
begin

text \<open>
  \<open>internal/application/updater/pull_request_body.go\<close>: the Markdown description of a pull request made
  from the labels of an image. The label values were chosen by whoever pushed the image, so the
  properties are that a value stays literal text on the line the application put it on. Characters
  beyond ASCII are written with \<open>encode_rune\<close> and their code point.
\<close>

section \<open>Numbers\<close>

text \<open>\<open>%d\<close> on a natural number, and \<open>%.2f\<close> on the exact quotient of two.\<close>

fun decimal :: "nat \<Rightarrow> string" where
  "decimal n = (if n < 10 then [char_of (48 + n)] else decimal (n div 10) @ [char_of (48 + n mod 10)])"

declare decimal.simps [simp del]

definition decimal_int :: "int \<Rightarrow> string" where
  "decimal_int i = (if i < 0 then ''-'' @ decimal (nat (- i)) else decimal (nat i))"

definition round_half_even :: "nat \<Rightarrow> nat \<Rightarrow> nat" where
  "round_half_even n d =
     (let q = n div d; r = n mod d in if 2 * r < d \<or> 2 * r = d \<and> even q then q else q + 1)"

fun bit_length :: "nat \<Rightarrow> nat" where
  "bit_length n = (if n = 0 then 0 else Suc (bit_length (n div 2)))"

declare bit_length.simps [simp del]

text \<open>The conversion of a non-negative integer to \<open>float64\<close>, which is an integer again.\<close>

definition float64_of :: "nat \<Rightarrow> nat" where
  "float64_of n = (if n < 2 ^ 53 then n
     else round_half_even n (2 ^ (bit_length n - 53)) * 2 ^ (bit_length n - 53))"

definition two_decimals :: "nat \<Rightarrow> nat \<Rightarrow> string" where
  "two_decimals n d = (let h = round_half_even (100 * n) d in
     decimal (h div 100) @ ''.'' @ [char_of (48 + h div 10 mod 10), char_of (48 + h mod 10)])"

text \<open>The division by a power of two is exact in \<open>float64\<close>.\<close>

definition formatBytes :: "int \<Rightarrow> string" where
  "formatBytes bytes =
     (let kb = 1024; mb = kb * 1024; gb = mb * 1024 in
      if int gb \<le> bytes then two_decimals (float64_of (nat bytes)) gb @ '' GB''
      else if int mb \<le> bytes then two_decimals (float64_of (nat bytes)) mb @ '' MB''
      else if int kb \<le> bytes then two_decimals (float64_of (nat bytes)) kb @ '' KB''
      else decimal_int bytes @ '' B'')"

section \<open>Escaping\<close>

definition markdownMetaCharacters :: string where
  "markdownMetaCharacters = [CHR 0x5C, CHR 0x60] @ ''*_[]<>|@#&~''"

text \<open>What the loop of \<open>escapeMarkdown\<close> writes for one rune.\<close>

definition escape_rune :: "nat \<Rightarrow> string" where
  "escape_rune r =
     (if r < 128 \<and> char_of r \<in> set markdownMetaCharacters then CHR 0x5C # encode_rune r else encode_rune r)"

definition escapeMarkdown :: "string \<Rightarrow> string" where
  "escapeMarkdown value = concat (map escape_rune (runes value))"

definition shortRevision :: "string \<Rightarrow> string" where
  "shortRevision revision = (if 7 < length revision then take 7 revision else revision)"

section \<open>The description\<close>

definition hasChangesContent :: "image_labels \<Rightarrow> bool" where
  "hasChangesContent l \<longleftrightarrow> (lb_source l \<noteq> [] \<and> lb_revision l \<noteq> []) \<or> lb_build_ref l \<noteq> [] \<or>
     lb_pr_author l \<noteq> [] \<or> lb_build_event l \<noteq> [] \<or> 0 < lb_image_size_bytes l"

definition hasLinksContent :: "image_labels \<Rightarrow> bool" where
  "hasLinksContent l \<longleftrightarrow> (lb_pr_number l \<noteq> [] \<and> lb_source l \<noteq> []) \<or> (lb_build_url l \<noteq> [] \<and> lb_build_run_id l \<noteq> [])"

definition nl :: string where "nl = [newline]"
definition backtick :: string where "backtick = [CHR 0x60]"
definition fence :: string where "fence = backtick @ backtick @ backtick"

definition writeChanges :: "string \<Rightarrow> image_labels \<Rightarrow> string" where
  "writeChanges b l =
     (if \<not> hasChangesContent l then b
      else (let
        b = b @ ''### Changes'' @ nl @ nl;
        b = b @ ''| | |'' @ nl;
        b = b @ ''|---|---|'' @ nl;
        b = (if lb_source l \<noteq> [] \<and> lb_revision l \<noteq> []
             then (let commitURL = lb_source l @ ''/commit/'' @ lb_revision l in
               b @ ''| **Commit** | ['' @ backtick @ shortRevision (lb_revision l) @ backtick @ '']('' @ commitURL @ '') |'' @ nl)
             else b);
        b = (if lb_build_ref l \<noteq> [] then b @ ''| **Branch** | '' @ backtick @ lb_build_ref l @ backtick @ '' |'' @ nl else b);
        b = (if lb_pr_author l \<noteq> [] then b @ ''| **Author** | @'' @ lb_pr_author l @ '' |'' @ nl else b);
        b = (if lb_build_event l \<noteq> [] then b @ ''| **Trigger** | '' @ backtick @ lb_build_event l @ backtick @ '' |'' @ nl else b);
        b = (if 0 < lb_image_size_bytes l
             then b @ ''| **Image Size** | '' @ formatBytes (lb_image_size_bytes l) @ '' |'' @ nl else b)
        in b @ nl))"

definition writeLinks :: "string \<Rightarrow> image_labels \<Rightarrow> string" where
  "writeLinks b l =
     (if \<not> hasLinksContent l then b
      else (let
        b = b @ ''### Links'' @ nl @ nl;
        links = (if lb_pr_number l \<noteq> [] \<and> lb_source l \<noteq> []
                 then (let prURL = lb_source l @ ''/pull/'' @ lb_pr_number l in
                   [encode_rune 0x1F517 @ '' [Source PR #'' @ lb_pr_number l @ '']('' @ prURL @ '')''])
                 else []);
        links = (if lb_build_url l \<noteq> [] \<and> lb_build_run_id l \<noteq> []
                 then links @ [encode_rune 0x2699 @ encode_rune 0xFE0F @ '' [CI Run]('' @ lb_build_url l @ '')'']
                 else links)
        in b @ join_with ('' '' @ encode_rune 0xB7 @ '' '') links @ nl @ nl))"

definition writeLabels :: "string \<Rightarrow> image_labels \<Rightarrow> string" where
  "writeLabels b l =
     (if lb_image_uri l = [] \<and> lb_revision l = [] \<and> lb_created l = [] then b
      else (let
        b = b @ ''<details>'' @ nl;
        b = b @ ''<summary>'' @ encode_rune 0x1F4C1 @ '' Image Labels</summary>'' @ nl @ nl;
        b = b @ fence @ nl;
        b = (if lb_image_uri l \<noteq> [] then b @ ''image: '' @ lb_image_uri l @ nl else b);
        b = (if lb_created l \<noteq> [] then b @ ''created: '' @ lb_created l @ nl else b);
        b = (if lb_revision l \<noteq> [] then b @ ''revision: '' @ lb_revision l @ nl else b)
        in b @ fence @ nl @ nl @ ''</details>'' @ nl))"

definition FormatPullRequestBody :: "image_labels \<Rightarrow> string" where
  "FormatPullRequestBody l =
     (let b = (if lb_pr_title l \<noteq> []
               then ''## '' @ encode_rune 0x1F4E6 @ '' Image Update: '' @ escapeMarkdown (lb_pr_title l) @ nl @ nl
               else ''## '' @ encode_rune 0x1F4E6 @ '' Image Update'' @ nl @ nl);
          b = writeChanges b l;
          b = writeLinks b l
      in writeLabels b l)"

section \<open>An escaped value is literal text\<close>

text \<open>
  How CommonMark reads a line: a backslash makes the character after it literal. \<open>active_meta\<close> tells
  whether a special character is left that is not escaped, \<open>literal_text\<close> is the text a reader sees.
\<close>

fun active_meta :: "string \<Rightarrow> bool" where
  "active_meta [] = False"
| "active_meta (c # cs) =
     (if c = CHR 0x5C then (case cs of [] \<Rightarrow> True | d # ds \<Rightarrow> active_meta ds)
      else c \<in> set markdownMetaCharacters \<or> active_meta cs)"

fun literal_text :: "string \<Rightarrow> string" where
  "literal_text [] = []"
| "literal_text (c # cs) =
     (if c = CHR 0x5C then (case cs of [] \<Rightarrow> [c] | d # ds \<Rightarrow> d # literal_text ds) else c # literal_text cs)"

lemma meta_bytes: "c \<in> set markdownMetaCharacters \<Longrightarrow> byte c < 128"
  by (auto simp: markdownMetaCharacters_def byte_def)

lemma plain_run:
  "\<forall>c\<in>set s. c \<notin> set markdownMetaCharacters \<Longrightarrow> active_meta (s @ t) = active_meta t"
  "\<forall>c\<in>set s. c \<notin> set markdownMetaCharacters \<Longrightarrow> literal_text (s @ t) = s @ literal_text t"
  by (induction s) (auto simp: markdownMetaCharacters_def)

lemma encode_rune_high: "128 \<le> r \<Longrightarrow> c \<in> set (encode_rune r) \<Longrightarrow> 128 \<le> byte c"
  by (auto simp: encode_rune_def Let_def rune_error_def valid_rune_def split: if_splits)

lemma encode_rune_meta:
  assumes "c \<in> set (encode_rune r)" and "c \<in> set markdownMetaCharacters"
  shows "r < 128 \<and> char_of r = c"
proof (cases "r < 128")
  case True
  with assms(1) show ?thesis by (simp add: encode_rune_ascii)
next
  case False
  with encode_rune_high [of r c] assms meta_bytes [of c] show ?thesis by simp
qed

lemma escape_rune_reads:
  "active_meta (escape_rune r @ t) = active_meta t"
  "literal_text (escape_rune r @ t) = encode_rune r @ literal_text t"
proof -
  have "active_meta (escape_rune r @ t) = active_meta t \<and> literal_text (escape_rune r @ t) = encode_rune r @ literal_text t"
  proof (cases "r < 128 \<and> char_of r \<in> set markdownMetaCharacters")
    case True
    then show ?thesis by (simp add: escape_rune_def encode_rune_ascii)
  next
    case False
    then have "\<forall>c\<in>set (encode_rune r). c \<notin> set markdownMetaCharacters" using encode_rune_meta by blast
    with False show ?thesis using plain_run [of "encode_rune r" t] by (auto simp: escape_rune_def)
  qed
  then show "active_meta (escape_rune r @ t) = active_meta t"
    "literal_text (escape_rune r @ t) = encode_rune r @ literal_text t" by auto
qed

lemma escape_runes_reads:
  "\<not> active_meta (concat (map escape_rune rs))" "literal_text (concat (map escape_rune rs)) = encode rs"
  by (induction rs) (simp_all add: escape_rune_reads)

lemma ascii_rune_byte: "r \<in> set (runes s) \<Longrightarrow> r < 128 \<Longrightarrow> \<exists>c\<in>set s. byte c = r"
proof (induction s rule: utf8_tokens.induct)
  case (2 d cs)
  obtain q w where qw: "decode_rune (d # cs) = (q, w)" by fastforce
  then consider "r = q" | "r \<in> set (runes (drop w (d # cs)))" using 2(2) by (auto simp: runes_def)
  then show ?case
  proof cases
    case 1
    with decode_rune_ascii [of d cs] qw 2(3) show ?thesis by auto
  next
    case 2
    with "2.IH" [OF refl qw [symmetric]] "2.prems"(2) qw obtain c where "c \<in> set (drop w (d # cs))" "byte c = r"
      by fastforce
    then show ?thesis by (blast dest: in_set_dropD)
  qed
qed simp

definition plain_char :: "char \<Rightarrow> bool" where
  "plain_char c \<longleftrightarrow> 32 \<le> byte c \<and> byte c \<noteq> 127"

lemma plain_line_iff: "plain_line v \<longleftrightarrow> (\<forall>c\<in>set v. plain_char c)"
  by (simp add: plain_line_def plain_char_def list_all_iff)

lemma plain_escape_rune: "plain_line (escape_rune r) \<longleftrightarrow> 32 \<le> r \<and> r \<noteq> 127"
proof (cases "r < 128")
  case True
  have "plain_char (CHR 0x5C)" by (simp add: plain_char_def byte_def)
  moreover have "plain_char (char_of r) \<longleftrightarrow> 32 \<le> r \<and> r \<noteq> 127" using True by (simp add: plain_char_def)
  ultimately show ?thesis using True by (auto simp: escape_rune_def encode_rune_ascii plain_line_iff)
next
  case False
  then have "128 \<le> byte c" if "c \<in> set (encode_rune r)" for c using that encode_rune_high [of r c] by simp
  with False show ?thesis by (fastforce simp: escape_rune_def plain_line_iff plain_char_def)
qed

lemma plain_escape: "plain_line (escapeMarkdown v) = plain_line v"
proof -
  have "plain_line (escapeMarkdown v) \<longleftrightarrow> (\<forall>r\<in>set (runes v). plain_line (escape_rune r))"
    by (auto simp: escapeMarkdown_def plain_line_iff)
  also have "\<dots> \<longleftrightarrow> (\<forall>r\<in>set (runes v). 32 \<le> r \<and> r \<noteq> 127)" by (simp add: plain_escape_rune)
  also have "\<dots> \<longleftrightarrow> (\<forall>c\<in>set v. plain_char c)"
  proof (intro iffI ballI)
    fix c assume *: "\<forall>r\<in>set (runes v). 32 \<le> r \<and> r \<noteq> 127" "c \<in> set v"
    show "plain_char c"
    proof (cases "byte c < 128")
      case True
      with * ascii_byte_rune show ?thesis by (auto simp: plain_char_def)
    qed (simp add: plain_char_def)
  next
    fix r assume *: "\<forall>c\<in>set v. plain_char c" "r \<in> set (runes v)"
    show "32 \<le> r \<and> r \<noteq> 127"
    proof (cases "r < 128")
      case True
      with * ascii_rune_byte show ?thesis by (auto simp: plain_char_def)
    qed simp
  qed
  finally show ?thesis by (simp add: plain_line_iff)
qed

section \<open>The lines of the description\<close>

text \<open>What stands on each line, as a list of lines: the reference for \<open>FormatPullRequestBody\<close>.\<close>

definition heading_line :: "image_labels \<Rightarrow> string" where
  "heading_line l = ''## '' @ encode_rune 0x1F4E6 @ '' Image Update'' @
     (if lb_pr_title l \<noteq> [] then '': '' @ escapeMarkdown (lb_pr_title l) else [])"

definition change_rows :: "image_labels \<Rightarrow> string list" where
  "change_rows l =
     (if lb_source l \<noteq> [] \<and> lb_revision l \<noteq> []
      then [''| **Commit** | ['' @ backtick @ shortRevision (lb_revision l) @ backtick @ '']('' @
        lb_source l @ ''/commit/'' @ lb_revision l @ '') |''] else []) @
     (if lb_build_ref l \<noteq> [] then [''| **Branch** | '' @ backtick @ lb_build_ref l @ backtick @ '' |''] else []) @
     (if lb_pr_author l \<noteq> [] then [''| **Author** | @'' @ lb_pr_author l @ '' |''] else []) @
     (if lb_build_event l \<noteq> [] then [''| **Trigger** | '' @ backtick @ lb_build_event l @ backtick @ '' |''] else []) @
     (if 0 < lb_image_size_bytes l then [''| **Image Size** | '' @ formatBytes (lb_image_size_bytes l) @ '' |''] else [])"

definition link_items :: "image_labels \<Rightarrow> string list" where
  "link_items l =
     (if lb_pr_number l \<noteq> [] \<and> lb_source l \<noteq> []
      then [encode_rune 0x1F517 @ '' [Source PR #'' @ lb_pr_number l @ '']('' @ lb_source l @ ''/pull/'' @ lb_pr_number l @ '')'']
      else []) @
     (if lb_build_url l \<noteq> [] \<and> lb_build_run_id l \<noteq> []
      then [encode_rune 0x2699 @ encode_rune 0xFE0F @ '' [CI Run]('' @ lb_build_url l @ '')''] else [])"

definition label_rows :: "image_labels \<Rightarrow> string list" where
  "label_rows l =
     (if lb_image_uri l \<noteq> [] then [''image: '' @ lb_image_uri l] else []) @
     (if lb_created l \<noteq> [] then [''created: '' @ lb_created l] else []) @
     (if lb_revision l \<noteq> [] then [''revision: '' @ lb_revision l] else [])"

definition body_lines :: "image_labels \<Rightarrow> string list" where
  "body_lines l = [heading_line l, []] @
     (if change_rows l = [] then [] else [''### Changes'', [], ''| | |'', ''|---|---|''] @ change_rows l @ [[]]) @
     (if link_items l = [] then []
      else [''### Links'', [], join_with ('' '' @ encode_rune 0xB7 @ '' '') (link_items l), []]) @
     (if label_rows l = [] then []
      else [''<details>'', ''<summary>'' @ encode_rune 0x1F4C1 @ '' Image Labels</summary>'', [], fence] @
        label_rows l @ [fence, [], ''</details>''])"

definition unlines :: "string list \<Rightarrow> string" where
  "unlines ls = concat (map (\<lambda>x. x @ nl) ls)"

lemma unlines_simps [simp]: "unlines [] = []" "unlines (x # xs) = x @ nl @ unlines xs" "unlines (xs @ ys) = unlines xs @ unlines ys"
  by (simp_all add: unlines_def)

lemma split_unlines: "\<forall>x\<in>set ls. plain_line x \<Longrightarrow> split_on newline (unlines ls) = ls @ [[]]"
proof (induction ls)
  case (Cons x ls)
  then have "newline \<notin> set x" by (auto simp: plain_line_def list_all_iff newline_def byte_def)
  with Cons show ?case by (simp add: nl_def split_on_append)
qed simp

lemma writeChanges_lines:
  "writeChanges b l = b @ unlines (if change_rows l = [] then []
     else [''### Changes'', [], ''| | |'', ''|---|---|''] @ change_rows l @ [[]])"
proof -
  have "change_rows l = [] \<longleftrightarrow> \<not> hasChangesContent l" by (auto simp: change_rows_def hasChangesContent_def)
  then show ?thesis by (simp add: writeChanges_def Let_def) (simp add: change_rows_def)
qed

lemma writeLinks_lines:
  "writeLinks b l = b @ unlines (if link_items l = [] then []
     else [''### Links'', [], join_with ('' '' @ encode_rune 0xB7 @ '' '') (link_items l), []])"
proof -
  have "link_items l = [] \<longleftrightarrow> \<not> hasLinksContent l" by (auto simp: link_items_def hasLinksContent_def)
  then show ?thesis by (simp add: writeLinks_def Let_def) (simp add: link_items_def)
qed

lemma writeLabels_lines:
  "writeLabels b l = b @ unlines (if label_rows l = [] then []
     else [''<details>'', ''<summary>'' @ encode_rune 0x1F4C1 @ '' Image Labels</summary>'', [], fence] @
        label_rows l @ [fence, [], ''</details>''])"
proof -
  have "label_rows l = [] \<longleftrightarrow> lb_image_uri l = [] \<and> lb_revision l = [] \<and> lb_created l = []"
    by (auto simp: label_rows_def)
  then show ?thesis by (simp add: writeLabels_def Let_def) (simp add: label_rows_def)
qed

lemma FormatPullRequestBody_lines: "FormatPullRequestBody l = unlines (body_lines l)"
  by (simp add: FormatPullRequestBody_def writeChanges_lines writeLinks_lines writeLabels_lines body_lines_def
      heading_line_def Let_def)

text \<open>No line of the description has a line break of its own.\<close>

lemma plain_literals:
  "plain_line [c] \<longleftrightarrow> plain_char c" "plain_line (c # s) \<longleftrightarrow> plain_char c \<and> plain_line s"
  by (simp_all add: plain_line_iff)

lemma plain_encode_rune: "plain_line (encode_rune r)" if "128 \<le> r"
  using encode_rune_high [OF that] by (fastforce simp: plain_line_iff plain_char_def)

lemma plain_take: "plain_line v \<Longrightarrow> plain_line (take n v)"
  by (auto simp: plain_line_iff dest: in_set_takeD)

lemma plain_decimal: "plain_line (decimal n)"
proof (induction n rule: decimal.induct)
  case (1 n)
  then show ?case
    by (subst decimal.simps) (auto simp: plain_literals plain_char_def)
qed

lemma plain_formatBytes: "plain_line (formatBytes b)"
  by (auto simp: formatBytes_def two_decimals_def decimal_int_def Let_def plain_decimal plain_literals)
    (auto simp: plain_char_def byte_def)

lemma plain_join: "\<forall>x\<in>set xs. plain_line x \<Longrightarrow> plain_line sep \<Longrightarrow> plain_line (join_with sep xs)"
  using set_join_with [of sep xs] by (fastforce simp: plain_line_iff)

lemma plain_handle: "handle_ok v \<Longrightarrow> plain_line v"
proof -
  assume "handle_ok v"
  then have "plain_line w" if "w \<in> set (split_on (CHR ''-'') v)" for w
    using that by (fastforce simp: handle_ok_def plain_line_iff plain_char_def isASCIIAlphanumeric_def)
  moreover have "plain_line ''-''" by (simp add: plain_literals plain_char_def byte_def)
  ultimately have "plain_line (join_with ''-'' (split_on (CHR ''-'') v))" by (intro plain_join) auto
  then show ?thesis by (simp add: join_split)
qed

lemma plain_number: "number_ok v \<Longrightarrow> plain_line v"
  by (auto simp: number_ok_def plain_line_iff plain_char_def)

definition labels_plain :: "image_labels \<Rightarrow> bool" where
  "labels_plain l \<longleftrightarrow> list_all plain_line [lb_source l, lb_revision l, lb_created l, lb_pr_number l, lb_pr_author l,
     lb_pr_title l, lb_build_url l, lb_build_ref l, lb_build_event l, lb_image_uri l]"

lemma ImageLabels_plain: "plain_line (md_uri m) \<Longrightarrow> labels_plain (ImageLabels rt m)"
proof -
  have "plain_line (sanitizeLabelURL rt v)" for v
    using label_url.dropped_or_ok [of rt v] url_ok_plain by auto
  moreover have "plain_line (sanitizeLabelToken v)" for v
    using token.dropped_or_ok [of v] token_ok_plain by auto
  moreover have "plain_line (sanitizeLabelHandle v)" for v
    using handle.dropped_or_ok [of v] plain_handle by auto
  moreover have "plain_line (sanitizeLabelNumber v)" for v
    using number.dropped_or_ok [of v] plain_number by auto
  ultimately show "plain_line (md_uri m) \<Longrightarrow> labels_plain (ImageLabels rt m)"
    by (simp add: labels_plain_def ImageLabels_def NewImageLabels_def text_plain)
qed

lemma body_lines_plain:
  assumes "labels_plain l"
  shows "\<forall>x\<in>set (body_lines l). plain_line x"
proof -
  have lits: "plain_line backtick" "plain_line fence"
    by (simp_all add: backtick_def fence_def plain_literals plain_char_def byte_def)
  have "plain_line (heading_line l)"
    using assms
    by (simp add: heading_line_def plain_escape plain_encode_rune labels_plain_def plain_literals plain_char_def byte_def)
  moreover have "\<forall>x\<in>set (change_rows l). plain_line x"
    using assms
    by (auto simp: change_rows_def lits labels_plain_def shortRevision_def plain_take plain_formatBytes
        plain_literals plain_char_def byte_def)
  moreover have links: "\<forall>x\<in>set (link_items l). plain_line x"
    using assms
    by (auto simp: link_items_def labels_plain_def plain_encode_rune plain_literals plain_char_def byte_def)
  moreover have "\<forall>x\<in>set (label_rows l). plain_line x"
    using assms by (auto simp: label_rows_def labels_plain_def plain_literals plain_char_def byte_def)
  moreover have "plain_line (join_with ('' '' @ encode_rune 0xB7 @ '' '') (link_items l))"
    using links by (intro plain_join) (simp_all add: plain_encode_rune plain_literals plain_char_def byte_def)
  ultimately show ?thesis
    by (auto simp: body_lines_def lits plain_encode_rune plain_literals plain_char_def byte_def)
qed

section \<open>Properties\<close>

text \<open>
  C23. A value that goes through escapeMarkdown is literal text: no special character of Markdown is left
  active, a reader sees exactly the runes of the value, and escaping adds no line break.
\<close>
theorem escapeMarkdown_literal:
  "\<not> active_meta (escapeMarkdown v) \<and> literal_text (escapeMarkdown v) = encode (runes v) \<and>
   plain_line (escapeMarkdown v) = plain_line v"
  using escape_runes_reads [of "runes v"] plain_escape [of v] by (simp add: escapeMarkdown_def)

lemma prefix_high: "128 \<le> r \<Longrightarrow> byte c < 128 \<Longrightarrow> \<not> has_prefix (c # s) (encode_rune r @ t)"
  using encode_rune_high [of r "hd (encode_rune r)"] encode_rune_nonempty [of r]
  by (cases "encode_rune r") auto

lemma join_Cons_head: "join_with sep ((encode_rune r @ t) # ws) = encode_rune r @ (t @ (if ws = [] then [] else sep @ join_with sep ws))"
  by (cases ws) auto

lemma filter_all_not: "\<forall>x\<in>set xs. \<not> P x \<Longrightarrow> filter P xs = []"
  by (simp add: filter_empty_conv)

lemma no_mark_lines:
  "\<forall>x\<in>set (change_rows l). \<not> has_prefix ''#'' x \<and> \<not> has_prefix fence x"
  "\<forall>x\<in>set (label_rows l). \<not> has_prefix ''#'' x \<and> \<not> has_prefix fence x"
  "link_items l \<noteq> [] \<Longrightarrow> \<not> has_prefix ''#'' (join_with sep (link_items l)) \<and> \<not> has_prefix fence (join_with sep (link_items l))"
proof -
  show "\<forall>x\<in>set (change_rows l). \<not> has_prefix ''#'' x \<and> \<not> has_prefix fence x"
    by (auto simp: change_rows_def fence_def backtick_def)
  show "\<forall>x\<in>set (label_rows l). \<not> has_prefix ''#'' x \<and> \<not> has_prefix fence x"
    by (auto simp: label_rows_def fence_def backtick_def)
  assume "link_items l \<noteq> []"
  then show "\<not> has_prefix ''#'' (join_with sep (link_items l)) \<and> \<not> has_prefix fence (join_with sep (link_items l))"
    by (auto simp: link_items_def join_Cons_head prefix_high fence_def backtick_def byte_def simp del: join_with.simps split: if_splits)
qed

lemma body_marks:
  "filter (has_prefix ''#'') (body_lines l) = heading_line l #
     (if change_rows l = [] then [] else [''### Changes'']) @ (if link_items l = [] then [] else [''### Links''])"
  "filter (has_prefix fence) (body_lines l) = (if label_rows l = [] then [] else [fence, fence])"
proof -
  have rows: "filter (has_prefix ''#'') (change_rows l) = []" "filter (has_prefix ''#'') (label_rows l) = []"
    "filter (has_prefix fence) (change_rows l) = []" "filter (has_prefix fence) (label_rows l) = []"
    using no_mark_lines(1,2) by (auto intro: filter_all_not)
  show "filter (has_prefix ''#'') (body_lines l) = heading_line l #
     (if change_rows l = [] then [] else [''### Changes'']) @ (if link_items l = [] then [] else [''### Links''])"
    using no_mark_lines(3) by (simp add: body_lines_def rows heading_line_def fence_def backtick_def)
  show "filter (has_prefix fence) (body_lines l) = (if label_rows l = [] then [] else [fence, fence])"
    using no_mark_lines(3) rows(3,4) by (simp add: body_lines_def heading_line_def fence_def backtick_def)
qed

text \<open>
  C24. Whatever the labels of an image say, the description has the lines of the reference
  \<open>body_lines\<close>: its headings are those of the application, and the code fence around the raw values is
  opened and closed by the application only. Only the image URI, which comes from the event, has to be
  one line.
\<close>
theorem FormatPullRequestBody_structure:
  assumes "plain_line (md_uri m)"
  shows "split_on newline (FormatPullRequestBody (ImageLabels rt m)) = body_lines (ImageLabels rt m) @ [[]] \<and>
    filter (has_prefix ''#'') (body_lines (ImageLabels rt m)) = heading_line (ImageLabels rt m) #
      (if hasChangesContent (ImageLabels rt m) then [''### Changes''] else []) @
      (if hasLinksContent (ImageLabels rt m) then [''### Links''] else []) \<and>
    set (filter (has_prefix fence) (body_lines (ImageLabels rt m))) \<subseteq> {fence}"
proof -
  have "change_rows l = [] \<longleftrightarrow> \<not> hasChangesContent l" for l by (auto simp: change_rows_def hasChangesContent_def)
  moreover have "link_items l = [] \<longleftrightarrow> \<not> hasLinksContent l" for l by (auto simp: link_items_def hasLinksContent_def)
  ultimately show ?thesis
    using split_unlines [OF body_lines_plain [OF ImageLabels_plain [OF assms]]]
    by (simp add: FormatPullRequestBody_lines body_marks)
qed

theorem FormatPullRequestBody_structure_witness:
  "split_on newline (FormatPullRequestBody (ImageLabels sample_runtime \<lparr>md_labels = [], md_uri = ''h/a:v1'', md_size_bytes = 0\<rparr>)) =
     [''## '' @ encode_rune 0x1F4E6 @ '' Image Update'', [], ''<details>'',
      ''<summary>'' @ encode_rune 0x1F4C1 @ '' Image Labels</summary>'', [], fence, ''image: h/a:v1'', fence, [], ''</details>'', []]"
proof -
  have "plain_line ''h/a:v1''" by (simp add: plain_literals plain_char_def byte_def)
  then show ?thesis
    using FormatPullRequestBody_structure [of "\<lparr>md_labels = [], md_uri = ''h/a:v1'', md_size_bytes = 0\<rparr>" sample_runtime]
    by (simp add: body_lines_def heading_line_def change_rows_def link_items_def label_rows_def ImageLabels_def
        NewImageLabels_def label_get_def sanitizeLabelURL_def sanitizeLabelToken_def label_text.empty
        number.empty handle.empty)
qed

text \<open>
  Finding. A URL label may hold parentheses and brackets, which the sanitiser keeps and the link does not
  escape: a build URL can end the link of the application and start one with a text of its own.
\<close>
lemma link_label_breaks_out:
  "link_items (NewImageLabels sample_runtime
     [(''org.opencontainers.image.build.url'', ''https://h/)[x](https://e/''), (''org.opencontainers.image.build.run_id'', ''1'')]) =
   [encode_rune 0x2699 @ encode_rune 0xFE0F @ '' [CI Run](https://h/)[x](https://e/)'']"
proof -
  have url: "sanitizeLabelURL sample_runtime ''https://h/)[x](https://e/'' = ''https://h/)[x](https://e/''"
    by (simp add: sanitizeLabelURL_def text_eval url_eval runes_visible is_space_def is_print_def maxLabelURLLength_def
        sample_runtime_def url_string_def escaped_path_def valid_encoded_def encoded_marks_def set_fragment_def)
  have "sanitizeLabelToken ''1'' = ''1''"
    by (simp add: sanitizeLabelToken_def text_eval runes_visible isASCIIAlphanumeric_def maxLabelTokenLength_def tokenExtraCharacters_def)
  with url show ?thesis
    by (simp add: link_items_def NewImageLabels_def label_get_def number.empty)
qed

end
