(* ===== verification/Message_Renderer.thy ===== *)
theory Message_Renderer
  imports Pull_Request_Body
begin

text \<open>
  \<open>internal/application/updater/message_renderer.go\<close>: the templates of the title, the description and
  the commit message. The parser of \<open>text/template\<close> is a parameter and returns the syntax tree; the
  validation that runs over the tree is the code's, and \<open>exec\<close> is what the library's execution does
  on the nodes the validation lets through. The main property is that whether a template can be
  executed does not depend on the data, so that what starts up renders every event, within the limits
  on the text.
\<close>

section \<open>Templates\<close>

text \<open>
  The nodes of \<open>text/template/parse\<close>. The nodes that are rejected whatever they contain have no
  children here; a number carries the text its value is printed as. A template has its own tree and
  those of the templates defined in it, \<open>None\<close> for one without a tree.
\<close>

datatype tnode =
    ListNode "tnode list"
  | ActionNode tnode
  | IfNode | WithNode | RangeNode | TemplateNode
  | PipeNode (pipe_decls: nat) (pipe_is_assign: bool) (pipe_cmds: "tnode list")
  | CommandNode "tnode list"
  | FieldNode "string list"
  | ChainNode tnode "string list"
  | IdentifierNode string
  | VariableNode
  | TextNode string | DotNode | NilNode | BoolNode bool | NumberNode string | StringNode string | CommentNode
  | OtherNode

record template =
  tp_root :: "tnode option"
  tp_others :: "tnode option list"

record template_lib =
  tl_parse :: "string \<Rightarrow> string \<Rightarrow> (go_error, template) result"

record message_templates =
  mt_pull_request_title :: string
  mt_pull_request_body :: string
  mt_commit_message :: string

record message_renderer =
  mr_pull_request_title :: template
  mr_pull_request_body :: template
  mr_commit_message :: template

record template_data =
  td_environment :: string
  td_image_name :: string
  td_image_repository :: string
  td_image :: string
  td_image_tag :: string
  td_default_body :: string

record rendered_messages =
  rm_pull_request_title :: string
  rm_pull_request_body :: string
  rm_commit_message :: string

definition DefaultPullRequestTitleTemplate :: string where
  "DefaultPullRequestTitleTemplate = ''[{{.Environment}}][Image Updater][{{.ImageName}}] Update image''"
definition DefaultPullRequestBodyTemplate :: string where
  "DefaultPullRequestBodyTemplate = ''{{.DefaultBody}}''"
definition DefaultCommitMessageTemplate :: string where
  "DefaultCommitMessageTemplate = ''[{{.Environment}}][image-committer][{{.ImageRepository}}] Update image''"

definition maxMessageTemplateBytes :: nat where "maxMessageTemplateBytes = 64 * 2 ^ 10"
definition maxRenderedMessageBytes :: nat where "maxRenderedMessageBytes = 2 ^ 20"
definition maxPullRequestTitleRunes :: nat where "maxPullRequestTitleRunes = 256"
definition maxCommitMessageRunes :: nat where "maxCommitMessageRunes = 4 * 2 ^ 10"
definition maxPullRequestBodyRunes :: nat where "maxPullRequestBodyRunes = 64 * 2 ^ 10"

definition allowedMessageTemplateFields :: "string list" where
  "allowedMessageTemplateFields =
     [''Environment'', ''ImageName'', ''ImageRepository'', ''Image'', ''ImageTag'', ''DefaultBody'']"

section \<open>Validation\<close>

definition validateMessageTemplateField :: "string list \<Rightarrow> go_error option" where
  "validateMessageTemplateField idents =
     (if length idents \<noteq> 1 then Some (Errorf ''nested field %q is not allowed'' [AStr (join_with ''.'' idents)] [])
      else if hd idents \<notin> set allowedMessageTemplateFields
      then Some (Errorf ''field %q is not allowed'' [AStr (hd idents)] [])
      else None)"

fun validateMessageTemplateNode :: "tnode \<Rightarrow> go_error option"
  and validate_nodes :: "tnode list \<Rightarrow> go_error option" where
  "validateMessageTemplateNode (ListNode nodes) = validate_nodes nodes"
| "validateMessageTemplateNode (ActionNode pipe) = validateMessageTemplateNode pipe"
| "validateMessageTemplateNode IfNode = Some (ErrorsNew ''if actions are not allowed'')"
| "validateMessageTemplateNode WithNode = Some (ErrorsNew ''with actions are not allowed'')"
| "validateMessageTemplateNode RangeNode = Some (ErrorsNew ''range actions are not allowed'')"
| "validateMessageTemplateNode TemplateNode = Some (ErrorsNew ''template invocations are not allowed'')"
| "validateMessageTemplateNode (PipeNode decls is_assign cmds) =
     (if 0 < decls \<or> is_assign then Some (ErrorsNew ''template variables are not allowed'') else validate_nodes cmds)"
| "validateMessageTemplateNode (CommandNode args) = validate_nodes args"
| "validateMessageTemplateNode (FieldNode ident) = validateMessageTemplateField ident"
| "validateMessageTemplateNode (ChainNode node field) =
     (case validateMessageTemplateNode node of Some err \<Rightarrow> Some err | None \<Rightarrow> validateMessageTemplateField field)"
| "validateMessageTemplateNode (IdentifierNode ident) = Some (Errorf ''function %q is not allowed'' [AStr ident] [])"
| "validateMessageTemplateNode VariableNode = Some (ErrorsNew ''template variables are not allowed'')"
| "validateMessageTemplateNode (TextNode s) = None"
| "validateMessageTemplateNode DotNode = None"
| "validateMessageTemplateNode NilNode = None"
| "validateMessageTemplateNode (BoolNode b) = None"
| "validateMessageTemplateNode (NumberNode s) = None"
| "validateMessageTemplateNode (StringNode s) = None"
| "validateMessageTemplateNode CommentNode = None"
| "validateMessageTemplateNode OtherNode = Some (Errorf ''template node %T is not allowed'' [] [])"
| "validate_nodes [] = None"
| "validate_nodes (n # ns) =
     (case validateMessageTemplateNode n of Some err \<Rightarrow> Some err | None \<Rightarrow> validate_nodes ns)"

fun validate_trees :: "tnode option list \<Rightarrow> go_error option" where
  "validate_trees [] = None"
| "validate_trees (tree # trees) =
     (case tree of
        None \<Rightarrow> validate_trees trees
      | Some root \<Rightarrow> (case validateMessageTemplateNode root of Some err \<Rightarrow> Some err | None \<Rightarrow> validate_trees trees))"

definition validateMessageTemplate :: "template \<Rightarrow> go_error option" where
  "validateMessageTemplate tmpl = validate_trees (tp_root tmpl # tp_others tmpl)"

definition parseMessageTemplate :: "template_lib \<Rightarrow> string \<Rightarrow> string \<Rightarrow> (go_error, template) result" where
  "parseMessageTemplate lib name value0 =
     (if trim_space value0 = [] then Inl (Errorf ''%s template is empty'' [AStr name] [])
      else if maxMessageTemplateBytes < length value0
      then Inl (Errorf ''%s template exceeds %d bytes'' [AStr name, AInt (int maxMessageTemplateBytes)] [])
      else (let value = replace_all [CHR 0x5C, CHR ''n''] nl value0 in
        case tl_parse lib name value of
          Inl err \<Rightarrow> Inl (Errorf ''parse %s template: %w'' [AStr name] [err])
        | Inr parsed \<Rightarrow>
            (case validateMessageTemplate parsed of
               Some err \<Rightarrow> Inl (Errorf ''validate %s template: %w'' [AStr name] [err])
             | None \<Rightarrow> Inr parsed)))"

section \<open>Execution\<close>

text \<open>\<open>limitedMessageWriter\<close>: the text written so far and the limit.\<close>

definition limited_write :: "nat \<Rightarrow> string \<Rightarrow> string \<Rightarrow> (go_error, string) result" where
  "limited_write limit builder data =
     (if limit < length builder + length data then Inl (ErrorsNew ''rendered message is too large'')
      else Inr (builder @ data))"

text \<open>
  A value in a pipeline: the data itself, a field of it, or a constant. A field takes no arguments, a
  field of a text does not exist, \<open>nil\<close> is not a command, and a constant is not a function; \<open>None\<close> is
  the error of the execution. The data prints as a struct of its fields.
\<close>

datatype tvalue = VDot | VText string

definition data_field :: "template_data \<Rightarrow> string \<Rightarrow> string option" where
  "data_field d f =
     (if f = ''Environment'' then Some (td_environment d) else if f = ''ImageName'' then Some (td_image_name d)
      else if f = ''ImageRepository'' then Some (td_image_repository d) else if f = ''Image'' then Some (td_image d)
      else if f = ''ImageTag'' then Some (td_image_tag d) else if f = ''DefaultBody'' then Some (td_default_body d)
      else None)"

fun eval_fields :: "template_data \<Rightarrow> tvalue \<Rightarrow> string list \<Rightarrow> bool \<Rightarrow> tvalue option" where
  "eval_fields d VDot [f] plain = (if plain then map_option VText (data_field d f) else None)"
| "eval_fields d v fs plain = None"

fun eval_pipe :: "template_data \<Rightarrow> tvalue option \<Rightarrow> tnode list \<Rightarrow> tvalue option"
  and eval_command :: "template_data \<Rightarrow> bool \<Rightarrow> tnode \<Rightarrow> tvalue option" where
  "eval_pipe d final [] = final"
| "eval_pipe d final (cmd # cmds) =
     (case cmd of
        CommandNode (first # args) \<Rightarrow>
          (case eval_command d (args = [] \<and> final = None) first of
             None \<Rightarrow> None
           | Some v \<Rightarrow> eval_pipe d (Some v) cmds)
      | _ \<Rightarrow> None)"
| "eval_command d plain (FieldNode ident) = eval_fields d VDot ident plain"
| "eval_command d plain (ChainNode node field) =
     (case node of
        DotNode \<Rightarrow> eval_fields d VDot field plain
      | FieldNode ident \<Rightarrow> (case eval_fields d VDot ident True of None \<Rightarrow> None | Some v \<Rightarrow> eval_fields d v field plain)
      | PipeNode decls is_assign cmds \<Rightarrow>
          (case eval_pipe d None cmds of None \<Rightarrow> None | Some v \<Rightarrow> eval_fields d v field plain)
      | _ \<Rightarrow> None)"
| "eval_command d plain (PipeNode decls is_assign cmds) = (if plain then eval_pipe d None cmds else None)"
| "eval_command d plain DotNode = (if plain then Some VDot else None)"
| "eval_command d plain (BoolNode b) = (if plain then Some (VText (if b then ''true'' else ''false'')) else None)"
| "eval_command d plain (NumberNode s) = (if plain then Some (VText s) else None)"
| "eval_command d plain (StringNode s) = (if plain then Some (VText s) else None)"
| "eval_command d plain n = None"

definition print_value :: "template_data \<Rightarrow> tvalue \<Rightarrow> string" where
  "print_value d v = (case v of
     VText s \<Rightarrow> s
   | VDot \<Rightarrow> ''{'' @ join_with '' '' [td_environment d, td_image_name d, td_image_repository d, td_image d,
       td_image_tag d, td_default_body d] @ ''}'')"

definition exec_error :: go_error where
  "exec_error = ErrorsNew ''template: cannot evaluate''"

fun exec_node :: "nat \<Rightarrow> template_data \<Rightarrow> string \<Rightarrow> tnode \<Rightarrow> (go_error, string) result"
  and exec_nodes :: "nat \<Rightarrow> template_data \<Rightarrow> string \<Rightarrow> tnode list \<Rightarrow> (go_error, string) result" where
  "exec_node limit d b (ListNode nodes) = exec_nodes limit d b nodes"
| "exec_node limit d b (TextNode s) = limited_write limit b s"
| "exec_node limit d b CommentNode = Inr b"
| "exec_node limit d b (ActionNode (PipeNode decls is_assign cmds)) =
     (case eval_pipe d None cmds of None \<Rightarrow> Inl exec_error | Some v \<Rightarrow> limited_write limit b (print_value d v))"
| "exec_node limit d b n = Inl exec_error"
| "exec_nodes limit d b [] = Inr b"
| "exec_nodes limit d b (n # ns) =
     (case exec_node limit d b n of Inl err \<Rightarrow> Inl err | Inr b' \<Rightarrow> exec_nodes limit d b' ns)"

definition executeMessageTemplate :: "template \<Rightarrow> template_data \<Rightarrow> (go_error, string) result" where
  "executeMessageTemplate tmpl data =
     (case tp_root tmpl of
        None \<Rightarrow> Inl (ErrorsNew ''template: incomplete or empty template'')
      | Some root \<Rightarrow> exec_node maxRenderedMessageBytes data [] root)"

section \<open>Rendering\<close>

definition line_separator :: "nat \<Rightarrow> bool" where
  "line_separator r \<longleftrightarrow> r = 0x2028 \<or> r = 0x2029"

definition validateSingleLine :: "string \<Rightarrow> string \<Rightarrow> nat \<Rightarrow> go_error option" where
  "validateSingleLine name value maxRunes =
     (if trim_space value = [] then Some (Errorf ''rendered %s is empty'' [AStr name] [])
      else if maxRunes < length (runes value)
      then Some (Errorf ''rendered %s exceeds %d characters'' [AStr name, AInt (int maxRunes)] [])
      else if list_ex (\<lambda>r. is_control r \<or> line_separator r) (runes value)
      then Some (Errorf ''rendered %s contains a line or control character'' [AStr name] [])
      else None)"

definition validateBody :: "string \<Rightarrow> go_error option" where
  "validateBody value =
     (if trim_space value = [] then Some (ErrorsNew ''rendered pull request body is empty'')
      else if maxPullRequestBodyRunes < length (runes value)
      then Some (Errorf ''rendered pull request body exceeds %d characters'' [AInt (int maxPullRequestBodyRunes)] [])
      else if list_ex (\<lambda>r. (is_control r \<and> r \<noteq> 10 \<and> r \<noteq> 13 \<and> r \<noteq> 9) \<or> line_separator r) (runes value)
      then Some (ErrorsNew ''rendered pull request body contains an unsupported control character'')
      else None)"

definition escaped_data :: "template_data \<Rightarrow> template_data" where
  "escaped_data d = d\<lparr>td_environment := escapeMarkdown (td_environment d), td_image_name := escapeMarkdown (td_image_name d),
     td_image_repository := escapeMarkdown (td_image_repository d), td_image := escapeMarkdown (td_image d),
     td_image_tag := escapeMarkdown (td_image_tag d)\<rparr>"

definition render :: "message_renderer \<Rightarrow> template_data \<Rightarrow> (go_error, rendered_messages) result" where
  "render r data =
     (case executeMessageTemplate (mr_pull_request_title r) data of
        Inl err \<Rightarrow> Inl (Errorf ''render pull request title: %w'' [] [err])
      | Inr title \<Rightarrow>
          (case validateSingleLine ''pull request title'' title maxPullRequestTitleRunes of
             Some err \<Rightarrow> Inl err
           | None \<Rightarrow>
               (case executeMessageTemplate (mr_commit_message r) data of
                  Inl err \<Rightarrow> Inl (Errorf ''render commit message: %w'' [] [err])
                | Inr commit \<Rightarrow>
                    (case validateSingleLine ''commit message'' commit maxCommitMessageRunes of
                       Some err \<Rightarrow> Inl err
                     | None \<Rightarrow>
                         (case executeMessageTemplate (mr_pull_request_body r) (escaped_data data) of
                            Inl err \<Rightarrow> Inl (Errorf ''render pull request body: %w'' [] [err])
                          | Inr body \<Rightarrow>
                              (case validateBody body of
                                 Some err \<Rightarrow> Inl err
                               | None \<Rightarrow> Inr \<lparr>rm_pull_request_title = title, rm_pull_request_body = body,
                                   rm_commit_message = commit\<rparr>))))))"

definition startup_data :: template_data where
  "startup_data = \<lparr>td_environment = ''production'', td_image_name = ''platform/example'',
     td_image_repository = ''apps/platform/example'', td_image = ''registry.example.com/apps/platform/example'',
     td_image_tag = ''abcdef1'', td_default_body = ''## Image Update'' @ nl\<rparr>"

definition NewMessageRenderer :: "template_lib \<Rightarrow> message_templates \<Rightarrow> (go_error, message_renderer) result" where
  "NewMessageRenderer lib templates =
     (case parseMessageTemplate lib ''pull request title'' (mt_pull_request_title templates) of
        Inl err \<Rightarrow> Inl err
      | Inr title \<Rightarrow>
          (case parseMessageTemplate lib ''pull request body'' (mt_pull_request_body templates) of
             Inl err \<Rightarrow> Inl err
           | Inr body \<Rightarrow>
               (case parseMessageTemplate lib ''commit message'' (mt_commit_message templates) of
                  Inl err \<Rightarrow> Inl err
                | Inr commit \<Rightarrow>
                    (let renderer = \<lparr>mr_pull_request_title = title, mr_pull_request_body = body, mr_commit_message = commit\<rparr> in
                     case render renderer startup_data of
                       Inl err \<Rightarrow> Inl (Errorf ''validate message templates: %w'' [] [err])
                     | Inr rendered \<Rightarrow> Inr renderer))))"

section \<open>What a template renders to\<close>

text \<open>The text of a template without a limit; \<open>None\<close> when its execution fails.\<close>

fun node_text :: "template_data \<Rightarrow> tnode \<Rightarrow> string option"
  and nodes_text :: "template_data \<Rightarrow> tnode list \<Rightarrow> string option" where
  "node_text d (ListNode nodes) = nodes_text d nodes"
| "node_text d (TextNode s) = Some s"
| "node_text d CommentNode = Some []"
| "node_text d (ActionNode (PipeNode decls is_assign cmds)) = map_option (print_value d) (eval_pipe d None cmds)"
| "node_text d n = None"
| "nodes_text d [] = Some []"
| "nodes_text d (n # ns) =
     (case node_text d n of None \<Rightarrow> None | Some s \<Rightarrow> map_option (\<lambda>t. s @ t) (nodes_text d ns))"

definition template_text :: "template \<Rightarrow> template_data \<Rightarrow> string" where
  "template_text tmpl d = (case tp_root tmpl of
     None \<Rightarrow> [] | Some root \<Rightarrow> (case node_text d root of None \<Rightarrow> [] | Some s \<Rightarrow> s))"

text \<open>Whether a pipeline has a value, and of which kind, does not depend on the data.\<close>

definition same_shape :: "tvalue option \<Rightarrow> tvalue option \<Rightarrow> bool" where
  "same_shape v w \<longleftrightarrow> (case (v, w) of
     (None, None) \<Rightarrow> True | (Some VDot, Some VDot) \<Rightarrow> True | (Some (VText s), Some (VText t)) \<Rightarrow> True | _ \<Rightarrow> False)"

lemma same_shape_simps [simp]:
  "same_shape None w \<longleftrightarrow> w = None" "same_shape v None \<longleftrightarrow> v = None"
  "same_shape (Some VDot) w \<longleftrightarrow> w = Some VDot" "same_shape (Some (VText s)) w \<longleftrightarrow> (\<exists>t. w = Some (VText t))"
  by (cases w; auto simp: same_shape_def split: option.splits tvalue.splits)
    (cases v; auto simp: same_shape_def split: option.splits tvalue.splits)+

lemma data_field_shape: "same_shape (map_option VText (data_field d f)) (map_option VText (data_field e f))"
  by (simp add: data_field_def)

lemma eval_fields_shape: "same_shape (Some v) (Some w) \<Longrightarrow> same_shape (eval_fields d v fs plain) (eval_fields e w fs plain)"
  using data_field_shape by (cases v; cases w; cases "(d, v, fs, plain)" rule: eval_fields.cases) auto

lemma eval_shape:
  "same_shape final final' \<Longrightarrow> same_shape (eval_pipe d final cmds) (eval_pipe e final' cmds)"
  "same_shape (eval_command d plain n) (eval_command e plain n)"
proof (induction d final cmds and d plain n arbitrary: final' rule: eval_pipe_eval_command.induct)
  case (2 d final cmd cmds)
  show ?case
  proof (cases "\<exists>first args. cmd = CommandNode (first # args)")
    case True
    then obtain first args where cmd: "cmd = CommandNode (first # args)" by blast
    have "final = None \<longleftrightarrow> final' = None" using 2(3) by auto
    then have head: "same_shape (eval_command d (args = [] \<and> final = None) first) (eval_command e (args = [] \<and> final' = None) first)"
      using 2(1) [OF cmd refl] by simp
    show ?thesis
    proof (cases "eval_command d (args = [] \<and> final = None) first")
      case (Some v)
      with head obtain w where w: "eval_command e (args = [] \<and> final' = None) first = Some w" "same_shape (Some v) (Some w)"
        by (cases "eval_command e (args = [] \<and> final' = None) first") auto
      from 2(2) [OF cmd refl Some w(2)] Some w(1) cmd show ?thesis by simp
    qed (use head cmd in simp)
  qed (auto split: tnode.splits list.splits)
next
  case (4 d plain node field)
  show ?case
  proof (cases node)
    case (FieldNode ident)
    have "same_shape (eval_fields d VDot ident True) (eval_fields e VDot ident True)" by (intro eval_fields_shape) simp
    then show ?thesis using FieldNode eval_fields_shape
      by (cases "eval_fields d VDot ident True"; cases "eval_fields e VDot ident True") auto
  next
    case (PipeNode decls is_assign cmds)
    have "same_shape (eval_pipe d None cmds) (eval_pipe e None cmds)" using 4 PipeNode by simp
    then show ?thesis using PipeNode eval_fields_shape
      by (cases "eval_pipe d None cmds"; cases "eval_pipe e None cmds") auto
  qed (auto intro: eval_fields_shape)
qed (auto intro: eval_fields_shape)

lemma text_defined:
  "(node_text d n = None) = (node_text e n = None)" "(nodes_text d ns = None) = (nodes_text e ns = None)"
proof (induction d n and d ns rule: node_text_nodes_text.induct)
  case (4 d decls is_assign cmds)
  then show ?case using eval_shape(1) [of None None d cmds e] by (auto simp del: eval_pipe.simps)
qed (auto split: option.splits)

text \<open>The limited execution writes that text, or fails.\<close>

lemma exec_text:
  "length b \<le> limit \<Longrightarrow> node_text d n = Some s \<Longrightarrow>
     (case exec_node limit d b n of Inl err \<Rightarrow> limit < length b + length s | Inr b' \<Rightarrow> b' = b @ s \<and> length b' \<le> limit)"
  "length b \<le> limit \<Longrightarrow> nodes_text d ns = Some s \<Longrightarrow>
     (case exec_nodes limit d b ns of Inl err \<Rightarrow> limit < length b + length s | Inr b' \<Rightarrow> b' = b @ s \<and> length b' \<le> limit)"
proof (induction limit d b n and limit d b ns arbitrary: s and s rule: exec_node_exec_nodes.induct)
  case (4 limit d b decls is_assign cmds)
  then show ?case by (auto simp: limited_write_def simp del: eval_pipe.simps)
next
  case (7 limit d b n ns)
  obtain s1 s2 where s: "node_text d n = Some s1" "nodes_text d ns = Some s2" "s = s1 @ s2"
    using 7(4) by (auto split: option.splits)
  show ?case
  proof (cases "exec_node limit d b n")
    case (Inr b')
    then have "b' = b @ s1" "length b' \<le> limit" using 7(1) [OF 7(3) s(1)] by auto
    with 7(2) [OF Inr _ s(2)] s(3) Inr show ?thesis by (auto split: sum.splits)
  qed (use 7(1) [OF 7(3) s(1)] s(3) in simp)
qed (auto simp: limited_write_def split: option.splits sum.splits)

lemma exec_defined:
  "exec_node limit d b n = Inr b' \<Longrightarrow> node_text d n \<noteq> None"
  "exec_nodes limit d b ns = Inr b' \<Longrightarrow> nodes_text d ns \<noteq> None"
proof (induction limit d b n and limit d b ns arbitrary: b' and b' rule: exec_node_exec_nodes.induct)
  case (4 limit d b decls is_assign cmds)
  then show ?case by (auto simp del: eval_pipe.simps split: option.splits)
qed (auto split: option.splits sum.splits)

lemma execute_once:
  assumes "executeMessageTemplate tmpl e = Inr s"
  shows "executeMessageTemplate tmpl d = Inr t \<longleftrightarrow>
    length (template_text tmpl d) \<le> maxRenderedMessageBytes \<and> t = template_text tmpl d"
proof -
  obtain root where root: "tp_root tmpl = Some root" "exec_node maxRenderedMessageBytes e [] root = Inr s"
    using assms by (auto simp: executeMessageTemplate_def split: option.splits)
  then have "node_text e root \<noteq> None" using exec_defined by blast
  then have "node_text d root \<noteq> None" using text_defined(1) [of e root d] by simp
  then obtain u where u: "node_text d root = Some u" by blast
  from exec_text(1) [OF _ u, of "[]" maxRenderedMessageBytes]
  show ?thesis
    unfolding executeMessageTemplate_def template_text_def root(1) option.case u
    by (cases "exec_node maxRenderedMessageBytes d [] root") auto
qed

section \<open>Properties\<close>

definition line_message :: "string \<Rightarrow> nat \<Rightarrow> string \<Rightarrow> bool" where
  "line_message name maxRunes s \<longleftrightarrow> length s \<le> maxRenderedMessageBytes \<and> validateSingleLine name s maxRunes = None"

definition body_message :: "string \<Rightarrow> bool" where
  "body_message s \<longleftrightarrow> length s \<le> maxRenderedMessageBytes \<and> validateBody s = None"

definition render_texts :: "message_renderer \<Rightarrow> template_data \<Rightarrow> rendered_messages" where
  "render_texts r d = \<lparr>rm_pull_request_title = template_text (mr_pull_request_title r) d,
     rm_pull_request_body = template_text (mr_pull_request_body r) (escaped_data d),
     rm_commit_message = template_text (mr_commit_message r) d\<rparr>"

definition acceptable :: "rendered_messages \<Rightarrow> bool" where
  "acceptable m \<longleftrightarrow> line_message ''pull request title'' maxPullRequestTitleRunes (rm_pull_request_title m) \<and>
     line_message ''commit message'' maxCommitMessageRunes (rm_commit_message m) \<and> body_message (rm_pull_request_body m)"

lemma render_Inr:
  "render r d = Inr m \<longleftrightarrow>
     executeMessageTemplate (mr_pull_request_title r) d = Inr (rm_pull_request_title m) \<and>
     validateSingleLine ''pull request title'' (rm_pull_request_title m) maxPullRequestTitleRunes = None \<and>
     executeMessageTemplate (mr_commit_message r) d = Inr (rm_commit_message m) \<and>
     validateSingleLine ''commit message'' (rm_commit_message m) maxCommitMessageRunes = None \<and>
     executeMessageTemplate (mr_pull_request_body r) (escaped_data d) = Inr (rm_pull_request_body m) \<and>
     validateBody (rm_pull_request_body m) = None"
  by (cases m) (auto simp: render_def split: sum.splits option.splits)

lemma NewMessageRenderer_renders:
  assumes "NewMessageRenderer lib t = Inr r"
  shows "\<exists>m. render r startup_data = Inr m"
  using assms by (auto simp: NewMessageRenderer_def Let_def split: sum.splits)


subsection \<open>The default templates\<close>

definition field_action :: "string \<Rightarrow> tnode" where
  "field_action f = ActionNode (PipeNode 0 False [CommandNode [FieldNode [f]]])"

text \<open>A parser that knows the default templates.\<close>

definition default_tree :: "string \<Rightarrow> tnode option" where
  "default_tree value =
     (if value = DefaultPullRequestTitleTemplate
      then Some (ListNode [TextNode ''['', field_action ''Environment'', TextNode ''][Image Updater]['',
        field_action ''ImageName'', TextNode ''] Update image''])
      else if value = DefaultPullRequestBodyTemplate then Some (ListNode [field_action ''DefaultBody''])
      else if value = DefaultCommitMessageTemplate
      then Some (ListNode [TextNode ''['', field_action ''Environment'', TextNode ''][image-committer]['',
        field_action ''ImageRepository'', TextNode ''] Update image''])
      else None)"

definition default_lib :: template_lib where
  "default_lib = \<lparr>tl_parse = (\<lambda>name value. case default_tree value of
     None \<Rightarrow> Inl (ErrorsNew ''syntax'') | root \<Rightarrow> Inr \<lparr>tp_root = root, tp_others = []\<rparr>)\<rparr>"

definition default_templates :: message_templates where
  "default_templates = \<lparr>mt_pull_request_title = DefaultPullRequestTitleTemplate,
     mt_pull_request_body = DefaultPullRequestBodyTemplate, mt_commit_message = DefaultCommitMessageTemplate\<rparr>"

definition default_renderer :: message_renderer where
  "default_renderer = \<lparr>
     mr_pull_request_title = \<lparr>tp_root = default_tree DefaultPullRequestTitleTemplate, tp_others = []\<rparr>,
     mr_pull_request_body = \<lparr>tp_root = default_tree DefaultPullRequestBodyTemplate, tp_others = []\<rparr>,
     mr_commit_message = \<lparr>tp_root = default_tree DefaultCommitMessageTemplate, tp_others = []\<rparr>\<rparr>"

lemma token_nonempty: "t \<in> set (utf8_tokens s) \<Longrightarrow> snd t \<noteq> []"
proof (induction s rule: utf8_tokens.induct)
  case (2 c cs)
  obtain r w where rw: "decode_rune (c # cs) = (r, w)" by fastforce
  then have "take w (c # cs) \<noteq> []" using decode_rune_width [of "c # cs"] by simp
  moreover have "t = (r, take w (c # cs)) \<or> t \<in> set (utf8_tokens (drop w (c # cs)))" using 2(2) rw by simp
  ultimately show ?case using "2.IH" [OF refl rw [symmetric]] by fastforce
qed simp

lemma dropWhile_Nil_D: "dropWhile P xs = [] \<Longrightarrow> x \<in> set xs \<Longrightarrow> P x"
  by (simp add: dropWhile_eq_Nil_iff)

lemma trim_space_not_blank: "c \<in> set s \<Longrightarrow> byte c < 128 \<Longrightarrow> \<not> is_space (byte c) \<Longrightarrow> trim_space s \<noteq> []"
proof
  let ?P = "\<lambda>t :: nat \<times> string. is_space (fst t)"
  let ?l = "dropWhile ?P (utf8_tokens s)"
  let ?k = "dropWhile ?P (rev ?l)"
  assume c: "c \<in> set s" "byte c < 128" "\<not> is_space (byte c)" and blank: "trim_space s = []"
  have "?k = []"
  proof (cases ?k)
    case (Cons t ts)
    then have "t \<in> set ?k" by simp
    then have "t \<in> set (rev ?l)" by (rule set_dropWhile_sub)
    then have "t \<in> set ?l" by simp
    then have "t \<in> set (utf8_tokens s)" by (rule set_dropWhile_sub)
    then have "snd t \<noteq> []" by (rule token_nonempty)
    with Cons blank show ?thesis by (simp add: trim_space_def)
  qed
  then have space: "?P t" if "t \<in> set ?l" for t using that by (intro dropWhile_Nil_D [of ?P "rev ?l"]) (simp_all only: set_rev)
  have "byte c \<in> fst ` set (utf8_tokens s)"
    using ascii_byte_rune [OF c(1,2)] by (simp only: runes_def set_map)
  then obtain t where t: "t \<in> set (utf8_tokens s)" "fst t = byte c" by (metis imageE)
  have "t \<in> set ?l"
  proof -
    have "t \<in> set (takeWhile ?P (utf8_tokens s)) \<union> set ?l"
      unfolding set_append [symmetric] takeWhile_dropWhile_id by (rule t(1))
    moreover have "t \<notin> set (takeWhile ?P (utf8_tokens s))" using t(2) c(3) set_takeWhileD [of t ?P] by metis
    ultimately show ?thesis by blast
  qed
  from space [OF this] show False unfolding t(2) using c(3) by (rule notE [rotated])
qed

definition sample_data :: template_data where
  "sample_data = \<lparr>td_environment = ''prod'', td_image_name = ''a'', td_image_repository = ''x/a'',
     td_image = ''h/x/a'', td_image_tag = ''v2'', td_default_body = ''Body''\<rparr>"

definition sample_messages :: rendered_messages where
  "sample_messages = \<lparr>rm_pull_request_title = ''[prod][Image Updater][a] Update image'', rm_pull_request_body = ''Body'',
     rm_commit_message = ''[prod][image-committer][x/a] Update image''\<rparr>"

lemma default_nodes:
  "validateMessageTemplateNode (field_action f) = validateMessageTemplateField [f]"
  "node_text d (field_action f) = data_field d f"
  by (simp_all add: field_action_def print_value_def split: option.splits)

lemma default_texts:
  "node_text d (the (default_tree DefaultPullRequestTitleTemplate)) =
     Some (''['' @ td_environment d @ ''][Image Updater]['' @ td_image_name d @ ''] Update image'')"
  "node_text d (the (default_tree DefaultPullRequestBodyTemplate)) = Some (td_default_body d)"
  "node_text d (the (default_tree DefaultCommitMessageTemplate)) =
     Some (''['' @ td_environment d @ ''][image-committer]['' @ td_image_repository d @ ''] Update image'')"
  by (simp_all add: default_tree_def DefaultPullRequestTitleTemplate_def DefaultPullRequestBodyTemplate_def
      DefaultCommitMessageTemplate_def default_nodes data_field_def)

lemma single_line:
  assumes printable: "\<forall>c\<in>set s. 32 \<le> byte c \<and> byte c < 127" and "c \<in> set s" and "visible c" and "length s \<le> n"
  shows "validateSingleLine name s n = None"
proof -
  have "trim_space s \<noteq> []" using trim_space_not_blank [OF assms(2)] assms(3) by (auto simp: visible_def is_space_def)
  moreover have "runes s = map byte s" using printable by (intro runes_ascii) (auto simp: ascii_def list_all_iff)
  ultimately show ?thesis
    using printable assms(4) by (auto simp: validateSingleLine_def list_ex_iff is_control_def line_separator_def)
qed

lemma default_parse:
  "parseMessageTemplate default_lib name DefaultPullRequestTitleTemplate = Inr (mr_pull_request_title default_renderer)"
  "parseMessageTemplate default_lib name DefaultPullRequestBodyTemplate = Inr (mr_pull_request_body default_renderer)"
  "parseMessageTemplate default_lib name DefaultCommitMessageTemplate = Inr (mr_commit_message default_renderer)"
proof -
  have parse: "parseMessageTemplate default_lib name v = Inr \<lparr>tp_root = Some root, tp_others = []\<rparr>"
    if "CHR ''{'' \<in> set v" "length v \<le> maxMessageTemplateBytes" "CHR 0x5C \<notin> set v" "default_tree v = Some root"
      "validateMessageTemplateNode root = None" for v root
  proof -
    have brace: "byte (CHR ''{'') = 123" by (simp add: byte_def)
    have "trim_space v \<noteq> []" using trim_space_not_blank [OF that(1)] brace by (simp add: is_space_def)
    moreover have "replace_all [CHR 0x5C, CHR ''n''] nl v = v"
      using that(3) by (intro replace_all_absent) (auto simp: contains_iff)
    ultimately show ?thesis
      using that(2,4,5) by (simp add: parseMessageTemplate_def default_lib_def validateMessageTemplate_def)
  qed
  show "parseMessageTemplate default_lib name DefaultPullRequestTitleTemplate = Inr (mr_pull_request_title default_renderer)"
    "parseMessageTemplate default_lib name DefaultPullRequestBodyTemplate = Inr (mr_pull_request_body default_renderer)"
    "parseMessageTemplate default_lib name DefaultCommitMessageTemplate = Inr (mr_commit_message default_renderer)"
    by (simp_all add: parse default_renderer_def DefaultPullRequestTitleTemplate_def DefaultPullRequestBodyTemplate_def
        DefaultCommitMessageTemplate_def default_tree_def maxMessageTemplateBytes_def default_nodes
        validateMessageTemplateField_def allowedMessageTemplateFields_def)
qed

lemma default_template_texts:
  "template_text (mr_pull_request_title default_renderer) d =
     ''['' @ td_environment d @ ''][Image Updater]['' @ td_image_name d @ ''] Update image''"
  "template_text (mr_pull_request_body default_renderer) d = td_default_body d"
  "template_text (mr_commit_message default_renderer) d =
     ''['' @ td_environment d @ ''][image-committer]['' @ td_image_repository d @ ''] Update image''"
proof -
  have trees: "default_tree v \<noteq> None" if "v \<in> {DefaultPullRequestTitleTemplate, DefaultPullRequestBodyTemplate, DefaultCommitMessageTemplate}" for v
    using that by (auto simp: default_tree_def)
  show "template_text (mr_pull_request_title default_renderer) d =
     ''['' @ td_environment d @ ''][Image Updater]['' @ td_image_name d @ ''] Update image''"
    "template_text (mr_pull_request_body default_renderer) d = td_default_body d"
    "template_text (mr_commit_message default_renderer) d =
     ''['' @ td_environment d @ ''][image-committer]['' @ td_image_repository d @ ''] Update image''"
    using default_texts trees [of DefaultPullRequestTitleTemplate] trees [of DefaultPullRequestBodyTemplate]
      trees [of DefaultCommitMessageTemplate]
    by (auto simp: template_text_def default_renderer_def)
qed

text \<open>Data of visible characters and spaces is acceptable to the default templates.\<close>

definition short_text :: "string \<Rightarrow> bool" where
  "short_text s \<longleftrightarrow> s \<noteq> [] \<and> length s \<le> 60 \<and> list_all visible s"

lemma default_acceptable:
  assumes "short_text (td_environment d)" "short_text (td_image_name d)" "short_text (td_image_repository d)"
    and body: "body_message (td_default_body d)"
  shows "acceptable (render_texts default_renderer d)"
proof -
  have chars: "\<forall>c\<in>set s. 32 \<le> byte c \<and> byte c < 127" if "short_text s" for s
    using that by (auto simp: short_text_def visible_def list_all_iff)
  have line: "line_message name n (''['' @ a @ mid @ b @ ''] Update image'')"
    if ab: "short_text a" "short_text b" "200 \<le> n" "length mid \<le> 30" "\<forall>c\<in>set mid. 32 \<le> byte c \<and> byte c < 127"
      "visible (CHR ''['')" for a b mid n name
  proof -
    let ?s = "''['' @ a @ mid @ b @ ''] Update image''"
    have all: "\<forall>c\<in>set ?s. 32 \<le> byte c \<and> byte c < 127"
      using chars [OF ab(1)] chars [OF ab(2)] ab(5) by (auto simp: byte_def)
    have len: "length ?s \<le> 200" using ab by (simp add: short_text_def)
    have "validateSingleLine name ?s n = None"
      using len ab(3) by (intro single_line [OF all _ ab(6)]) simp_all
    with len show ?thesis by (simp add: line_message_def maxRenderedMessageBytes_def)
  qed
  have vis: "visible (CHR ''['')" by (simp add: visible_def byte_def)
  have mids: "\<forall>c\<in>set ''][Image Updater][''. 32 \<le> byte c \<and> byte c < 127"
    "\<forall>c\<in>set ''][image-committer][''. 32 \<le> byte c \<and> byte c < 127" by (simp_all add: byte_def)
  have "line_message ''pull request title'' maxPullRequestTitleRunes (template_text (mr_pull_request_title default_renderer) d)"
    unfolding default_template_texts using line [OF assms(1,2) _ _ mids(1) vis, of maxPullRequestTitleRunes]
    by (simp add: maxPullRequestTitleRunes_def)
  moreover have "line_message ''commit message'' maxCommitMessageRunes (template_text (mr_commit_message default_renderer) d)"
    unfolding default_template_texts using line [OF assms(1,3) _ _ mids(2) vis, of maxCommitMessageRunes]
    by (simp add: maxCommitMessageRunes_def)
  moreover have "body_message (template_text (mr_pull_request_body default_renderer) (escaped_data d))"
    unfolding default_template_texts using body by (simp add: escaped_data_def)
  ultimately show ?thesis by (simp add: acceptable_def render_texts_def)
qed

lemma text_body: "ascii s \<Longrightarrow> c \<in> set s \<Longrightarrow> visible c \<Longrightarrow> length s \<le> 1000 \<Longrightarrow>
    \<forall>x\<in>set s. x = newline \<or> 32 \<le> byte x \<and> byte x < 127 \<Longrightarrow> body_message s"
proof -
  assume s: "ascii s" "c \<in> set s" "visible c" "length s \<le> 1000" "\<forall>x\<in>set s. x = newline \<or> 32 \<le> byte x \<and> byte x < 127"
  have "trim_space s \<noteq> []" using s(2,3) trim_space_not_blank [OF s(2)] by (simp add: visible_def is_space_def)
  moreover have "byte newline = 10" by (simp add: newline_def byte_def)
  ultimately show ?thesis
    using s by (fastforce simp: body_message_def validateBody_def runes_ascii list_ex_iff is_control_def line_separator_def
        maxRenderedMessageBytes_def maxPullRequestBodyRunes_def)
qed

lemma default_built: "NewMessageRenderer default_lib default_templates = Inr default_renderer"
proof -
  have "acceptable (render_texts default_renderer startup_data)"
  proof (rule default_acceptable)
    show "body_message (td_default_body startup_data)"
      by (rule text_body [where c = "CHR ''#''"])
        (simp_all add: startup_data_def nl_def newline_def ascii_def visible_def byte_def)
  qed (simp_all add: startup_data_def short_text_def visible_def byte_def)
  then have ok: "line_message ''pull request title'' maxPullRequestTitleRunes (template_text (mr_pull_request_title default_renderer) startup_data)"
    "line_message ''commit message'' maxCommitMessageRunes (template_text (mr_commit_message default_renderer) startup_data)"
    "body_message (template_text (mr_pull_request_body default_renderer) (escaped_data startup_data))"
    by (simp_all add: acceptable_def render_texts_def)
  have exec: "executeMessageTemplate t d = Inr (template_text t d)"
    if "tp_root t = Some root" "node_text d root \<noteq> None" "length (template_text t d) \<le> maxRenderedMessageBytes" for t d root
    using that exec_text(1) [of "[]" maxRenderedMessageBytes d root]
    by (fastforce simp: executeMessageTemplate_def template_text_def split: sum.splits)
  have roots: "\<exists>root. tp_root t = Some root \<and> node_text d root \<noteq> None"
    if "t \<in> {mr_pull_request_title default_renderer, mr_pull_request_body default_renderer, mr_commit_message default_renderer}" for t d
    using that default_texts [of d] by (auto simp: default_renderer_def default_tree_def)
  have "executeMessageTemplate t d = Inr (template_text t d)"
    if "t \<in> {mr_pull_request_title default_renderer, mr_pull_request_body default_renderer, mr_commit_message default_renderer}"
      "length (template_text t d) \<le> maxRenderedMessageBytes" for t d
    using roots [OF that(1)] exec that(2) by blast
  then have "render default_renderer startup_data = Inr (render_texts default_renderer startup_data)"
    using ok unfolding render_Inr by (simp add: line_message_def body_message_def render_texts_def)
  then show ?thesis
    by (auto simp: NewMessageRenderer_def default_templates_def default_parse Let_def) (simp add: default_renderer_def)?
qed


end
