(* ===== verification/Plan.thy ===== *)
theory Plan
  imports Rules Message_Renderer "HOL-Library.Product_Lexorder"
begin

text \<open>
  The planning half of \<open>internal/application/updater/service.go\<close>: the event is matched against the
  rules and every change is worked out before a remote call is made. A plan has one transaction per
  manifest repository, with the directories to patch and the name of the branch. SHA-256 is a
  parameter of the runtime.
\<close>

record manifest_target =
  tg_location :: manifest_location
  tg_env :: string
  tg_writes_image_manifest :: bool

record repository_plan =
  rp_event :: image_push_event
  rp_location :: manifest_location
  rp_targets :: "manifest_target list"
  rp_env :: string
  rp_branch :: string

record event_plan =
  ep_event :: image_push_event
  ep_repositories :: "repository_plan list"

section \<open>Names\<close>

definition nul :: string where "nul = [CHR 0x00]"

definition imageName :: "string \<Rightarrow> string" where
  "imageName repository =
     (let segments = split_on (CHR ''/'') (trim ''/'' repository) in
      join_with ''/'' (if 1 < length segments then drop 1 segments else segments))"

definition manifestRepositoryKey :: "runtime \<Rightarrow> manifest_location \<Rightarrow> string" where
  "manifestRepositoryKey rt location = to_lower rt (ml_owner location) @ nul @ to_lower rt (ml_repository location)"

text \<open>\<open>fmt.Sprintf\<close> with the two branch formats.\<close>

definition branchFormat :: "string \<Rightarrow> string \<Rightarrow> string \<Rightarrow> string \<Rightarrow> string" where
  "branchFormat name env tag digest = ''image_updater_'' @ name @ ''_'' @ env @ ''_'' @ tag @ ''_'' @ hex_string digest"

definition legacyBranchFormat :: "string \<Rightarrow> string \<Rightarrow> string \<Rightarrow> string" where
  "legacyBranchFormat name env tag = ''image_updater_'' @ name @ ''_'' @ env @ ''_'' @ tag"

definition branchName :: "runtime \<Rightarrow> image_push_event \<Rightarrow> string \<Rightarrow> manifest_location \<Rightarrow> string" where
  "branchName rt event env location =
     (let identity = join_with nul [ev_host event, ev_repository event, ml_repository_url location, ml_dir location,
            env, ev_tag event];
          digest = sha256 rt identity
      in branchFormat (replace_all ''/'' ''_'' (imageName (ev_repository event))) env (ev_tag event) (take 8 digest))"

definition repositoryBranchName :: "runtime \<Rightarrow> image_push_event \<Rightarrow> string \<Rightarrow> repository_plan \<Rightarrow> string" where
  "repositoryBranchName rt event env target =
     (if length (rp_targets target) = 1 then branchName rt event env (tg_location (rp_targets target ! 0))
      else (let identity = [ev_host event, ev_repository event, manifestRepositoryKey rt (rp_location target), ev_tag event] @
                  concat (map (\<lambda>manifest. [ml_dir (tg_location manifest), tg_env manifest]) (rp_targets target));
                digest = sha256 rt (join_with nul identity)
            in branchFormat (replace_all ''/'' ''_'' (imageName (ev_repository event))) env (ev_tag event) (take 8 digest)))"

definition legacyRepositoryBranchName :: "image_push_event \<Rightarrow> string \<Rightarrow> repository_plan \<Rightarrow> string" where
  "legacyRepositoryBranchName event env target =
     (if length (rp_targets target) \<noteq> 1 then []
      else legacyBranchFormat (replace_all ''/'' ''_'' (imageName (ev_repository event))) env (ev_tag event))"

definition invalidBranchCharacters :: string where
  "invalidBranchCharacters = [CHR '' '', CHR 0x09] @ ''~^:?*['' @ [CHR 0x5C, CHR 0x7F]"

definition invalid_ref :: "string \<Rightarrow> go_error" where
  "invalid_ref branch = Errorf ''the branch name %q is not a valid git ref'' [AStr branch] []"

definition validateBranch :: "string \<Rightarrow> go_error option" where
  "validateBranch branch =
     (if branch = [] then Some (ErrorsNew ''the branch name is empty'')
      else if contains ''..'' branch \<or> has_suffix ''.'' branch then Some (invalid_ref branch)
      else if has_prefix ''-'' branch \<or> has_suffix ''.lock'' branch then Some (invalid_ref branch)
      else if contains_any invalidBranchCharacters branch then Some (invalid_ref branch)
      else None)"

section \<open>The targets of one repository\<close>

text \<open>
  \<open>sort.Slice\<close> is not stable. The order of targets with the same directory and environment is not
  determined by the code; the lemma \<open>normalize_any_order\<close> shows that no result depends on it.
\<close>

definition target_order :: "manifest_target \<Rightarrow> string \<times> string" where
  "target_order t = (ml_dir (tg_location t), tg_env t)"

fun normalize_loop :: "string \<Rightarrow> manifest_target list \<Rightarrow> manifest_target list \<Rightarrow> (go_error, manifest_target list) result" where
  "normalize_loop repositoryURL unique [] = Inr unique"
| "normalize_loop repositoryURL unique (target # targets) =
     (if unique \<noteq> [] \<and> ml_dir (tg_location (last unique)) = ml_dir (tg_location target)
      then (let previous = last unique in
        if tg_env previous \<noteq> tg_env target \<or> tg_writes_image_manifest previous \<noteq> tg_writes_image_manifest target
        then Inl (Errorf ''%w: conflicting rules for %s/%s'' [AStr repositoryURL, AStr (ml_dir (tg_location target))]
               [Sentinel ErrIncompleteRule])
        else normalize_loop repositoryURL unique targets)
      else normalize_loop repositoryURL (unique @ [target]) targets)"

definition normalizeManifestTargets :: "string \<Rightarrow> manifest_target list \<Rightarrow> (go_error, manifest_target list) result" where
  "normalizeManifestTargets repositoryURL targets = normalize_loop repositoryURL [] (sort_key target_order targets)"

section \<open>The plan of an event\<close>

text \<open>The target goes to the repository with its key, a new one when there is none.\<close>

definition add_target ::
    "runtime \<Rightarrow> image_push_event \<Rightarrow> manifest_target \<Rightarrow> (string \<rightharpoonup> nat) \<Rightarrow> repository_plan list \<Rightarrow>
     (string \<rightharpoonup> nat) \<times> repository_plan list" where
  "add_target rt event target byRepository repositories =
     (let repositoryKey = manifestRepositoryKey rt (tg_location target);
          (index, byRepository', repositories') = (case byRepository repositoryKey of
              Some index \<Rightarrow> (index, byRepository, repositories)
            | None \<Rightarrow> (length repositories, byRepository(repositoryKey \<mapsto> length repositories),
                repositories @ [\<lparr>rp_event = event, rp_location = tg_location target, rp_targets = [], rp_env = [], rp_branch = []\<rparr>]));
          repository = repositories' ! index
      in (byRepository', repositories'[index := repository\<lparr>rp_targets := rp_targets repository @ [target]\<rparr>]))"

text \<open>The first loop: the index by repository key, the repositories, the first tag error.\<close>

fun plan_loop ::
    "runtime \<Rightarrow> bool \<Rightarrow> image_push_event \<Rightarrow> (string \<rightharpoonup> nat) \<Rightarrow> repository_plan list \<Rightarrow> go_error option \<Rightarrow>
     matched_rule list \<Rightarrow> (go_error, repository_plan list \<times> go_error option) result" where
  "plan_loop rt annotate event byRepository repositories firstTagError [] = Inr (repositories, firstTagError)"
| "plan_loop rt annotate event byRepository repositories firstTagError (matched # matchedRules) =
     (case ValidateTag matched of
        Some err \<Rightarrow>
          plan_loop rt annotate event byRepository repositories
            (if firstTagError = None then Some err else firstTagError) matchedRules
      | None \<Rightarrow>
          (case Location rt matched of
             Inl err \<Rightarrow> Inl err
           | Inr location \<Rightarrow>
               (case add_target rt event \<lparr>tg_location = location, tg_env = mr_env matched,
                    tg_writes_image_manifest = annotate \<and> WritesImageManifest matched\<rparr> byRepository repositories of
                  (byRepository', repositories') \<Rightarrow>
                    plan_loop rt annotate event byRepository' repositories' firstTagError matchedRules)))"

fun environments_loop :: "string set \<Rightarrow> string list \<Rightarrow> manifest_target list \<Rightarrow> string list" where
  "environments_loop seen environments [] = environments"
| "environments_loop seen environments (target # targets) =
     (if tg_env target \<in> seen then environments_loop seen environments targets
      else environments_loop (insert (tg_env target) seen) (environments @ [tg_env target]) targets)"

text \<open>The body of the last loop for one repository.\<close>

definition finish_repository :: "runtime \<Rightarrow> image_push_event \<Rightarrow> repository_plan \<Rightarrow> (go_error, repository_plan) result" where
  "finish_repository rt event repository0 =
     (case normalizeManifestTargets (ml_repository_url (rp_location repository0)) (rp_targets repository0) of
        Inl err \<Rightarrow> Inl err
      | Inr targets \<Rightarrow>
          (let environments = sort (environments_loop {} [] targets);
               repository = repository0\<lparr>rp_targets := targets, rp_env := join_with '','' environments\<rparr>;
               branchEnv = (if 1 < length environments then ''multi'' else rp_env repository);
               branch = repositoryBranchName rt event branchEnv repository
           in case validateBranch branch of
                Some err \<Rightarrow> Inl err
              | None \<Rightarrow> Inr (repository\<lparr>rp_branch := branch\<rparr>)))"

text \<open>
  \<open>plan\<close>: a plan without repositories is returned with the first tag error, which is the error of
  the call unless it is nil. The keys of the repositories are distinct, so their order is determined.
\<close>

definition plan_event :: "runtime \<Rightarrow> rule_set \<Rightarrow> bool \<Rightarrow> image_push_event \<Rightarrow> (go_error, event_plan) result" where
  "plan_event rt rules annotate event =
     (case Matches rules event of
        Inl err \<Rightarrow> Inl err
      | Inr matchedRules \<Rightarrow>
          (case plan_loop rt annotate event Map.empty [] None matchedRules of
             Inl err \<Rightarrow> Inl err
           | Inr (repositories, firstTagError) \<Rightarrow>
               if repositories = []
               then (case firstTagError of Some err \<Rightarrow> Inl err | None \<Rightarrow> Inr \<lparr>ep_event = event, ep_repositories = []\<rparr>)
               else (case map_result (finish_repository rt event)
                          (sort_key (\<lambda>r. manifestRepositoryKey rt (rp_location r)) repositories) of
                       Inl err \<Rightarrow> Inl err
                     | Inr finished \<Rightarrow> Inr \<lparr>ep_event = event, ep_repositories = finished\<rparr>)))"

section \<open>Normalising the targets\<close>

definition tg_dir :: "manifest_target \<Rightarrow> string" where
  "tg_dir t = ml_dir (tg_location t)"

text \<open>What a target is patched with, and when two targets contradict each other.\<close>

definition target_view :: "manifest_target \<Rightarrow> string \<times> string \<times> bool" where
  "target_view t = (tg_dir t, tg_env t, tg_writes_image_manifest t)"

definition conflict :: "manifest_target list \<Rightarrow> bool" where
  "conflict ts \<longleftrightarrow> list_ex (\<lambda>t. list_ex (\<lambda>t'. tg_dir t = tg_dir t' \<and> target_view t \<noteq> target_view t') ts) ts"

definition strictly_sorted_dirs :: "manifest_target list \<Rightarrow> bool" where
  "strictly_sorted_dirs ts \<longleftrightarrow> sorted_wrt (<) (map tg_dir ts)"

lemma target_order_le: "target_order t \<le> target_order t' \<Longrightarrow> tg_dir t \<le> tg_dir t'"
  by (auto simp: target_order_def tg_dir_def less_eq_prod_def)

lemma conflict_iff: "conflict ts \<longleftrightarrow> (\<exists>t\<in>set ts. \<exists>t'\<in>set ts. tg_dir t = tg_dir t' \<and> target_view t \<noteq> target_view t')"
  by (simp add: conflict_def list_ex_iff)

lemma strictly_sorted_snoc:
  "strictly_sorted_dirs (us @ [t]) \<longleftrightarrow> strictly_sorted_dirs us \<and> (\<forall>u\<in>set us. tg_dir u < tg_dir t)"
  by (auto simp: strictly_sorted_dirs_def sorted_wrt_append)

lemma strictly_sorted_last:
  assumes "strictly_sorted_dirs us" and "u \<in> set us"
  shows "tg_dir u \<le> tg_dir (last us)"
proof (cases us rule: rev_cases)
  case (snoc vs v)
  with assms show ?thesis by (auto simp: strictly_sorted_snoc intro: less_imp_le)
qed (use assms in simp)

lemma normalize_loop_ok:
  assumes "sorted (map target_order ts)" and "strictly_sorted_dirs us"
    and "\<forall>u\<in>set us. \<forall>t\<in>set ts. tg_dir u \<le> tg_dir t"
  shows "case normalize_loop url us ts of
      Inl e \<Rightarrow> conflict (us @ ts) \<and> (\<exists>d. e = Errorf ''%w: conflicting rules for %s/%s'' [AStr url, AStr d] [Sentinel ErrIncompleteRule])
    | Inr vs \<Rightarrow> strictly_sorted_dirs vs \<and> target_view ` set vs = target_view ` set (us @ ts) \<and> set vs \<subseteq> set (us @ ts)"
  using assms
proof (induction url us ts rule: normalize_loop.induct)
  case (2 url us t ts)
  have above: "\<forall>x\<in>set ts. tg_dir t \<le> tg_dir x" using "2.prems"(1) target_order_le by auto
  show ?case
  proof (cases "us \<noteq> [] \<and> tg_dir (last us) = tg_dir t")
    case True
    then have lastin: "last us \<in> set us" by simp
    show ?thesis
    proof (cases "target_view (last us) = target_view t")
      case False
      then have "conflict (us @ t # ts)"
        unfolding conflict_iff using True lastin by (intro bexI [of _ "last us"] bexI [of _ t]) simp_all
      with False True show ?thesis by (auto simp: target_view_def tg_dir_def Let_def)
    next
      case same: True
      have cfl: "conflict (us @ ts) \<Longrightarrow> conflict (us @ t # ts)" by (auto simp: conflict_iff)
      have "target_view t \<in> target_view ` set us" using lastin same by (metis imageI)
      moreover have "normalize_loop url us (t # ts) = normalize_loop url us ts"
        using True same by (simp add: target_view_def tg_dir_def Let_def)
      moreover have "case normalize_loop url us ts of
            Inl e \<Rightarrow> conflict (us @ ts) \<and> (\<exists>d. e = Errorf ''%w: conflicting rules for %s/%s'' [AStr url, AStr d] [Sentinel ErrIncompleteRule])
          | Inr vs \<Rightarrow> strictly_sorted_dirs vs \<and> target_view ` set vs = target_view ` set (us @ ts) \<and> set vs \<subseteq> set (us @ ts)"
        using True same "2.prems" by (intro "2.IH"(1)) (auto simp: target_view_def tg_dir_def)
      ultimately show ?thesis using cfl by (auto split: sum.splits)
    qed
  next
    case False
    have below: "tg_dir u < tg_dir t" if u: "u \<in> set us" for u
    proof -
      have "tg_dir u \<le> tg_dir (last us)" using strictly_sorted_last [OF "2.prems"(2) u] .
      moreover have "tg_dir (last us) \<le> tg_dir t" using "2.prems"(3) u by (metis last_in_set length_greater_0_conv length_pos_if_in_set list.set_intros(1))
      moreover have "tg_dir (last us) \<noteq> tg_dir t" using False u by auto
      ultimately show ?thesis by (simp add: le_less_trans order_neq_le_trans)
    qed
    have "case normalize_loop url (us @ [t]) ts of
          Inl e \<Rightarrow> conflict ((us @ [t]) @ ts) \<and> (\<exists>d. e = Errorf ''%w: conflicting rules for %s/%s'' [AStr url, AStr d] [Sentinel ErrIncompleteRule])
        | Inr vs \<Rightarrow> strictly_sorted_dirs vs \<and> target_view ` set vs = target_view ` set ((us @ [t]) @ ts) \<and> set vs \<subseteq> set ((us @ [t]) @ ts)"
      using False below above "2.prems"
      by (intro "2.IH"(2)) (auto simp: tg_dir_def strictly_sorted_snoc)
    moreover have "normalize_loop url us (t # ts) = normalize_loop url (us @ [t]) ts"
      unfolding normalize_loop.simps by (rule if_not_P) (use False in \<open>simp add: tg_dir_def\<close>)
    ultimately show ?thesis by (simp only: append_assoc append.simps)
  qed
qed simp

lemma sorted_views: "strictly_sorted_dirs us \<Longrightarrow> sorted (map target_view us) \<and> distinct (map target_view us)"
proof -
  assume "strictly_sorted_dirs us"
  then have "sorted_wrt (\<lambda>a b. fst a < fst b) (map target_view us)"
    by (simp add: strictly_sorted_dirs_def sorted_wrt_map target_view_def)
  then have "sorted_wrt (<) (map target_view us)" by (rule sorted_wrt_mono_rel [rotated]) (simp add: less_prod_def)
  then show ?thesis by (simp add: strict_sorted_iff)
qed

lemma no_conflict:
  assumes "strictly_sorted_dirs us" and "target_view ` set us = target_view ` set ts"
  shows "\<not> conflict ts"
proof
  assume "conflict ts"
  then obtain t t' where t: "t \<in> set ts" "t' \<in> set ts" "tg_dir t = tg_dir t'" "target_view t \<noteq> target_view t'"
    by (auto simp: conflict_iff)
  then have "target_view t \<in> target_view ` set us" "target_view t' \<in> target_view ` set us"
    unfolding assms(2) by simp_all
  then obtain u u' where u: "u \<in> set us" "u' \<in> set us" "target_view u = target_view t" "target_view u' = target_view t'"
    by (metis imageE)
  then have "tg_dir u = tg_dir u'" using t(3) by (simp add: target_view_def)
  moreover have "distinct (map tg_dir us)"
    using assms(1) by (simp add: strictly_sorted_dirs_def strict_sorted_iff)
  ultimately have "u = u'" using u(1,2) by (auto simp: distinct_map inj_on_def)
  with u t(4) show False by simp
qed

lemma normalize_ok:
  "case normalizeManifestTargets url ts of
     Inl e \<Rightarrow> conflict ts \<and> (\<exists>d. e = Errorf ''%w: conflicting rules for %s/%s'' [AStr url, AStr d] [Sentinel ErrIncompleteRule])
   | Inr us \<Rightarrow> \<not> conflict ts \<and> strictly_sorted_dirs us \<and> target_view ` set us = target_view ` set ts \<and> set us \<subseteq> set ts"
proof -
  have sorted: "sorted (map target_order (sort_key target_order ts))" by simp
  have "conflict (sort_key target_order ts) = conflict ts" by (simp add: conflict_iff)
  then show ?thesis
    using normalize_loop_ok [OF sorted, of "[]" url] no_conflict [of _ ts]
    by (auto simp: normalizeManifestTargets_def strictly_sorted_dirs_def split: sum.splits)
qed

text \<open>Every order that \<open>sort.Slice\<close> may leave gives the same outcome.\<close>

lemma normalize_any_order:
  assumes "mset ts' = mset ts" and "sorted (map target_order ts')"
  shows "map_sum (\<lambda>e. ()) (map target_view) (normalize_loop url [] ts') =
    map_sum (\<lambda>e. ()) (map target_view) (normalizeManifestTargets url ts)"
proof -
  have set: "set ts' = set ts" using assms(1) by (metis set_mset_mset)
  then have "conflict ts' = conflict ts" by (simp add: conflict_iff)
  with normalize_loop_ok [OF assms(2), of "[]" url] no_conflict [of _ ts']
  have ok: "case normalize_loop url [] ts' of Inl e \<Rightarrow> conflict ts
      | Inr us \<Rightarrow> \<not> conflict ts \<and> strictly_sorted_dirs us \<and> target_view ` set us = target_view ` set ts"
    by (auto simp: set strictly_sorted_dirs_def split: sum.splits)
  have unique: "map target_view us = map target_view us'"
    if "strictly_sorted_dirs us" "strictly_sorted_dirs us'" "target_view ` set us = target_view ` set us'" for us us'
    using that sorted_views [of us] sorted_views [of us'] by (intro sorted_distinct_set_unique) auto
  show ?thesis using ok normalize_ok [of ts url]
    by (cases "normalize_loop url [] ts'"; cases "normalizeManifestTargets url ts") (simp_all add: unique)
qed

section \<open>Grouping by repository\<close>

abbreviation target_key :: "runtime \<Rightarrow> manifest_target \<Rightarrow> string" where
  "target_key rt t \<equiv> manifestRepositoryKey rt (tg_location t)"

abbreviation plan_key :: "runtime \<Rightarrow> repository_plan \<Rightarrow> string" where
  "plan_key rt r \<equiv> manifestRepositoryKey rt (rp_location r)"

text \<open>The target of a matched rule whose tag is accepted and whose location can be worked out.\<close>

definition accepted_target :: "runtime \<Rightarrow> bool \<Rightarrow> matched_rule \<Rightarrow> manifest_target option" where
  "accepted_target rt annotate m =
     (case ValidateTag m of
        Some err \<Rightarrow> None
      | None \<Rightarrow> (case Location rt m of
          Inl err \<Rightarrow> None
        | Inr location \<Rightarrow> Some \<lparr>tg_location = location, tg_env = mr_env m,
            tg_writes_image_manifest = annotate \<and> WritesImageManifest m\<rparr>))"

definition accepted :: "runtime \<Rightarrow> bool \<Rightarrow> matched_rule list \<Rightarrow> manifest_target list" where
  "accepted rt annotate ms = List.map_filter (accepted_target rt annotate) ms"

text \<open>What the loop has built from the targets \<open>ts\<close>: one repository per key, with its targets in order.\<close>

definition grouped :: "runtime \<Rightarrow> image_push_event \<Rightarrow> (string \<rightharpoonup> nat) \<Rightarrow> repository_plan list \<Rightarrow> manifest_target list \<Rightarrow> bool" where
  "grouped rt event byRepository rs ts \<longleftrightarrow>
     (\<forall>k i. byRepository k = Some i \<longleftrightarrow> i < length rs \<and> plan_key rt (rs ! i) = k) \<and>
     (\<forall>r\<in>set rs. rp_event r = event \<and> rp_targets r \<noteq> [] \<and>
        rp_targets r = filter (\<lambda>t. target_key rt t = plan_key rt r) ts) \<and>
     (\<forall>t\<in>set ts. \<exists>r\<in>set rs. plan_key rt r = target_key rt t)"

lemma grouped_Nil: "grouped rt event Map.empty [] []"
  by (simp add: grouped_def)

lemma grouped_add:
  assumes g: "grouped rt event idx rs ts" and some: "idx (target_key rt t) = Some i"
  shows "grouped rt event idx (rs[i := (rs ! i)\<lparr>rp_targets := rp_targets (rs ! i) @ [t]\<rparr>]) (ts @ [t])"
proof -
  let ?r = "(rs ! i)\<lparr>rp_targets := rp_targets (rs ! i) @ [t]\<rparr>"
  have i: "i < length rs" "plan_key rt (rs ! i) = target_key rt t" using g some by (auto simp: grouped_def)
  have key: "plan_key rt (rs[i := ?r] ! j) = plan_key rt (rs ! j)" if "j < length rs" for j
    using that i(1) by (cases "j = i") auto
  have "rp_event r = event \<and> rp_targets r \<noteq> [] \<and> rp_targets r = filter (\<lambda>u. target_key rt u = plan_key rt r) (ts @ [t])"
    if "r \<in> set (rs[i := ?r])" for r
  proof -
    obtain j where j: "j < length rs" "r = rs[i := ?r] ! j" using \<open>r \<in> set (rs[i := ?r])\<close> by (auto simp: in_set_conv_nth)
    have old: "rp_event (rs ! j) = event \<and> rp_targets (rs ! j) \<noteq> [] \<and>
        rp_targets (rs ! j) = filter (\<lambda>u. target_key rt u = plan_key rt (rs ! j)) ts"
      using g nth_mem [OF j(1)] unfolding grouped_def by blast
    show ?thesis
    proof (cases "j = i")
      case True
      with j i old show ?thesis by simp
    next
      case False
      have "target_key rt t \<noteq> plan_key rt (rs ! j)"
        using g some j(1) False unfolding grouped_def by (metis option.inject)
      then have "filter (\<lambda>u. target_key rt u = plan_key rt (rs ! j)) (ts @ [t]) = filter (\<lambda>u. target_key rt u = plan_key rt (rs ! j)) ts"
        by simp
      moreover have "r = rs ! j" using False j by simp
      ultimately show ?thesis using old by metis
    qed
  qed
  moreover have "\<exists>r\<in>set (rs[i := ?r]). plan_key rt r = target_key rt u" if u: "u \<in> set (ts @ [t])" for u
  proof -
    have "\<exists>j<length rs. plan_key rt (rs ! j) = target_key rt u"
      using u g i by (auto simp: grouped_def) (metis in_set_conv_nth)
    then show ?thesis using key by (metis length_list_update nth_mem)
  qed
  moreover have "(idx k = Some j) = (j < length (rs[i := ?r]) \<and> plan_key rt (rs[i := ?r] ! j) = k)" for k j
    using g key by (auto simp: grouped_def)
  ultimately show ?thesis unfolding grouped_def by blast
qed

lemma grouped_new:
  assumes g: "grouped rt event idx rs ts" and none: "idx (target_key rt t) = None"
  shows "grouped rt event (idx(target_key rt t \<mapsto> length rs))
    (rs @ [\<lparr>rp_event = event, rp_location = tg_location t, rp_targets = [t], rp_env = [], rp_branch = []\<rparr>]) (ts @ [t])"
proof -
  have fresh: "plan_key rt r \<noteq> target_key rt t" if "r \<in> set rs" for r
    using g none that unfolding grouped_def by (metis in_set_conv_nth option.distinct(1))
  have "target_key rt u \<noteq> target_key rt t" if "u \<in> set ts" for u
    using g fresh that unfolding grouped_def by metis
  then have empty: "filter (\<lambda>u. target_key rt u = target_key rt t) ts = []" by (simp add: filter_empty_conv)
  have "idx k = Some i \<longleftrightarrow> i < length rs \<and> plan_key rt (rs ! i) = k" for k i
    using g unfolding grouped_def by blast
  with g fresh empty show ?thesis
    unfolding grouped_def by (auto simp: nth_append less_Suc_eq)
qed

lemma grouped_add_target:
  assumes "grouped rt event idx rs ts"
  shows "case add_target rt event t idx rs of (idx', rs') \<Rightarrow> grouped rt event idx' rs' (ts @ [t])"
proof (cases "idx (target_key rt t)")
  case None
  with grouped_new [OF assms None] show ?thesis by (simp add: add_target_def Let_def)
next
  case (Some i)
  with grouped_add [OF assms Some] show ?thesis by (simp add: add_target_def Let_def)
qed

lemma plan_loop_grouped:
  assumes "grouped rt event idx rs ts" and "plan_loop rt annotate event idx rs first ms = Inr (rs', first')"
  shows "\<exists>idx'. grouped rt event idx' rs' (ts @ accepted rt annotate ms)"
  using assms
proof (induction rt annotate event idx rs first ms arbitrary: ts rule: plan_loop.induct)
  case (1 rt annotate event idx rs first)
  then show ?case by (auto simp: accepted_def map_filter_simps)
next
  case (2 rt annotate event idx rs first m ms)
  show ?case
  proof (cases "ValidateTag m")
    case (Some err)
    with 2 show ?thesis by (auto simp: accepted_def accepted_target_def map_filter_simps)
  next
    case None
    then obtain location where loc: "Location rt m = Inr location" using "2.prems"(2) by (auto split: sum.splits)
    let ?t = "\<lparr>tg_location = location, tg_env = mr_env m, tg_writes_image_manifest = annotate \<and> WritesImageManifest m\<rparr>"
    obtain idx1 rs1 where add: "add_target rt event ?t idx rs = (idx1, rs1)" by fastforce
    have "grouped rt event idx1 rs1 (ts @ [?t])" using grouped_add_target [OF "2.prems"(1), of ?t] add by simp
    moreover have "plan_loop rt annotate event idx1 rs1 first ms = Inr (rs', first')"
      using "2.prems"(2) None loc add by simp
    ultimately have "\<exists>idx'. grouped rt event idx' rs' ((ts @ [?t]) @ accepted rt annotate ms)"
      by (rule "2.IH"(1) [OF None loc add [symmetric]])
    then show ?thesis using None loc by (simp add: accepted_def accepted_target_def map_filter_simps)
  qed
qed

section \<open>What the plan is\<close>

definition event_targets :: "runtime \<Rightarrow> rule_set \<Rightarrow> bool \<Rightarrow> image_push_event \<Rightarrow> manifest_target list" where
  "event_targets rt rules annotate event =
     (case Matches rules event of Inl err \<Rightarrow> [] | Inr ms \<Rightarrow> accepted rt annotate ms)"

text \<open>The transaction of one repository, from the targets of the event.\<close>

definition repository_ok :: "runtime \<Rightarrow> image_push_event \<Rightarrow> manifest_target list \<Rightarrow> repository_plan \<Rightarrow> bool" where
  "repository_ok rt event ts r \<longleftrightarrow>
     rp_event r = event \<and> rp_targets r \<noteq> [] \<and> strictly_sorted_dirs (rp_targets r) \<and>
     set (rp_targets r) \<subseteq> set ts \<and>
     target_view ` set (rp_targets r) = target_view ` set (filter (\<lambda>t. target_key rt t = plan_key rt r) ts) \<and>
     rp_env r = join_with '','' (sorted_list_of_set (tg_env ` set (rp_targets r))) \<and>
     validateBranch (rp_branch r) = None"

lemma environments_loop_set:
  "distinct es \<Longrightarrow> seen = set es \<Longrightarrow>
     set (environments_loop seen es ts) = set es \<union> tg_env ` set ts \<and> distinct (environments_loop seen es ts)"
  by (induction seen es ts rule: environments_loop.induct) auto

lemma environments_sorted: "sort (environments_loop {} [] ts) = sorted_list_of_set (tg_env ` set ts)"
  using environments_loop_set [of "[]" "{}" ts]
  by (intro sorted_distinct_set_unique) auto

lemma finish_repository_Inr:
  assumes "finish_repository rt event r0 = Inr r" and "rp_event r0 = event" and "rp_targets r0 \<noteq> []"
    and "rp_targets r0 = filter (\<lambda>t. target_key rt t = plan_key rt r0) ts"
  shows "repository_ok rt event ts r \<and> rp_location r = rp_location r0"
proof -
  obtain us where us: "normalizeManifestTargets (ml_repository_url (rp_location r0)) (rp_targets r0) = Inr us"
    using assms(1) by (auto simp: finish_repository_def split: sum.splits)
  note n = normalize_ok [of "rp_targets r0" "ml_repository_url (rp_location r0)", unfolded us]
  have "us \<noteq> []" using n assms(3) by auto
  moreover have "r = r0\<lparr>rp_targets := us, rp_env := join_with '','' (sort (environments_loop {} [] us)), rp_branch := rp_branch r\<rparr>"
    "validateBranch (rp_branch r) = None"
    using assms(1) us by (auto simp: finish_repository_def Let_def split: option.splits)
  then have r: "rp_event r = rp_event r0" "rp_location r = rp_location r0" "rp_targets r = us"
    "rp_env r = join_with '','' (sorted_list_of_set (tg_env ` set us))" "validateBranch (rp_branch r) = None"
    unfolding environments_sorted by (metis repository_plan.select_convs repository_plan.surjective repository_plan.update_convs)+
  ultimately show ?thesis
    using n assms(2,4) by (auto simp: repository_ok_def)
qed

lemma plan_event_Inr:
  assumes "plan_event rt rules annotate event = Inr p" and nonempty: "ep_repositories p \<noteq> []"
  obtains ms rs first idx where "Matches rules event = Inr ms"
    "grouped rt event idx rs (accepted rt annotate ms)" "ep_event p = event"
    "map_result (finish_repository rt event) (sort_key (plan_key rt) rs) = Inr (ep_repositories p)"
proof -
  obtain ms where ms: "Matches rules event = Inr ms" using assms(1) by (auto simp: plan_event_def split: sum.splits)
  then obtain rs first where loop: "plan_loop rt annotate event Map.empty [] None ms = Inr (rs, first)"
    using assms(1) by (auto simp: plan_event_def split: sum.splits)
  obtain idx where idx: "grouped rt event idx rs ([] @ accepted rt annotate ms)"
    using plan_loop_grouped [OF grouped_Nil loop] by blast
  have "rs \<noteq> []" using assms ms loop by (auto simp: plan_event_def split: option.splits)
  then have "map_result (finish_repository rt event) (sort_key (plan_key rt) rs) = Inr (ep_repositories p)" "ep_event p = event"
    using assms(1) ms loop by (auto simp: plan_event_def split: sum.splits)
  with ms idx show ?thesis by (intro that) auto
qed

text \<open>A plan has repositories: without one, some tag was refused and that is the error.\<close>

lemma plan_loop_first:
  assumes "grouped rt event idx rs ts" and "plan_loop rt annotate event idx rs first ms = Inr (rs', first')"
    and "first \<noteq> None \<or> rs \<noteq> [] \<or> ms \<noteq> []"
  shows "first' \<noteq> None \<or> rs' \<noteq> []"
  using assms
proof (induction rt annotate event idx rs first ms arbitrary: ts rule: plan_loop.induct)
  case (2 rt annotate event idx rs first m ms)
  show ?case
  proof (cases "ValidateTag m")
    case (Some err)
    with 2 show ?thesis by auto
  next
    case None
    then obtain location where loc: "Location rt m = Inr location" using "2.prems"(2) by (auto split: sum.splits)
    let ?t = "\<lparr>tg_location = location, tg_env = mr_env m, tg_writes_image_manifest = annotate \<and> WritesImageManifest m\<rparr>"
    obtain idx1 rs1 where add: "add_target rt event ?t idx rs = (idx1, rs1)" by fastforce
    then have g: "grouped rt event idx1 rs1 (ts @ [?t])" using grouped_add_target [OF "2.prems"(1), of ?t] by simp
    then have "rs1 \<noteq> []" by (auto simp: grouped_def)
    with "2.IH"(1) [OF None loc add [symmetric] g] "2.prems"(2) None loc add show ?thesis by simp
  qed
qed simp

lemma plan_event_nonempty: "plan_event rt rules annotate event = Inr p \<Longrightarrow> ep_repositories p \<noteq> []"
proof -
  assume plan: "plan_event rt rules annotate event = Inr p"
  then obtain ms rs first where ms: "Matches rules event = Inr ms"
      "plan_loop rt annotate event Map.empty [] None ms = Inr (rs, first)"
    by (auto simp: plan_event_def split: sum.splits)
  then have "ms \<noteq> []" by (auto simp: Matches_def Let_def split: if_splits)
  with plan_loop_first [OF grouped_Nil ms(2)] have "first \<noteq> None \<or> rs \<noteq> []" by simp
  then have "rs \<noteq> []" using plan ms by (auto simp: plan_event_def split: option.splits)
  then show ?thesis
    using plan ms map_result_length by (fastforce simp: plan_event_def split: sum.splits)
qed

lemma list_all2_map_eq:
  "list_all2 P xs ys \<Longrightarrow> (\<And>x y. x \<in> set xs \<Longrightarrow> P x y \<Longrightarrow> f x = g y) \<Longrightarrow> map f xs = map g ys"
  by (induction xs ys rule: list_all2_induct) auto

lemma grouped_keys:
  assumes "grouped rt event idx rs ts"
  shows "plan_key rt ` set rs = target_key rt ` set ts"
proof
  show "plan_key rt ` set rs \<subseteq> target_key rt ` set ts"
  proof
    fix k assume "k \<in> plan_key rt ` set rs"
    then obtain r where r: "r \<in> set rs" "k = plan_key rt r" by blast
    then have "rp_targets r \<noteq> [] \<and> rp_targets r = filter (\<lambda>t. target_key rt t = plan_key rt r) ts"
      using assms unfolding grouped_def by blast
    then have "filter (\<lambda>t. target_key rt t = k) ts \<noteq> []" unfolding r(2) by (rule conjE) (erule subst)
    then show "k \<in> target_key rt ` set ts" by (auto simp: filter_empty_conv)
  qed
  show "target_key rt ` set ts \<subseteq> plan_key rt ` set rs"
  proof
    fix k assume "k \<in> target_key rt ` set ts"
    then obtain t where t: "t \<in> set ts" "k = target_key rt t" by blast
    then obtain r where "r \<in> set rs" "plan_key rt r = target_key rt t"
      using assms unfolding grouped_def by blast
    with t(2) show "k \<in> plan_key rt ` set rs" by (metis imageI)
  qed
qed

section \<open>Properties\<close>

text \<open>
  C17. A plan has one transaction per manifest repository, in the order of their keys, and covers every
  target of the rules that accept the tag: in each transaction the directories are distinct and in
  order, what each is patched with is exactly what the rules ask for that repository, the environment
  is the list of the environments of its targets, and the branch is one that is not refused.
\<close>
theorem plan_event_groups:
  assumes "plan_event rt rules annotate event = Inr p"
  shows "ep_event p = event \<and> ep_repositories p \<noteq> [] \<and> sorted_wrt (<) (map (plan_key rt) (ep_repositories p)) \<and>
    list_all (repository_ok rt event (event_targets rt rules annotate event)) (ep_repositories p) \<and>
    target_key rt ` set (event_targets rt rules annotate event) = plan_key rt ` set (ep_repositories p)"
proof -
  note ne = plan_event_nonempty [OF assms]
  obtain ms rs first idx where p: "Matches rules event = Inr ms" "grouped rt event idx rs (accepted rt annotate ms)"
    "ep_event p = event" "map_result (finish_repository rt event) (sort_key (plan_key rt) rs) = Inr (ep_repositories p)"
    using plan_event_Inr [OF assms ne] by metis
  let ?ts = "accepted rt annotate ms"
  have ts: "event_targets rt rules annotate event = ?ts" using p(1) by (simp add: event_targets_def)
  have fin: "list_all2 (\<lambda>r0 r. finish_repository rt event r0 = Inr r) (sort_key (plan_key rt) rs) (ep_repositories p)"
    using p(4) by (simp add: map_result_Inr)
  have step: "repository_ok rt event ?ts r \<and> rp_location r = rp_location r0"
    if "r0 \<in> set rs" "finish_repository rt event r0 = Inr r" for r0 r
    using p(2) that finish_repository_Inr [OF that(2)] unfolding grouped_def by blast
  have keys: "map (plan_key rt) (ep_repositories p) = map (plan_key rt) (sort_key (plan_key rt) rs)"
    using step by (intro list_all2_map_eq [OF fin, symmetric]) auto
  have "distinct (map (plan_key rt) rs)"
    using p(2) unfolding grouped_def distinct_conv_nth by (metis length_map nth_map option.inject)
  then have "distinct (map (plan_key rt) (sort_key (plan_key rt) rs))" by (simp add: distinct_map)
  then have sorted: "sorted_wrt (<) (map (plan_key rt) (ep_repositories p))"
    unfolding keys by (simp add: strict_sorted_iff)
  have ok: "list_all (repository_ok rt event ?ts) (ep_repositories p)"
    unfolding list_all_iff
  proof
    fix r assume "r \<in> set (ep_repositories p)"
    then obtain r0 where "r0 \<in> set (sort_key (plan_key rt) rs)" "finish_repository rt event r0 = Inr r"
      using list_all2_right [OF fin] by blast
    then show "repository_ok rt event ?ts r" using step by simp
  qed
  have "plan_key rt ` set (ep_repositories p) = plan_key rt ` set rs"
    using keys by (metis list.set_map set_sort)
  also have "\<dots> = target_key rt ` set ?ts" by (rule grouped_keys [OF p(2)])
  finally show ?thesis using ne p(3) sorted ok ts by simp
qed

text \<open>
  Normalising the targets of a repository fails exactly when two of them name the same directory
  with different environments or a different choice about the metadata block, which is an incomplete
  rule; otherwise every directory is kept once, in order, with what it is patched with.
\<close>
lemma normalizeManifestTargets_exact:
  "case normalizeManifestTargets url ts of
     Inl e \<Rightarrow> conflict ts \<and> incomplete_error e
   | Inr us \<Rightarrow> \<not> conflict ts \<and> strictly_sorted_dirs us \<and> set us \<subseteq> set ts \<and> target_view ` set us = target_view ` set ts"
  using normalize_ok [of ts url] by (auto simp: incomplete_error_def split: sum.splits)

section \<open>The identity behind a branch\<close>

text \<open>What is hashed into the name of a branch, as a list of its parts.\<close>

definition branch_identity :: "runtime \<Rightarrow> image_push_event \<Rightarrow> string \<Rightarrow> repository_plan \<Rightarrow> string list" where
  "branch_identity rt event env target =
     (if length (rp_targets target) = 1
      then [ev_host event, ev_repository event, ml_repository_url (tg_location (rp_targets target ! 0)),
        ml_dir (tg_location (rp_targets target ! 0)), env, ev_tag event]
      else [ev_host event, ev_repository event, to_lower rt (ml_owner (rp_location target)),
        to_lower rt (ml_repository (rp_location target)), ev_tag event] @
        concat (map (\<lambda>t. [tg_dir t, tg_env t]) (rp_targets target)))"

lemma repositoryBranchName_digest:
  "repositoryBranchName rt event env target =
     branchFormat (replace_all ''/'' ''_'' (imageName (ev_repository event))) env (ev_tag event)
       (take 8 (sha256 rt (join_with nul (branch_identity rt event env target))))"
proof -
  have "join_with nul ([h, r, a @ nul @ b, t] @ rest) = join_with nul ([h, r, a, b, t] @ rest)" for h r a b t rest
    by (simp add: join_Cons)
  then show ?thesis
    by (simp add: repositoryBranchName_def branchName_def branch_identity_def tg_dir_def manifestRepositoryKey_def Let_def
        join_Cons)
qed

lemma hex_digit_inj: "a < 16 \<Longrightarrow> b < 16 \<Longrightarrow> hex_digit a = hex_digit b \<Longrightarrow> a = b"
proof -
  have "byte (hex_digit n) = (if n < 10 then 48 + n else 87 + n)" if "n < 16" for n
    using that by (simp add: hex_digit_def)
  moreover assume "a < 16" "b < 16" "hex_digit a = hex_digit b"
  ultimately have "(if a < 10 then 48 + a else 87 + a) = (if b < 10 then 48 + b else 87 + b)" by metis
  then show "a = b" by (auto split: if_splits)
qed

lemma hex_string_Cons: "hex_string (c # s) = hex_digit (byte c div 16) # hex_digit (byte c mod 16) # hex_string s"
  by (simp add: hex_string_def)

lemma hex_string_inj: "hex_string s = hex_string t \<Longrightarrow> s = t"
proof (induction s arbitrary: t)
  case Nil
  then show ?case by (cases t) (simp_all add: hex_string_Cons hex_string_def)
next
  case (Cons c s)
  then obtain d u where t: "t = d # u" by (cases t) (auto simp: hex_string_Cons hex_string_def)
  with Cons.prems have "hex_digit (byte c div 16) = hex_digit (byte d div 16)" "hex_digit (byte c mod 16) = hex_digit (byte d mod 16)"
      "hex_string s = hex_string u" by (simp_all add: hex_string_Cons)
  moreover have "byte c div 16 < 16" "byte d div 16 < 16" using byte_less [of c] byte_less [of d] by linarith+
  ultimately have "byte c div 16 = byte d div 16" "byte c mod 16 = byte d mod 16" "s = u"
    using Cons.IH by (simp_all add: hex_digit_inj)
  then have "byte c = byte d" by (metis mult_div_mod_eq)
  with \<open>s = u\<close> t show ?case by (simp add: byte_eq_iff)
qed

lemma length_hex_string: "length (hex_string s) = 2 * length s"
  by (induction s) (simp_all add: hex_string_Cons, simp add: hex_string_def)

lemma branchFormat_digest:
  assumes "branchFormat n e t d = branchFormat n' e' t' d'" and "length d = length d'"
  shows "d = d'"
proof -
  have "branchFormat n e t d = (''image_updater_'' @ n @ ''_'' @ e @ ''_'' @ t @ ''_'') @ hex_string d" for n e t d
    by (simp add: branchFormat_def)
  then have "hex_string d = hex_string d'"
    using assms append_eq_append_conv [of _ _ "hex_string d" "hex_string d'"] by (metis length_hex_string)
  then show ?thesis by (rule hex_string_inj)
qed

definition no_nul :: "string list \<Rightarrow> bool" where
  "no_nul ws \<longleftrightarrow> list_all (\<lambda>w. CHR 0x00 \<notin> set w) ws"

text \<open>
  C18. The branch identifies the update: as long as the first eight bytes of the digest tell the two
  hashed texts apart, equal branch names mean the same host, image, manifest repository, directories,
  environments and tag. No two repositories with similar names can collapse onto one branch.
\<close>
theorem branch_identifies_update:
  assumes "runtime_ok rt" and "no_nul (branch_identity rt event env target)" and "no_nul (branch_identity rt event' env' target')"
    and "take 8 (sha256 rt (join_with nul (branch_identity rt event env target))) =
      take 8 (sha256 rt (join_with nul (branch_identity rt event' env' target'))) \<Longrightarrow>
      join_with nul (branch_identity rt event env target) = join_with nul (branch_identity rt event' env' target')"
    and "repositoryBranchName rt event env target = repositoryBranchName rt event' env' target'"
  shows "branch_identity rt event env target = branch_identity rt event' env' target'"
proof -
  let ?i = "branch_identity rt event env target" and ?j = "branch_identity rt event' env' target'"
  have "length (take 8 (sha256 rt s)) = 8" for s using assms(1) by (simp add: runtime_ok_def)
  then have "join_with nul ?i = join_with nul ?j"
    using branchFormat_digest assms(4,5) unfolding repositoryBranchName_digest by metis
  moreover have "?i \<noteq> []" "?j \<noteq> []" by (simp_all add: branch_identity_def)
  ultimately show ?thesis
    using assms(2,3) split_join [of _ "CHR 0x00"] unfolding no_nul_def list_all_iff nul_def by metis
qed

text \<open>An event that cannot be planned is done with: no error of the plan asks for a retry.\<close>

lemma Location_error: "Location rt m = Inl e \<Longrightarrow> \<not> errors_is ErrRetryable e"
  by (rule Location_cases [of rt m])
    (auto dest!: parseManifestURL_error simp: incomplete_error_def)

lemma plan_loop_errors:
  assumes "case first of None \<Rightarrow> True | Some e \<Rightarrow> \<not> errors_is ErrRetryable e"
  shows "case plan_loop rt annotate event idx rs first ms of
      Inl e \<Rightarrow> \<not> errors_is ErrRetryable e
    | Inr (rs', first') \<Rightarrow> (case first' of None \<Rightarrow> True | Some e \<Rightarrow> \<not> errors_is ErrRetryable e)"
  using assms
proof (induction rt annotate event idx rs first ms rule: plan_loop.induct)
  case (2 rt annotate event idx rs first m ms)
  show ?case
  proof (cases "ValidateTag m")
    case (Some err)
    then have "\<not> errors_is ErrRetryable err" using ValidateTag_error by auto
    with 2 Some show ?thesis by (auto split: option.splits)
  next
    case None
    with 2 show ?thesis by (cases "Location rt m") (auto dest: Location_error split: prod.splits)
  qed
qed simp

lemma plan_event_error: "plan_event rt rules annotate event = Inl e \<Longrightarrow> \<not> errors_is ErrRetryable e"
proof -
  have finish: "\<not> errors_is ErrRetryable e" if "finish_repository rt event r0 = Inl e" for r0
    using that normalize_ok [of "rp_targets r0" "ml_repository_url (rp_location r0)"]
    by (auto simp: finish_repository_def validateBranch_def invalid_ref_def Let_def split: sum.splits option.splits if_splits)
  have mapped: "\<not> errors_is ErrRetryable e" if "map_result (finish_repository rt event) xs = Inl e" for xs
    using that finish by (induction xs) (auto split: sum.splits)
  assume plan: "plan_event rt rules annotate event = Inl e"
  show ?thesis
  proof (cases "Matches rules event")
    case (Inl e')
    with plan show ?thesis by (auto simp: plan_event_def Matches_def Let_def split: if_splits)
  next
    case (Inr ms)
    with plan plan_loop_errors [of None rt annotate event Map.empty "[]" ms] mapped show ?thesis
      by (auto simp: plan_event_def split: sum.splits option.splits if_splits)
  qed
qed

section \<open>A plan to evaluate\<close>

definition sample_target :: manifest_target where
  "sample_target = \<lparr>tg_location = location_at ''o'' ''r'' [''x''], tg_env = ''dev'', tg_writes_image_manifest = False\<rparr>"

definition sample_repository :: repository_plan where
  "sample_repository = \<lparr>rp_event = sample_event ''x'' ''v1'', rp_location = location_at ''o'' ''r'' [''x''],
     rp_targets = [sample_target], rp_env = ''dev'', rp_branch = ''image_updater_x_dev_v1_0000000000000000''\<rparr>"

lemma sample_location:
  "Location sample_runtime \<lparr>mr_compiled = sample_compiled, mr_event = sample_event ''x'' ''v1''\<rparr> =
     Inr (location_at ''o'' ''r'' [''x''])"
  by (simp add: Location_def variables_def sample_compiled_def sample_rule_def sample_event_def text_eval
      rule_eval Let_def unsafe_capture_def path_marks_def mr_rule_def expandVariables_def
      sample_runtime_def order_by_length_def capture_value_def parseManifestURL_def url_eval
      validateManifestPath_def path_join_def path_clean_def char_of_slash location_at_def)

lemma sample_digest: "hex_string (take 8 (sha256 sample_runtime s)) = ''0000000000000000''"
proof -
  have "hex_digit 0 = CHR ''0''" by (simp add: hex_digit_def flip: byte_eq_iff) (simp add: byte_def)
  then show ?thesis by (simp add: sample_runtime_def hex_string_def byte_def) (simp add: numeral_eq_Suc)
qed

lemma sample_names: "imageName ''a/x'' = ''x''" "replace_all ''/'' ''_'' ''x'' = ''x''"
  by (simp_all add: imageName_def trim_def trim_left_def trim_right_def Let_def)

lemma sample_plan_ok:
  "plan_event sample_runtime [sample_compiled] False (sample_event ''x'' ''v1'') =
     Inr \<lparr>ep_event = sample_event ''x'' ''v1'', ep_repositories = [sample_repository]\<rparr>"
proof -
  have event: "ev_repository (sample_event ''x'' ''v1'') = ''a/x''" "ev_tag (sample_event ''x'' ''v1'') = ''v1''"
    by (simp_all add: sample_event_def)
  let ?m = "\<lparr>mr_compiled = sample_compiled, mr_event = sample_event ''x'' ''v1''\<rparr>"
  let ?r = "\<lparr>rp_event = sample_event ''x'' ''v1'', rp_location = location_at ''o'' ''r'' [''x''],
     rp_targets = [sample_target], rp_env = [], rp_branch = []\<rparr>"
  have m: "Matches [sample_compiled] (sample_event ''x'' ''v1'') = Inr [?m]" by (rule sample_match) simp
  have "ValidateTag ?m = None"
    by (simp add: ValidateTag_def sample_compiled_def sample_rule_def sample_event_def tm_empty_def tm_matches_def)
  moreover have "mr_env ?m = ''dev''" by (simp add: mr_env_def mr_rule_def sample_compiled_def sample_rule_def)
  ultimately have loop: "plan_loop sample_runtime False (sample_event ''x'' ''v1'') Map.empty [] None [?m] = Inr ([?r], None)"
    by (simp add: sample_location add_target_def sample_target_def Let_def)
  have branch: "branchFormat ''x'' ''dev'' ''v1'' (take 8 (sha256 sample_runtime s)) = ''image_updater_x_dev_v1_0000000000000000''" for s
    by (simp add: branchFormat_def sample_digest)
  have valid: "validateBranch ''image_updater_x_dev_v1_0000000000000000'' = None"
    by (simp add: validateBranch_def has_suffix_def contains_any_iff invalidBranchCharacters_def)
  have "finish_repository sample_runtime (sample_event ''x'' ''v1'') ?r = Inr sample_repository"
    by (simp add: finish_repository_def normalizeManifestTargets_def sample_target_def repositoryBranchName_def branchName_def
        event sample_names branch valid Let_def)
      (simp add: sample_repository_def sample_target_def)
  with m loop show ?thesis by (simp add: plan_event_def)
qed

theorem plan_event_groups_witness:
  "repository_ok sample_runtime (sample_event ''x'' ''v1'')
     (event_targets sample_runtime [sample_compiled] False (sample_event ''x'' ''v1'')) sample_repository"
  using plan_event_groups [OF sample_plan_ok] by simp

theorem branch_identifies_update_witness:
  "branch_identity sample_runtime (sample_event ''x'' ''v1'') ''dev'' sample_repository =
   branch_identity sample_runtime (sample_event ''x'' ''v1'') ''dev'' (sample_repository\<lparr>rp_branch := [], rp_env := ''q''\<rparr>)"
proof (rule branch_identifies_update [OF runtime_ok_sample])
  show "no_nul (branch_identity sample_runtime (sample_event ''x'' ''v1'') ''dev'' sample_repository)"
    "no_nul (branch_identity sample_runtime (sample_event ''x'' ''v1'') ''dev'' (sample_repository\<lparr>rp_branch := [], rp_env := ''q''\<rparr>))"
    by (simp_all add: no_nul_def branch_identity_def sample_repository_def sample_target_def sample_event_def location_at_def
        path_join_def path_clean_def)
qed (simp_all add: repositoryBranchName_def branch_identity_def sample_repository_def)

text \<open>
  Finding. Git refuses every control character and the at sign before an opening brace in a ref; of the control characters
  validateBranch refuses the tab and the delete character only.
\<close>
lemma validateBranch_accepts_control:
  "validateBranch (''image_updater_x_a'' @ [newline] @ ''b_v1_00'') = None" "validateBranch (''image_updater_x_@'' @ [CHR 0x7B] @ ''_v1_00'') = None"
  by (simp_all add: validateBranch_def has_suffix_def contains_any_iff invalidBranchCharacters_def newline_def)

end
