(* ===== verification/Go_Quote.thy ===== *)
theory Go_Quote
  imports Go_Strings
begin

text \<open>
  \<open>strconv.Quote\<close>: a string as a double quoted Go literal. A byte that is not valid UTF-8 is written as
  \<open>\x\<close> and two hexadecimal digits, a printable rune as it is, the usual control characters by letter
  and everything else by its code. The quote and the backslash are escaped by a backslash.
\<close>

definition backslash :: char where "backslash = CHR 92"
definition dquote :: char where "dquote = CHR 34"
definition squote :: char where "squote = CHR 39"

definition hex_fixed :: "nat \<Rightarrow> nat \<Rightarrow> string" where
  "hex_fixed k n = map (\<lambda>i. hex_digit (n div 16 ^ i mod 16)) (rev [0..<k])"

definition control_escape :: "nat \<Rightarrow> char option" where
  "control_escape r = map_of [(7, CHR ''a''), (8, CHR ''b''), (12, CHR ''f''), (10, CHR ''n''),
     (13, CHR ''r''), (9, CHR ''t''), (11, CHR ''v'')] r"

text \<open>The escape of one token of the string: a rune and the bytes it was read from.\<close>

definition quote_token :: "runtime \<Rightarrow> nat \<times> string \<Rightarrow> string" where
  "quote_token rt t = (case t of (r, bs) \<Rightarrow>
     if r = rune_error \<and> length bs = 1 then [backslash, CHR ''x''] @ hex_fixed 2 (byte (hd bs))
     else if r = 34 \<or> r = 92 then [backslash] @ encode_rune r
     else if is_print rt r then encode_rune r
     else (case control_escape r of
        Some c \<Rightarrow> [backslash, c]
      | None \<Rightarrow>
          if r < 32 \<or> r = 127 then [backslash, CHR ''x''] @ hex_fixed 2 r
          else if r < 65536 then [backslash, CHR ''u''] @ hex_fixed 4 r
          else [backslash, CHR ''U''] @ hex_fixed 8 r))"

definition go_quote :: "runtime \<Rightarrow> string \<Rightarrow> string" where
  "go_quote rt s = [dquote] @ concat (map (quote_token rt) (utf8_tokens s)) @ [dquote]"

text \<open>
  The text between the quotes is a sequence of plain bytes and of escapes of a backslash and one more
  byte, none of which is a line break: that is what a reader that skips the byte after a backslash
  relies on to find the closing quote.
\<close>

inductive escaped_text :: "string \<Rightarrow> bool" where
  Nil: "escaped_text []"
| Plain: "escaped_text s \<Longrightarrow> c \<noteq> dquote \<Longrightarrow> c \<noteq> backslash \<Longrightarrow> escaped_text (c # s)"
| Escape: "escaped_text s \<Longrightarrow> escaped_text (backslash # c # s)"

lemma escaped_text_append: "escaped_text s \<Longrightarrow> escaped_text t \<Longrightarrow> escaped_text (s @ t)"
  by (induction s rule: escaped_text.induct) (auto intro: escaped_text.intros)

lemma escaped_text_plain: "dquote \<notin> set s \<Longrightarrow> backslash \<notin> set s \<Longrightarrow> escaped_text s"
  by (induction s) (auto intro: escaped_text.intros)

lemma marks_distinct [simp]:
  "backslash \<noteq> dquote" "dquote \<noteq> backslash" "squote \<noteq> dquote" "squote \<noteq> backslash"
  "dquote \<noteq> squote" "backslash \<noteq> squote"
  by (simp_all add: backslash_def dquote_def squote_def)

lemma hex_fixed_plain: "escaped_text (hex_fixed k n)"
proof (rule escaped_text_plain)
  have "c \<in> set hex_chars" if "c \<in> set (hex_fixed k n)" for c
    using that hex_digit_in by (auto simp: hex_fixed_def)
  moreover have "dquote \<notin> set hex_chars" "backslash \<notin> set hex_chars"
    by (simp_all add: hex_chars_def dquote_def backslash_def)
  ultimately show "dquote \<notin> set (hex_fixed k n)" "backslash \<notin> set (hex_fixed k n)" by blast+
qed

text \<open>The encoding of a rune holds an ASCII byte only when the rune is that byte.\<close>

lemma encode_rune_bytes:
  assumes "valid_rune r" and "c \<in> set (encode_rune r)" and "byte c < 128"
  shows "r = byte c"
proof -
  have "runes (encode_rune r) = [r]" using runes_encode [of "[r]"] assms(1) by simp
  moreover have "byte c \<in> set (runes (encode_rune r))" using assms(2,3) by (intro ascii_byte_rune)
  ultimately show ?thesis by simp
qed

lemma quote_token_escaped:
  assumes "valid_rune (fst t)"
  shows "escaped_text (quote_token rt t)"
proof -
  obtain r bs where t: "t = (r, bs)" by (cases t)
  have code: "escaped_text ([backslash, c] @ hex_fixed k n)" for c k n
    using escaped_text.Escape [OF hex_fixed_plain] by simp
  have byte_marks: "byte dquote = 34" "byte backslash = 92" by (simp_all add: byte_def dquote_def backslash_def)
  have plain: "escaped_text (encode_rune r)" if "r \<noteq> 34" "r \<noteq> 92"
    using that assms t encode_rune_bytes [of r dquote] encode_rune_bytes [of r backslash] byte_marks
    by (intro escaped_text_plain) auto
  have mark: "escaped_text (backslash # encode_rune r)" if "r = 34 \<or> r = 92"
    using that escaped_text.Escape [OF escaped_text.Nil] by (auto simp: encode_rune_ascii)
  have letter: "escaped_text [backslash, c]" for c
    using escaped_text.Escape [OF escaped_text.Nil] by simp
  show ?thesis
    unfolding quote_token_def t using code plain mark letter
    by (simp split: option.splits)
qed

lemma go_quote_escaped: "\<exists>body. go_quote rt s = dquote # body @ [dquote] \<and> escaped_text body"
proof -
  have "escaped_text (concat (map (quote_token rt) ts))" if "set ts \<subseteq> set (utf8_tokens s)" for ts
    using that
  proof (induction ts)
    case (Cons t ts)
    then have "valid_rune (fst t)" using runes_valid [of "fst t" s] by (auto simp: runes_def)
    with Cons show ?case by (simp add: escaped_text_append quote_token_escaped)
  qed (simp add: escaped_text.Nil)
  then show ?thesis by (auto simp: go_quote_def)
qed

end
