(* ===== verification/Replace_Tag.thy ===== *)
theory Replace_Tag
  imports Events
begin

text \<open>
  The pure part of \<open>internal/infrastructure/manifest/kustomize/patcher.go\<close>: which entries of the images
  block refer to the pushed image, what becomes of their tags, which entries changed, and how a
  directory is matched against a recursive pattern. \<open>image_entry\<close> has the fields of
  \<open>types.Image\<close> of the kustomize API.
\<close>

record image_entry =
  ie_name :: string
  ie_new_name :: string
  ie_tag_suffix :: string
  ie_new_tag :: string
  ie_digest :: string

definition tagPieceSeparator :: char where "tagPieceSeparator = CHR ''.''"

text \<open>A container runtime reads a first segment with a dot or a colon, or \<open>localhost\<close>, as a host.\<close>

definition isRegistryHost :: "string \<Rightarrow> bool" where
  "isRegistryHost segment \<longleftrightarrow> contains_any ''.:'' segment \<or> segment = ''localhost''"

definition repositoryPath :: "string \<Rightarrow> string" where
  "repositoryPath img =
     (let name = before_char (CHR ''@'') img;
          segments0 = split_on (CHR ''/'') name;
          segments = (if 1 < length segments0 \<and> isRegistryHost (hd segments0) then tl segments0 else segments0)
      in join_with ''/'' (butlast segments @ [before_char (CHR '':'') (last segments)]))"

definition tagIdentifier :: "string \<Rightarrow> string" where
  "tagIdentifier tag = before_char tagPieceSeparator tag"

text \<open>The body of the loop of \<open>replaceTag\<close>: the entry to append, and whether \<open>found\<close> is set.\<close>

definition replace_entry :: "string \<Rightarrow> string \<Rightarrow> image_entry \<Rightarrow> image_entry \<times> bool" where
  "replace_entry target newTag entry =
     (if repositoryPath (ie_name entry) \<noteq> target then (entry, False)
      else if tagPieceSeparator \<in> set newTag
      then (if tagIdentifier (ie_new_tag entry) = tagIdentifier newTag
            then (entry\<lparr>ie_new_tag := newTag\<rparr>, True) else (entry, False))
      else if ie_new_tag entry = newTag then (entry, True)
      else if tagPieceSeparator \<notin> set (ie_new_tag entry) then (entry\<lparr>ie_new_tag := newTag\<rparr>, True)
      else (entry, True))"

fun replace_loop :: "string \<Rightarrow> string \<Rightarrow> bool \<Rightarrow> image_entry list \<Rightarrow> image_entry list \<Rightarrow> bool \<times> image_entry list" where
  "replace_loop target newTag found updated [] = (found, updated)"
| "replace_loop target newTag found updated (entry # entries) =
     (case replace_entry target newTag entry of (entry', hit) \<Rightarrow>
        replace_loop target newTag (found \<or> hit) (updated @ [entry']) entries)"

definition replaceTag :: "image_entry list \<Rightarrow> string \<Rightarrow> string \<Rightarrow> (go_error, image_entry list) result" where
  "replaceTag images img newTag =
     (case replace_loop (repositoryPath img) newTag False [] images of (found, updated) \<Rightarrow>
        if \<not> found then Inl (Errorf ''%w: no %s entry refers to %s'' [AStr ''kustomization.yaml'', AStr img] [Sentinel ErrImageNotManaged])
        else Inr updated)"

text \<open>The Go map of changed indexes, as the list of its entries by ascending index.\<close>

fun changed_from :: "nat \<Rightarrow> image_entry list \<Rightarrow> image_entry list \<Rightarrow> (nat \<times> string) list" where
  "changed_from i (o1 # os) (u # us) =
     (if ie_new_tag o1 \<noteq> ie_new_tag u then (i, ie_new_tag u) # changed_from (Suc i) os us
      else changed_from (Suc i) os us)"
| "changed_from i os us = []"

definition changedNewTags :: "image_entry list \<Rightarrow> image_entry list \<Rightarrow> (nat \<times> string) list" where
  "changedNewTags original updated = changed_from 0 original updated"

section \<open>Recursive directory patterns\<close>

definition splitManifestPath :: "string \<Rightarrow> string list" where
  "splitManifestPath value0 =
     (let value = trim ''/'' value0 in
      if value = [] \<or> value = ''.'' then [] else split_on (CHR ''/'') value)"

fun match_prefix :: "nat \<Rightarrow> string list \<Rightarrow> string list \<Rightarrow> bool" where
  "match_prefix (Suc n) (p # ps) (c # cs) = (if p \<noteq> c then False else match_prefix n ps cs)"
| "match_prefix n ps cs = True"

text \<open>The second loop compares from the end: the first \<open>n\<close> of the reversed lists.\<close>

definition matchesRecursiveManifestPath :: "string list \<Rightarrow> string list \<Rightarrow> nat \<Rightarrow> bool" where
  "matchesRecursiveManifestPath pat candidate wildcard =
     (let fixedSegments = length pat - 1 in
      if length candidate < fixedSegments then False
      else if \<not> match_prefix wildcard pat candidate then False
      else (let suffixLength = length pat - wildcard - 1 in
        match_prefix suffixLength (rev pat) (rev candidate)))"

section \<open>Replacing the tag\<close>

lemma replace_loop_map:
  "replace_loop target newTag found updated es =
     (found \<or> (\<exists>e\<in>set es. snd (replace_entry target newTag e)),
      updated @ map (\<lambda>e. fst (replace_entry target newTag e)) es)"
  by (induction es arbitrary: found updated) (auto split: prod.splits)

text \<open>Declaratively: an entry of the repository is updated when its tag belongs to the same stream.\<close>

definition same_repository :: "string \<Rightarrow> image_entry \<Rightarrow> bool" where
  "same_repository img e \<longleftrightarrow> repositoryPath (ie_name e) = repositoryPath img"

definition same_stream :: "string \<Rightarrow> string \<Rightarrow> bool" where
  "same_stream newTag old \<longleftrightarrow>
     (if tagPieceSeparator \<in> set newTag then tagIdentifier old = tagIdentifier newTag
      else tagPieceSeparator \<notin> set old)"

definition managed :: "string \<Rightarrow> string \<Rightarrow> image_entry \<Rightarrow> bool" where
  "managed img newTag e \<longleftrightarrow> same_repository img e \<and>
     (tagPieceSeparator \<in> set newTag \<longrightarrow> tagIdentifier (ie_new_tag e) = tagIdentifier newTag)"

definition retagged :: "string \<Rightarrow> string \<Rightarrow> image_entry \<Rightarrow> image_entry" where
  "retagged img newTag e =
     (if same_repository img e \<and> same_stream newTag (ie_new_tag e) then e\<lparr>ie_new_tag := newTag\<rparr> else e)"

lemma replace_entry_eq:
  "replace_entry (repositoryPath img) newTag e = (retagged img newTag e, managed img newTag e)"
  by (cases e) (auto simp: replace_entry_def retagged_def managed_def same_repository_def same_stream_def)

lemma replaceTag_eq:
  "replaceTag images img newTag =
     (if list_ex (managed img newTag) images then Inr (map (retagged img newTag) images)
      else Inl (Errorf ''%w: no %s entry refers to %s'' [AStr ''kustomization.yaml'', AStr img] [Sentinel ErrImageNotManaged]))"
  by (simp add: replaceTag_def replace_loop_map replace_entry_eq list_ex_iff)

lemma same_stream_self: "same_stream newTag newTag"
  by (simp add: same_stream_def)

lemma new_tag_retagged:
  "ie_new_tag (retagged img newTag e) =
     (if same_repository img e \<and> same_stream newTag (ie_new_tag e) then newTag else ie_new_tag e)"
  by (simp add: retagged_def)

lemma retagged_idem [simp]: "retagged img newTag (retagged img newTag e) = retagged img newTag e"
  by (simp add: retagged_def same_repository_def same_stream_self)

lemma managed_retagged [simp]: "managed img newTag (retagged img newTag e) = managed img newTag e"
  by (auto simp: retagged_def managed_def same_repository_def same_stream_def)

lemma replaceTag_again: "replaceTag images img newTag = Inr us \<Longrightarrow> replaceTag us img newTag = Inr us"
  by (auto simp: replaceTag_eq list_ex_iff comp_def split: if_splits)

section \<open>The changed indexes\<close>

lemma changed_from_iff:
  "(j, t) \<in> set (changed_from i os us) \<longleftrightarrow>
     (\<exists>k. j = i + k \<and> k < length os \<and> k < length us \<and> ie_new_tag (os ! k) \<noteq> ie_new_tag (us ! k) \<and> t = ie_new_tag (us ! k))"
proof (induction i os us rule: changed_from.induct)
  case (1 i o1 os u us)
  have split: "(\<exists>k. P k) \<longleftrightarrow> P 0 \<or> (\<exists>k. P (Suc k))" for P :: "nat \<Rightarrow> bool"
    by (metis not0_implies_Suc)
  show ?case
    by (subst split) (auto simp: 1)
qed auto

lemma changed_from_sorted: "sorted_wrt (<) (map fst (changed_from i os us)) \<and> (\<forall>j\<in>fst ` set (changed_from i os us). i \<le> j)"
proof (induction i os us rule: changed_from.induct)
  case (1 i o1 os u us)
  have "Suc i \<le> j \<Longrightarrow> i \<le> j" for j by simp
  with 1 show ?case by (auto simp: Suc_le_eq) fastforce+
qed auto

lemma changed_from_self [simp]: "changed_from i us us = []"
  by (induction us arbitrary: i) auto

lemma changedNewTags_iff:
  "(i, t) \<in> set (changedNewTags os us) \<longleftrightarrow>
     i < length os \<and> i < length us \<and> ie_new_tag (os ! i) \<noteq> ie_new_tag (us ! i) \<and> t = ie_new_tag (us ! i)"
  by (simp add: changedNewTags_def changed_from_iff)

lemma changedNewTags_replaceTag:
  assumes "replaceTag images img newTag = Inr us"
  shows "(i, t) \<in> set (changedNewTags images us) \<longleftrightarrow>
     i < length images \<and> t = newTag \<and> same_repository img (images ! i) \<and>
     same_stream newTag (ie_new_tag (images ! i)) \<and> ie_new_tag (images ! i) \<noteq> newTag"
proof -
  have "us = map (retagged img newTag) images" using assms by (auto simp: replaceTag_eq split: if_splits)
  then show ?thesis
    by (cases "i < length images") (auto simp: changedNewTags_iff new_tag_retagged split: if_splits)
qed

section \<open>Matching a recursive pattern\<close>

lemma match_prefix_iff:
  "n \<le> length ps \<Longrightarrow> n \<le> length cs \<Longrightarrow> match_prefix n ps cs \<longleftrightarrow> take n ps = take n cs"
  by (induction n ps cs rule: match_prefix.induct) auto

lemma matchesRecursive_iff:
  assumes "wildcard < length pat"
  shows "matchesRecursiveManifestPath pat candidate wildcard \<longleftrightarrow>
    (\<exists>mid. candidate = take wildcard pat @ mid @ drop (Suc wildcard) pat)"
proof (cases "length candidate < length pat - 1")
  case True
  have "length (take wildcard pat @ mid @ drop (Suc wildcard) pat) \<ge> length pat - 1" for mid
    using assms by simp
  with True show ?thesis by (auto simp: matchesRecursiveManifestPath_def)
next
  case False
  let ?n = "length pat - wildcard - 1"
  have lens: "wildcard \<le> length candidate" "?n \<le> length candidate" "wildcard + ?n \<le> length candidate"
    using assms False by auto
  have "matchesRecursiveManifestPath pat candidate wildcard \<longleftrightarrow>
      take wildcard pat = take wildcard candidate \<and> drop (Suc wildcard) pat = drop (length candidate - ?n) candidate"
    using False assms lens by (simp add: matchesRecursiveManifestPath_def Let_def match_prefix_iff take_rev)
  also have "\<dots> \<longleftrightarrow> (\<exists>mid. candidate = take wildcard pat @ mid @ drop (Suc wildcard) pat)" (is "?L \<longleftrightarrow> ?R")
  proof
    assume ?L
    have "candidate = take wildcard candidate @ drop wildcard (take (length candidate - ?n) candidate) @
        drop (length candidate - ?n) candidate"
      using lens by (metis append_take_drop_id append_assoc le_add_diff_inverse add_diff_inverse_nat
          drop_take take_add take_take min.absorb1 diff_le_self add_le_imp_le_diff)
    with \<open>?L\<close> show ?R by metis
  next
    assume ?R
    then show ?L using assms by auto
  qed
  finally show ?thesis .
qed

section \<open>Properties\<close>

text \<open>
  The tag update touches exactly the entries of the pushed repository whose tag belongs to the
  stream of the new tag (the same identifier before the first dot, or no dot on either side), and of
  those only the tag; it fails with ErrImageNotManaged when no entry refers to the image.
\<close>
lemma replaceTag_stream:
  "replaceTag images img newTag =
     (if list_ex (managed img newTag) images
      then Inr (map (\<lambda>e. if same_repository img e \<and> same_stream newTag (ie_new_tag e)
                         then e\<lparr>ie_new_tag := newTag\<rparr> else e) images)
      else Inl (Errorf ''%w: no %s entry refers to %s'' [AStr ''kustomization.yaml'', AStr img]
                  [Sentinel ErrImageNotManaged]))"
  by (simp add: replaceTag_eq retagged_def)

text \<open>
  What is rewritten in the file is exactly what has to be: the changed indexes are those of the
  entries of the stream that do not carry the new tag yet, each with the new tag. Running the update
  on its own result succeeds and changes nothing, which is how a redelivered event is recognised.
\<close>
lemma changedNewTags_exact:
  "case replaceTag images img newTag of
     Inl e \<Rightarrow> errors_is ErrImageNotManaged e \<and> \<not> errors_is ErrRetryable e
   | Inr us \<Rightarrow>
       set (changedNewTags images us) = {(i, t). i < length images \<and> t = newTag \<and> same_repository img (images ! i) \<and>
         same_stream newTag (ie_new_tag (images ! i)) \<and> ie_new_tag (images ! i) \<noteq> newTag} \<and>
       replaceTag us img newTag = Inr us \<and> changedNewTags us us = []"
proof (cases "replaceTag images img newTag")
  case (Inl e)
  then show ?thesis by (auto simp: replaceTag_eq split: if_splits)
next
  case (Inr us)
  then show ?thesis
    using changedNewTags_replaceTag [OF Inr] replaceTag_again [OF Inr]
    by (auto simp: changedNewTags_def)
qed

text \<open>
  A directory matches a pattern with one recursive wildcard exactly when it is the pattern with the
  wildcard replaced by some segments, possibly none.
\<close>
lemma matchesRecursive_expansion:
  assumes "wildcard < length pat"
  shows "matchesRecursiveManifestPath pat candidate wildcard \<longleftrightarrow>
    (\<exists>mid. candidate = take wildcard pat @ mid @ drop (Suc wildcard) pat)"
  using assms by (rule matchesRecursive_iff)

lemma matchesRecursive_expansion_witness:
  "matchesRecursiveManifestPath [''a'', ''**'', ''b''] [''a'', ''x'', ''y'', ''b''] 1 \<and>
   \<not> matchesRecursiveManifestPath [''a'', ''**'', ''b''] [''b''] 1"
proof -
  have w: "1 < length [''a'', ''**'', ''b'']" by simp
  show ?thesis
    using matchesRecursive_expansion [OF w, of "[''a'', ''x'', ''y'', ''b'']"]
      matchesRecursive_expansion [OF w, of "[''b'']"] by simp
qed

end
