(* ===== verification/Document.thy ===== *)
theory Document
  imports Go_Quote Image_Manifest Replace_Tag
begin

text \<open>
  \<open>internal/infrastructure/manifest/kustomize/document.go\<close>: the line oriented view of a
  kustomization.yaml, in which only the lines that change are rewritten. The YAML library is a
  parameter: its parser, which returns nodes with their positions, its decoding of the images block,
  and whether a text decodes to a string.

  A Go slice or index expression out of range panics. Where the bounds do not follow from the code
  itself the operation returns an option, and \<open>None\<close> is the panic.
\<close>

section \<open>YAML nodes\<close>

datatype yaml_kind = DocumentNode | SequenceNode | MappingNode | ScalarNode | AliasNode

text \<open>Kind, style bits, value, line and column (both from one), children.\<close>

datatype yaml_node =
  YNode (yn_kind: yaml_kind) (yn_style: nat) (yn_value: string) (yn_line: int) (yn_column: int)
    (yn_content: "yaml_node list")

definition PlainStyle :: nat where "PlainStyle = 0"
definition DoubleQuotedStyle :: nat where "DoubleQuotedStyle = 2"
definition SingleQuotedStyle :: nat where "SingleQuotedStyle = 4"

record yaml_lib =
  yl_codec :: yaml_codec
  yl_unmarshal :: "string \<Rightarrow> yaml_node option"
  yl_images :: "yaml_node \<Rightarrow> image_entry list option"
  yl_is_string :: "string \<Rightarrow> bool option"

definition newTagField :: string where "newTagField = ''newTag''"

record kdoc =
  kd_lines :: "string list"
  kd_has_trailing_newline :: bool
  kd_images_key_line :: int
  kd_images_indent :: int
  kd_image_nodes :: "yaml_node list"
  kd_images :: "image_entry list"

definition plain_error :: "string \<Rightarrow> go_error" where
  "plain_error msg = Errorf msg [] []"

section \<open>Parsing\<close>

text \<open>The loop over the keys of a mapping: the first pair whose key has the value.\<close>

fun find_pair :: "string \<Rightarrow> yaml_node list \<Rightarrow> (yaml_node \<times> yaml_node) option" where
  "find_pair k (key # value # rest) = (if yn_value key = k then Some (key, value) else find_pair k rest)"
| "find_pair k content = None"

definition kd_parse :: "yaml_lib \<Rightarrow> string \<Rightarrow> (go_error, kdoc) result" where
  "kd_parse yl data =
     (case yl_unmarshal yl data of
        None \<Rightarrow> Inl (Errorf ''failed to unmarshal the kustomization file: %w'' [] [ErrorsNew ''yaml''])
      | Some root \<Rightarrow>
          (case yn_content root of
             [] \<Rightarrow> Inl (Errorf ''%w: the kustomization file is empty'' [] [Sentinel ErrImageNotManaged])
           | mapping # _ \<Rightarrow>
               if yn_kind mapping \<noteq> MappingNode then Inl (plain_error ''the kustomization file is not a mapping'')
               else (case find_pair ''images'' (yn_content mapping) of
                  None \<Rightarrow> Inl (Errorf ''%w: the kustomization file has no images block'' [] [Sentinel ErrImageNotManaged])
                | Some (key, val) \<Rightarrow>
                    if yn_kind val \<noteq> SequenceNode then Inl (plain_error ''the images key is not a sequence'')
                    else (case yl_images yl val of
                       None \<Rightarrow> Inl (Errorf ''failed to decode the images block: %w'' [] [ErrorsNew ''yaml''])
                     | Some images \<Rightarrow>
                         if yn_line key = 0
                         then Inl (Errorf ''%w: the kustomization file has no images block'' [] [Sentinel ErrImageNotManaged])
                         else Inr \<lparr>
                           kd_lines = split_on newline (if has_suffix [newline] data then butlast data else data),
                           kd_has_trailing_newline = has_suffix [newline] data,
                           kd_images_key_line = yn_line key,
                           kd_images_indent = yn_column key - 1,
                           kd_image_nodes = yn_content val,
                           kd_images = images\<rparr>))))"

definition kd_bytes :: "kdoc \<Rightarrow> string" where
  "kd_bytes d = join_with [newline] (kd_lines d) @ (if kd_has_trailing_newline d then [newline] else [])"

section \<open>Scalars\<close>

text \<open>What stands before the first occurrence of a text, all of it when there is none.\<close>

fun before_text :: "string \<Rightarrow> string \<Rightarrow> string" where
  "before_text p [] = []"
| "before_text p (c # cs) = (if has_prefix p (c # cs) then [] else c # before_text p cs)"

definition plainTokenLength :: "string \<Rightarrow> nat" where
  "plainTokenLength rest = length (trim_right blanks (before_text '' #'' rest))"

text \<open>The loop of \<open>quotedTokenLength\<close> from index \<open>i\<close>: the end of the token.\<close>

fun quoted_scan :: "char \<Rightarrow> nat \<Rightarrow> string \<Rightarrow> nat option" where
  "quoted_scan q i [] = None"
| "quoted_scan q i (c # cs) =
     (if c = backslash then (if q = dquote then quoted_scan q (i + 2) (tl cs) else quoted_scan q (i + 1) cs)
      else if c = q
      then (if q = squote \<and> cs \<noteq> [] \<and> hd cs = squote then quoted_scan q (i + 2) (tl cs) else Some (i + 1))
      else quoted_scan q (i + 1) cs)"

definition quotedTokenLength :: "string \<Rightarrow> char \<Rightarrow> (go_error, nat) result" where
  "quotedTokenLength rest quote =
     (if rest = [] \<or> hd rest \<noteq> quote then Inl (Errorf ''quoted scalar does not start with %q'' [AStr [quote]] [])
      else (case quoted_scan quote 1 (tl rest) of
              None \<Rightarrow> Inl (plain_error ''unterminated quoted scalar'')
            | Some n \<Rightarrow> Inr n))"

definition scalarTokenLength :: "string \<Rightarrow> nat \<Rightarrow> (go_error, nat) result" where
  "scalarTokenLength rest style =
     (if style = SingleQuotedStyle then quotedTokenLength rest squote
      else if style = DoubleQuotedStyle then quotedTokenLength rest dquote
      else if style = PlainStyle then Inr (plainTokenLength rest)
      else Inl (Errorf ''unsupported scalar style: %d'' [AInt (int style)] []))"

definition plain_scalar_char :: "char \<Rightarrow> bool" where
  "plain_scalar_char c \<longleftrightarrow> isASCIIAlphanumeric (byte c) \<or> c \<in> set ''_.-''"

definition isSafePlainScalar :: "yaml_lib \<Rightarrow> string \<Rightarrow> bool" where
  "isSafePlainScalar yl value =
     (if value = [] \<or> hd value = CHR ''.'' \<or> hd value = CHR ''-'' then False
      else if \<not> list_all plain_scalar_char value then False
      else (case yl_is_string yl value of None \<Rightarrow> False | Some b \<Rightarrow> b))"

definition formatScalar :: "runtime \<Rightarrow> yaml_lib \<Rightarrow> string \<Rightarrow> string" where
  "formatScalar rt yl value = (if isSafePlainScalar yl value then value else go_quote rt value)"

section \<open>Editing the image tags\<close>

definition replaceScalar :: "runtime \<Rightarrow> yaml_lib \<Rightarrow> kdoc \<Rightarrow> yaml_node \<Rightarrow> string \<Rightarrow> (go_error, kdoc) result" where
  "replaceScalar rt yl d node value =
     (if yn_kind node \<noteq> ScalarNode then Inl (Errorf ''%s is not a scalar'' [AStr newTagField] [])
      else (let lineIndex = yn_line node - 1 in
        if lineIndex < 0 \<or> int (length (kd_lines d)) \<le> lineIndex
        then Inl (Errorf ''%s line out of range: %d'' [AStr newTagField, AInt (yn_line node)] [])
        else (let line = kd_lines d ! nat lineIndex; start = yn_column node - 1 in
          if start < 0 \<or> int (length line) < start
          then Inl (Errorf ''%s column out of range: %d'' [AStr newTagField, AInt (yn_column node)] [])
          else (case scalarTokenLength (drop (nat start) line) (yn_style node) of
                  Inl err \<Rightarrow> Inl err
                | Inr len \<Rightarrow> Inr (d\<lparr>kd_lines := (kd_lines d)[nat lineIndex :=
                    take (nat start) line @ formatScalar rt yl value @ drop (nat start + len) line]\<rparr>)))))"

definition last_line :: "yaml_node list \<Rightarrow> int" where
  "last_line content = foldl (\<lambda>lastLine node. if lastLine < yn_line node then yn_line node else lastLine) 0 content"

definition appendMappingEntry ::
    "runtime \<Rightarrow> yaml_lib \<Rightarrow> kdoc \<Rightarrow> yaml_node \<Rightarrow> string \<Rightarrow> string \<Rightarrow> (go_error, kdoc) result" where
  "appendMappingEntry rt yl d item key value =
     (let lastLine = last_line (yn_content item) in
      if lastLine \<le> 0 \<or> int (length (kd_lines d)) < lastLine
      then Inl (Errorf ''failed to locate the mapping entry to append %s after'' [AStr key] [])
      else (let entry = replicate (nat (yn_column item - 1)) (CHR '' '') @ key @ '': '' @ formatScalar rt yl value in
        Inr (d\<lparr>kd_lines := take (nat lastLine) (kd_lines d) @ [entry] @ drop (nat lastLine) (kd_lines d)\<rparr>)))"

definition setNewTag :: "runtime \<Rightarrow> yaml_lib \<Rightarrow> kdoc \<Rightarrow> nat \<Rightarrow> string \<Rightarrow> (go_error, kdoc) result" where
  "setNewTag rt yl d index tag =
     (if length (kd_image_nodes d) \<le> index
      then Inl (Errorf ''images index out of range: %d'' [AInt (int index)] [])
      else (let item = kd_image_nodes d ! index in
        if yn_kind item \<noteq> MappingNode then Inl (Errorf ''images[%d] is not a mapping'' [AInt (int index)] [])
        else (case find_pair newTagField (yn_content item) of
                Some (key, val) \<Rightarrow> replaceScalar rt yl d val tag
              | None \<Rightarrow> appendMappingEntry rt yl d item newTagField tag)))"

text \<open>The loop over the indexes in descending order; \<open>setNewTags\<close> sorts the keys of the map.\<close>

fun set_tags_loop :: "runtime \<Rightarrow> yaml_lib \<Rightarrow> kdoc \<Rightarrow> (nat \<times> string) list \<Rightarrow> (go_error, kdoc) result" where
  "set_tags_loop rt yl d [] = Inr d"
| "set_tags_loop rt yl d ((index, tag) # tags) =
     (case setNewTag rt yl d index tag of Inl err \<Rightarrow> Inl err | Inr d' \<Rightarrow> set_tags_loop rt yl d' tags)"

definition setNewTags :: "runtime \<Rightarrow> yaml_lib \<Rightarrow> kdoc \<Rightarrow> (nat \<times> string) list \<Rightarrow> (go_error, kdoc) result" where
  "setNewTags rt yl d tags = set_tags_loop rt yl d (rev (sort_key fst tags))"

section \<open>The managed block\<close>

definition isCommentLine :: "string \<Rightarrow> bool" where
  "isCommentLine line = has_prefix ''#'' (trim_left blanks line)"

text \<open>The loop of \<open>headCommentRange\<close>: the first line of the comment above line \<open>start\<close>.\<close>

fun head_start :: "string list \<Rightarrow> nat \<Rightarrow> nat option" where
  "head_start lines 0 = Some 0"
| "head_start lines (Suc start) =
     (if length lines \<le> start then None
      else if isCommentLine (lines ! start) then head_start lines start
      else Some (Suc start))"

definition headCommentRange :: "kdoc \<Rightarrow> (nat \<times> nat) option" where
  "headCommentRange d =
     (let end0 = nat (kd_images_key_line d - 1) in
      case head_start (kd_lines d) end0 of None \<Rightarrow> None | Some start \<Rightarrow> Some (start, end0))"

fun find_block :: "nat \<Rightarrow> nat option \<Rightarrow> string list \<Rightarrow> (nat \<times> nat) option" where
  "find_block i blockStart [] = None"
| "find_block i blockStart (line # lines) =
     (if IsImageManifestBegin line then find_block (Suc i) (Some i) lines
      else if IsImageManifestEnd line \<and> blockStart \<noteq> None then Some (the blockStart, Suc i)
      else find_block (Suc i) blockStart lines)"

definition findManifestBlock :: "string list \<Rightarrow> nat \<Rightarrow> nat \<Rightarrow> (nat \<times> nat) option" where
  "findManifestBlock lines start end0 = find_block start None (take (end0 - start) (drop start lines))"

primrec shift_node :: "int \<Rightarrow> yaml_node \<Rightarrow> yaml_node" where
  "shift_node delta (YNode k s v l c content) = YNode k s v (l + delta) c (map (shift_node delta) content)"

definition kd_shift :: "int \<Rightarrow> kdoc \<Rightarrow> kdoc" where
  "kd_shift delta d =
     (if delta = 0 then d
      else d\<lparr>kd_images_key_line := kd_images_key_line d + delta,
             kd_image_nodes := map (shift_node delta) (kd_image_nodes d)\<rparr>)"

text \<open>The document the block holds already, the empty one when there is none or it does not parse.\<close>

definition existing_document :: "yaml_lib \<Rightarrow> string list \<Rightarrow> (nat \<times> nat) option \<Rightarrow> image_document" where
  "existing_document yl lines block =
     (case block of
        None \<Rightarrow> empty_document
      | Some (blockStart, blockEnd) \<Rightarrow>
          (case ParseImageManifestComment (yl_codec yl) (take (blockEnd - blockStart) (drop blockStart lines)) of
             Inl err \<Rightarrow> empty_document
           | Inr parsed \<Rightarrow> parsed))"

definition upsertImageManifest ::
    "yaml_lib \<Rightarrow> kdoc \<Rightarrow> image_manifest \<Rightarrow> int \<Rightarrow> (go_error, kdoc) result option" where
  "upsertImageManifest yl d manifest indent =
     (case headCommentRange d of
        None \<Rightarrow> None
      | Some (regionStart, regionEnd) \<Rightarrow>
          (let block = findManifestBlock (kd_lines d) regionStart regionEnd;
               manifestDocument = Upsert (existing_document yl (kd_lines d) block) manifest in
           case RenderImageManifestComment (yl_codec yl) manifestDocument indent of
             Inl err \<Rightarrow> Some (Inl err)
           | Inr commentLines \<Rightarrow>
               (let margin = replicate (nat (kd_images_indent d)) (CHR '' '');
                    rendered = map (\<lambda>line. margin @ line) commentLines in
                case block of
                  Some (blockStart, blockEnd) \<Rightarrow>
                    Some (Inr (kd_shift (int (length rendered) - (int blockEnd - int blockStart))
                      (d\<lparr>kd_lines := take blockStart (kd_lines d) @ rendered @ drop blockEnd (kd_lines d)\<rparr>)))
                | None \<Rightarrow>
                    Some (Inr (kd_shift (int (length rendered))
                      (d\<lparr>kd_lines := take regionStart (kd_lines d) @ rendered @ drop regionStart (kd_lines d)\<rparr>))))))"

section \<open>A document that is not edited is the file\<close>

lemma has_suffix_newline: "has_suffix [c] data \<longleftrightarrow> data \<noteq> [] \<and> last data = c"
  by (cases data rule: rev_cases) (auto simp: has_suffix_def)

lemma kd_parse_Inr:
  assumes "kd_parse yl data = Inr d"
  shows "kd_lines d = split_on newline (if has_suffix [newline] data then butlast data else data)"
    "kd_has_trailing_newline d = has_suffix [newline] data" "kd_images_key_line d \<noteq> 0"
    "\<exists>seq. yl_images yl seq = Some (kd_images d) \<and> kd_image_nodes d = yn_content seq"
  using assms by (auto simp: kd_parse_def split: option.splits list.splits if_splits) blast+

lemma kd_bytes_parse: "kd_parse yl data = Inr d \<Longrightarrow> kd_bytes d = data"
proof (cases "has_suffix [newline] data")
  case True
  then have "butlast data @ [newline] = data" unfolding has_suffix_newline by (metis append_butlast_last_id)
  moreover assume "kd_parse yl data = Inr d"
  ultimately show ?thesis using kd_parse_Inr(1,2) [of yl data d] True by (simp add: kd_bytes_def join_split)
next
  case False
  moreover assume "kd_parse yl data = Inr d"
  ultimately show ?thesis using kd_parse_Inr(1,2) [of yl data d] by (simp add: kd_bytes_def join_split)
qed

section \<open>The length of a scalar in its line\<close>

lemma quoted_scan_double:
  "escaped_text s \<Longrightarrow> quoted_scan dquote i (s @ dquote # rest) = Some (i + length s + 1)"
  by (induction s arbitrary: i rule: escaped_text.induct) auto

lemma quotedTokenLength_quote:
  "quotedTokenLength (go_quote rt v @ rest) dquote = Inr (length (go_quote rt v))"
proof -
  obtain body where body: "go_quote rt v = dquote # body @ [dquote]" "escaped_text body"
    using go_quote_escaped by blast
  then show ?thesis using quoted_scan_double [of body 1 rest] by (simp add: quotedTokenLength_def)
qed

text \<open>Single quoted YAML text, with a quote written as two.\<close>

definition single_quoted :: "string \<Rightarrow> string" where
  "single_quoted v = [squote] @ concat (map (\<lambda>c. if c = squote then [squote, squote] else [c]) v) @ [squote]"

lemma quoted_scan_single:
  "rest = [] \<or> hd rest \<noteq> squote \<Longrightarrow>
   quoted_scan squote i (concat (map (\<lambda>c. if c = squote then [squote, squote] else [c]) v) @ squote # rest) =
     Some (i + length (concat (map (\<lambda>c. if c = squote then [squote, squote] else [c]) v)) + 1)"
  by (induction v arbitrary: i) auto

lemma quotedTokenLength_single:
  "rest = [] \<or> hd rest \<noteq> squote \<Longrightarrow>
   quotedTokenLength (single_quoted v @ rest) squote = Inr (length (single_quoted v))"
  using quoted_scan_single [of rest 1 v] by (simp add: quotedTokenLength_def single_quoted_def)

text \<open>A plain scalar ends the line, or is followed by blanks and perhaps a comment.\<close>

definition scalar_tail :: "string \<Rightarrow> bool" where
  "scalar_tail rest \<longleftrightarrow> (\<exists>bs cm. rest = bs @ cm \<and> set bs \<subseteq> set blanks \<and> (cm = [] \<or> has_prefix '' #'' cm))"

lemma before_text_append:
  "c \<notin> set v \<Longrightarrow> before_text (c # p) (v @ rest) = v @ before_text (c # p) rest"
  by (induction v) auto

lemma before_text_tail:
  assumes "set bs \<subseteq> set blanks" and "cm = [] \<or> has_prefix '' #'' cm"
  shows "set (before_text '' #'' (bs @ cm)) \<subseteq> set blanks"
  using assms(1)
proof (induction bs)
  case Nil
  then show ?case using assms(2) by (cases cm) (auto simp: has_prefix_iff)
qed auto

lemma trim_right_tail:
  "set bs \<subseteq> set cs \<Longrightarrow> v = [] \<or> last v \<notin> set cs \<Longrightarrow> trim_right cs (v @ bs) = v"
proof (induction bs rule: rev_induct)
  case (snoc b bs)
  have "trim_right cs (v @ bs @ [b]) = trim_right cs (v @ bs)"
    using snoc.prems(1) by (simp add: trim_right_def)
  with snoc show ?case by simp
qed (simp add: trim_right_id)

lemma plainTokenLength_scalar:
  assumes "set v \<inter> set blanks = {}" and "scalar_tail rest"
  shows "plainTokenLength (v @ rest) = length v"
proof -
  obtain bs cm where rest: "rest = bs @ cm" "set bs \<subseteq> set blanks" "cm = [] \<or> has_prefix '' #'' cm"
    using assms(2) by (auto simp: scalar_tail_def)
  have "CHR '' '' \<notin> set v" using assms(1) by (auto simp: blanks_def)
  then have "before_text '' #'' (v @ rest) = v @ before_text '' #'' rest" by (rule before_text_append)
  moreover have "trim_right blanks (v @ before_text '' #'' rest) = v"
  proof (rule trim_right_tail)
    show "set (before_text '' #'' rest) \<subseteq> set blanks" using before_text_tail [OF rest(2,3)] rest(1) by simp
    show "v = [] \<or> last v \<notin> set blanks" using assms(1) last_in_set [of v] by blast
  qed
  ultimately show ?thesis by (simp add: plainTokenLength_def)
qed

lemma plain_scalar_char_not_blank: "plain_scalar_char c \<Longrightarrow> c \<notin> set blanks"
  by (auto simp: plain_scalar_char_def isASCIIAlphanumeric_def blanks_def byte_def)

text \<open>The style a formatted scalar is read back with.\<close>

definition scalar_style :: "yaml_lib \<Rightarrow> string \<Rightarrow> nat" where
  "scalar_style yl v = (if isSafePlainScalar yl v then PlainStyle else DoubleQuotedStyle)"

lemma scalarTokenLength_format:
  assumes "scalar_tail rest"
  shows "scalarTokenLength (formatScalar rt yl v @ rest) (scalar_style yl v) = Inr (length (formatScalar rt yl v))"
proof (cases "isSafePlainScalar yl v")
  case True
  then have "set v \<inter> set blanks = {}"
    using plain_scalar_char_not_blank by (auto simp: isSafePlainScalar_def list_all_iff split: if_splits)
  with assms True show ?thesis
    by (simp add: scalarTokenLength_def scalar_style_def formatScalar_def plainTokenLength_scalar
        PlainStyle_def SingleQuotedStyle_def DoubleQuotedStyle_def)
next
  case False
  then show ?thesis
    by (simp add: scalarTokenLength_def scalar_style_def formatScalar_def quotedTokenLength_quote
        SingleQuotedStyle_def DoubleQuotedStyle_def)
qed

section \<open>Editing from the bottom upwards\<close>

text \<open>
  One edit of the lines, with its position counted from zero: a line is rewritten, or a line is
  inserted after it. \<open>item_edit\<close> is the edit \<open>setNewTag\<close> makes, computed from the lines alone.
\<close>

datatype line_edit = Rewrite (edit_at: nat) string | InsertAfter (edit_at: nat) string

fun apply_edit :: "line_edit \<Rightarrow> string list \<Rightarrow> string list" where
  "apply_edit (Rewrite n x) ls = ls[n := x]"
| "apply_edit (InsertAfter n x) ls = take (Suc n) ls @ [x] @ drop (Suc n) ls"

definition scalar_edit :: "runtime \<Rightarrow> yaml_lib \<Rightarrow> string list \<Rightarrow> yaml_node \<Rightarrow> string \<Rightarrow> (go_error, line_edit) result" where
  "scalar_edit rt yl ls node value =
     (if yn_kind node \<noteq> ScalarNode then Inl (Errorf ''%s is not a scalar'' [AStr newTagField] [])
      else if yn_line node - 1 < 0 \<or> int (length ls) \<le> yn_line node - 1
      then Inl (Errorf ''%s line out of range: %d'' [AStr newTagField, AInt (yn_line node)] [])
      else (let line = ls ! nat (yn_line node - 1); start = yn_column node - 1 in
        if start < 0 \<or> int (length line) < start
        then Inl (Errorf ''%s column out of range: %d'' [AStr newTagField, AInt (yn_column node)] [])
        else (case scalarTokenLength (drop (nat start) line) (yn_style node) of
                Inl err \<Rightarrow> Inl err
              | Inr len \<Rightarrow> Inr (Rewrite (nat (yn_line node - 1))
                  (take (nat start) line @ formatScalar rt yl value @ drop (nat start + len) line)))))"

definition entry_edit ::
    "runtime \<Rightarrow> yaml_lib \<Rightarrow> string list \<Rightarrow> yaml_node \<Rightarrow> string \<Rightarrow> (go_error, line_edit) result" where
  "entry_edit rt yl ls item value =
     (if last_line (yn_content item) \<le> 0 \<or> int (length ls) < last_line (yn_content item)
      then Inl (Errorf ''failed to locate the mapping entry to append %s after'' [AStr newTagField] [])
      else Inr (InsertAfter (nat (last_line (yn_content item) - 1))
        (replicate (nat (yn_column item - 1)) (CHR '' '') @ newTagField @ '': '' @ formatScalar rt yl value)))"

definition item_edit ::
    "runtime \<Rightarrow> yaml_lib \<Rightarrow> yaml_node list \<Rightarrow> string list \<Rightarrow> nat \<times> string \<Rightarrow> (go_error, line_edit) result" where
  "item_edit rt yl nodes ls it =
     (if length nodes \<le> fst it then Inl (Errorf ''images index out of range: %d'' [AInt (int (fst it))] [])
      else (let item = nodes ! fst it in
        if yn_kind item \<noteq> MappingNode then Inl (Errorf ''images[%d] is not a mapping'' [AInt (int (fst it))] [])
        else (case find_pair newTagField (yn_content item) of
                Some (key, val) \<Rightarrow> scalar_edit rt yl ls val (snd it)
              | None \<Rightarrow> entry_edit rt yl ls item (snd it))))"

lemma kd_lines_id [simp]: "d\<lparr>kd_lines := kd_lines d\<rparr> = d"
  by simp

lemma replaceScalar_edit:
  "replaceScalar rt yl d node value =
     (case scalar_edit rt yl (kd_lines d) node value of
        Inl err \<Rightarrow> Inl err | Inr e \<Rightarrow> Inr (d\<lparr>kd_lines := apply_edit e (kd_lines d)\<rparr>))"
  by (simp add: replaceScalar_def scalar_edit_def Let_def split: sum.splits)

lemma appendMappingEntry_edit:
  "appendMappingEntry rt yl d item newTagField value =
     (case entry_edit rt yl (kd_lines d) item value of
        Inl err \<Rightarrow> Inl err | Inr e \<Rightarrow> Inr (d\<lparr>kd_lines := apply_edit e (kd_lines d)\<rparr>))"
  by (simp add: appendMappingEntry_def entry_edit_def Let_def Suc_nat_eq_nat_zadd1 nat_diff_distrib')

lemma setNewTag_edit:
  "setNewTag rt yl d index tag =
     (case item_edit rt yl (kd_image_nodes d) (kd_lines d) (index, tag) of
        Inl err \<Rightarrow> Inl err | Inr e \<Rightarrow> Inr (d\<lparr>kd_lines := apply_edit e (kd_lines d)\<rparr>))"
  by (simp add: setNewTag_def item_edit_def Let_def replaceScalar_edit appendMappingEntry_edit
      split: option.splits prod.splits)

text \<open>
  The simultaneous reading: every original line is kept or replaced, followed by what is inserted
  after it. It reads the edits of each line from a list with distinct positions.
\<close>

definition edited_line :: "line_edit list \<Rightarrow> string list \<Rightarrow> nat \<Rightarrow> string list" where
  "edited_line es ls n =
     (case List.find (\<lambda>e. edit_at e = n) es of
        None \<Rightarrow> [ls ! n]
      | Some (Rewrite _ x) \<Rightarrow> [x]
      | Some (InsertAfter _ x) \<Rightarrow> [ls ! n, x])"

definition apply_all :: "line_edit list \<Rightarrow> string list \<Rightarrow> string list" where
  "apply_all es ls = concat (map (edited_line es ls) [0..<length ls])"

lemma concat_singletons: "n \<le> length ls \<Longrightarrow> concat (map (\<lambda>n. [ls ! n]) [0..<n]) = take n ls"
  by (rule nth_equalityI) (simp_all add: concat_map_singleton)

lemma apply_all_Nil: "apply_all [] ls = ls"
proof -
  have "edited_line [] ls = (\<lambda>n. [ls ! n])" by (simp add: edited_line_def fun_eq_iff)
  then show ?thesis using concat_singletons [of "length ls" ls] by (simp add: apply_all_def)
qed

lemma edited_line_other: "edit_at e \<noteq> n \<Longrightarrow> edited_line (e # es) ls n = edited_line es ls n"
  by (simp add: edited_line_def)

lemma edited_line_below:
  "\<forall>e\<in>set es. n < edit_at e \<Longrightarrow> edited_line es ls n = [ls ! n]"
proof -
  assume "\<forall>e\<in>set es. n < edit_at e"
  then have "List.find (\<lambda>e. edit_at e = n) es = None" by (auto simp: find_None_iff)
  then show ?thesis by (simp add: edited_line_def)
qed

lemma apply_all_split:
  assumes "n < length ls"
  shows "apply_all es ls = concat (map (edited_line es ls) [0..<n]) @ edited_line es ls n @
     concat (map (edited_line es ls) [Suc n..<length ls])"
proof -
  have "[0..<length ls] = [0..<n] @ n # [Suc n..<length ls]"
    using assms upt_add_eq_append [of 0 n "length ls - n"] upt_conv_Cons [of n "length ls"] by simp
  then show ?thesis by (simp add: apply_all_def)
qed

text \<open>An edit above all others can be made first or last.\<close>

lemma apply_edit_above:
  assumes "edit_at e < length ls" and "\<forall>e'\<in>set es. edit_at e < edit_at e'"
  shows "apply_edit e (apply_all es ls) = apply_all (e # es) ls"
proof -
  let ?n = "edit_at e"
  let ?rest = "concat (map (edited_line es ls) [Suc ?n..<length ls])"
  have above: "concat (map (edited_line es' ls) [0..<?n]) = take ?n ls"
    if "\<forall>e'\<in>set es'. ?n \<le> edit_at e'" for es'
  proof -
    have "map (edited_line es' ls) [0..<?n] = map (\<lambda>n. [ls ! n]) [0..<?n]"
      using that by (intro map_cong refl edited_line_below) auto
    then show ?thesis using assms(1) by (simp only: concat_singletons less_imp_le)
  qed
  have rest: "map (edited_line (e # es) ls) [Suc ?n..<length ls] = map (edited_line es ls) [Suc ?n..<length ls]"
    by (intro map_cong refl edited_line_other) auto
  have "\<forall>e'\<in>set es. ?n \<le> edit_at e'" using assms(2) by auto
  then have before: "apply_all es ls = take ?n ls @ (ls ! ?n) # ?rest"
    using apply_all_split [OF assms(1), of es] above [of es] edited_line_below [OF assms(2), of ls] by simp
  have "\<forall>e'\<in>set (e # es). ?n \<le> edit_at e'" using assms(2) by auto
  then have after: "apply_all (e # es) ls = take ?n ls @ edited_line (e # es) ls ?n @ ?rest"
    using apply_all_split [OF assms(1), of "e # es"] above [of "e # es"] by (simp only: rest)
  show ?thesis
  proof (cases e)
    case (Rewrite n x)
    with before after assms(1) show ?thesis by (simp add: edited_line_def list_update_append)
  next
    case (InsertAfter n x)
    with before after assms(1) show ?thesis by (simp add: edited_line_def)
  qed
qed

lemma take_apply_all:
  assumes "\<forall>e\<in>set es. m \<le> edit_at e" and "m \<le> length ls"
  shows "take m (apply_all es ls) = take m ls"
proof -
  have "map (edited_line es ls) [0..<m] = map (\<lambda>n. [ls ! n]) [0..<m]"
    using assms(1) by (intro map_cong refl edited_line_below) auto
  then have "concat (map (edited_line es ls) [0..<m]) = take m ls"
    using assms(2) by (simp only: concat_singletons)
  moreover have "[0..<length ls] = [0..<m] @ [m..<length ls]"
    using assms(2) upt_add_eq_append [of 0 m "length ls - m"] by simp
  ultimately have "apply_all es ls = take m ls @ concat (map (edited_line es ls) [m..<length ls])"
    by (simp add: apply_all_def)
  with assms(2) show ?thesis by simp
qed

text \<open>The position of the edit of an item depends on its node only.\<close>

definition item_pos :: "yaml_node list \<Rightarrow> nat \<times> string \<Rightarrow> int" where
  "item_pos nodes it =
     (case find_pair newTagField (yn_content (nodes ! fst it)) of
        Some (key, val) \<Rightarrow> yn_line val - 1
      | None \<Rightarrow> last_line (yn_content (nodes ! fst it)) - 1)"

lemma scalar_edit_Inr:
  assumes "scalar_edit rt yl ls node v = Inr e"
  shows "int (edit_at e) = yn_line node - 1" "edit_at e < length ls"
    "\<And>ls'. take (Suc (edit_at e)) ls' = take (Suc (edit_at e)) ls \<Longrightarrow> edit_at e < length ls' \<Longrightarrow>
       scalar_edit rt yl ls' node v = Inr e"
proof -
  have at: "0 \<le> yn_line node - 1 \<and> edit_at e = nat (yn_line node - 1) \<and> yn_line node - 1 < int (length ls)"
    using assms by (auto simp: scalar_edit_def Let_def split: if_splits sum.splits)
  then show "int (edit_at e) = yn_line node - 1" "edit_at e < length ls" by auto
  fix ls' assume ls': "take (Suc (edit_at e)) ls' = take (Suc (edit_at e)) ls" "edit_at e < length ls'"
  have "ls' ! nat (yn_line node - 1) = ls ! nat (yn_line node - 1)"
    using arg_cong [OF ls'(1), of "\<lambda>l. l ! edit_at e"] at by simp
  moreover have "\<not> int (length ls') \<le> yn_line node - 1" "\<not> int (length ls) \<le> yn_line node - 1"
    using at ls'(2) by linarith+
  ultimately have "scalar_edit rt yl ls' node v = scalar_edit rt yl ls node v"
    unfolding scalar_edit_def Let_def by (simp cong: sum.case_cong)
  then show "scalar_edit rt yl ls' node v = Inr e" using assms by simp
qed

lemma entry_edit_Inr:
  assumes "entry_edit rt yl ls item v = Inr e"
  shows "int (edit_at e) = last_line (yn_content item) - 1" "edit_at e < length ls"
    "\<And>ls'. edit_at e < length ls' \<Longrightarrow> entry_edit rt yl ls' item v = Inr e"
  using assms by (auto simp: entry_edit_def split: if_splits)

lemma item_edit_cases:
  assumes "item_edit rt yl nodes ls it = Inr e"
  obtains (scalar) key val where "find_pair newTagField (yn_content (nodes ! fst it)) = Some (key, val)"
      "scalar_edit rt yl ls val (snd it) = Inr e"
      "\<And>ls'. item_edit rt yl nodes ls' it = scalar_edit rt yl ls' val (snd it)"
  | (entry) "find_pair newTagField (yn_content (nodes ! fst it)) = None"
      "entry_edit rt yl ls (nodes ! fst it) (snd it) = Inr e"
      "\<And>ls'. item_edit rt yl nodes ls' it = entry_edit rt yl ls' (nodes ! fst it) (snd it)"
proof (cases "find_pair newTagField (yn_content (nodes ! fst it))")
  case None
  with assms show ?thesis by (intro entry) (simp_all add: item_edit_def Let_def split: if_splits)
next
  case (Some kv)
  with assms show ?thesis
    by (cases kv) (intro scalar, simp_all add: item_edit_def Let_def split: if_splits)
qed

lemma item_edit_Inr:
  assumes "item_edit rt yl nodes ls it = Inr e"
  shows "int (edit_at e) = item_pos nodes it \<and> edit_at e < length ls \<and>
    (\<forall>ls'. take (Suc (edit_at e)) ls' = take (Suc (edit_at e)) ls \<longrightarrow> edit_at e < length ls' \<longrightarrow>
       item_edit rt yl nodes ls' it = Inr e)"
  using assms
proof (cases rule: item_edit_cases)
  case (scalar key val)
  then show ?thesis using scalar_edit_Inr [OF scalar(2)] by (simp add: item_pos_def)
next
  case entry
  then show ?thesis using entry_edit_Inr [OF entry(2)] by (simp add: item_pos_def)
qed

lemma set_tags_loop_append:
  "set_tags_loop rt yl d (xs @ ys) =
     (case set_tags_loop rt yl d xs of Inl err \<Rightarrow> Inl err | Inr d' \<Rightarrow> set_tags_loop rt yl d' ys)"
  by (induction xs arbitrary: d) (auto split: sum.splits)

lemma set_tags_loop_all:
  assumes "sorted_wrt (\<lambda>a b. item_pos (kd_image_nodes d) a < item_pos (kd_image_nodes d) b) its"
    and "set_tags_loop rt yl d (rev its) = Inr d'"
  shows "\<exists>es. list_all2 (\<lambda>it e. item_edit rt yl (kd_image_nodes d) (kd_lines d) it = Inr e) its es \<and>
    d' = d\<lparr>kd_lines := apply_all es (kd_lines d)\<rparr>"
  using assms
proof (induction its arbitrary: d')
  case Nil
  then show ?case by (simp add: apply_all_Nil)
next
  case (Cons it its)
  let ?nodes = "kd_image_nodes d" and ?ls = "kd_lines d"
  obtain d1 where d1: "set_tags_loop rt yl d (rev its) = Inr d1" "setNewTag rt yl d1 (fst it) (snd it) = Inr d'"
    using Cons.prems(2) by (cases it) (auto simp: set_tags_loop_append split: sum.splits)
  then obtain es where es: "list_all2 (\<lambda>it e. item_edit rt yl ?nodes ?ls it = Inr e) its es"
      "d1 = d\<lparr>kd_lines := apply_all es ?ls\<rparr>"
    using Cons.IH [OF _ d1(1)] Cons.prems(1) by auto
  obtain e where e: "item_edit rt yl ?nodes (apply_all es ?ls) it = Inr e"
      "d' = d\<lparr>kd_lines := apply_edit e (apply_all es ?ls)\<rparr>"
    using d1(2) es(2) by (auto simp: setNewTag_edit split: sum.splits)
  have es_at: "edit_at e < edit_at e' \<and> edit_at e' < length ?ls" if e': "e' \<in> set es" for e'
  proof -
    obtain it' where it': "it' \<in> set its" "item_edit rt yl ?nodes ?ls it' = Inr e'"
      using list_all2_right [OF es(1) e'] by blast
    then have "item_pos ?nodes it < item_pos ?nodes it'" using Cons.prems(1) by simp
    then show ?thesis using item_edit_Inr [OF e(1)] item_edit_Inr [OF it'(2)] by linarith
  qed
  have bound: "edit_at e < length ?ls"
  proof (cases es)
    case Nil
    then show ?thesis using item_edit_Inr [OF e(1)] by (simp add: apply_all_Nil)
  next
    case (Cons e' es')
    then show ?thesis using es_at [of e'] by simp
  qed
  then have "take (Suc (edit_at e)) (apply_all es ?ls) = take (Suc (edit_at e)) ?ls"
    using es_at by (intro take_apply_all) (auto simp: Suc_le_eq)
  then have "item_edit rt yl ?nodes ?ls it = Inr e" using item_edit_Inr [OF e(1)] bound by simp
  moreover have "apply_edit e (apply_all es ?ls) = apply_all (e # es) ?ls"
    using es_at bound by (intro apply_edit_above) auto
  ultimately show ?case using es(1) e(2) by (intro exI [of _ "e # es"]) simp
qed

section \<open>The managed block in the head comment\<close>

lemma head_start_Some:
  assumes "head_start ls n = Some start"
  shows "\<exists>P C S. ls = P @ C @ S \<and> length P = start \<and> length (P @ C) = n \<and> list_all isCommentLine C \<and>
    (P = [] \<or> \<not> isCommentLine (last P))"
  using assms
proof (induction n)
  case (Suc n)
  show ?case
  proof (cases "isCommentLine (ls ! n)")
    case True
    with Suc obtain P C S where ls: "ls = P @ C @ S" "length P = start" "length (P @ C) = n"
        "list_all isCommentLine C" "P = [] \<or> \<not> isCommentLine (last P)"
      by (auto split: if_splits)
    have "n < length ls" using Suc.prems by (simp split: if_splits)
    then obtain x S' where S: "S = x # S'" using ls by (cases S) auto
    have "ls ! n = ((P @ C) @ x # S') ! length (P @ C)" using ls S by simp
    also have "\<dots> = x" by (rule nth_append_length)
    finally have "ls ! n = x" .
    with True ls S show ?thesis by (intro exI [of _ P] exI [of _ "C @ [x]"] exI [of _ S']) auto
  next
    case False
    with Suc.prems have n: "n < length ls" "start = Suc n" by (auto split: if_splits)
    then have "last (take (Suc n) ls) = ls ! n" by (simp add: take_Suc_conv_app_nth)
    with False n show ?thesis
      by (intro exI [of _ "take (Suc n) ls"] exI [of _ "[]"] exI [of _ "drop (Suc n) ls"]) auto
  qed
qed auto

lemma head_start_append:
  assumes "list_all isCommentLine C" and "P = [] \<or> \<not> isCommentLine (last P)"
  shows "head_start (P @ C @ S) (length P + length C) = Some (length P)"
  using assms(1)
proof (induction C arbitrary: S rule: rev_induct)
  case Nil
  then show ?case using assms(2) by (cases P rule: rev_cases) auto
next
  case (snoc x C)
  have "(P @ (C @ [x]) @ S) ! (length P + length C) = x" by (simp add: nth_append)
  with snoc.prems show ?case using snoc.IH [of "x # S"] by simp
qed

lemma find_block_bounds:
  "find_block i st ls = Some (a, b) \<Longrightarrow> i < b \<and> b \<le> i + length ls \<and> (st = Some a \<or> i \<le> a \<and> a < b)"
  by (induction i st ls rule: find_block.induct) (fastforce split: if_splits)+

fun block_scan :: "nat \<Rightarrow> nat option \<Rightarrow> string list \<Rightarrow> nat option" where
  "block_scan i st [] = st"
| "block_scan i st (line # ls) = block_scan (Suc i) (if IsImageManifestBegin line then Some i else st) ls"

lemma find_block_append:
  "find_block i st (xs @ ys) = (case find_block i st xs of
     Some r \<Rightarrow> Some r | None \<Rightarrow> find_block (i + length xs) (block_scan i st xs) ys)"
  by (induction i st xs rule: find_block.induct) (auto split: option.splits)

text \<open>A rendered block is found where it stands, whatever the scan has seen before.\<close>

lemma isMarker_margin:
  assumes "set margin \<subseteq> set blanks"
  shows "IsImageManifestBegin (margin @ commentLine l) \<longleftrightarrow> trim_space l = ImageManifestBeginMarker"
    "IsImageManifestEnd (margin @ commentLine l) \<longleftrightarrow> trim_space l = ImageManifestEndMarker"
  using assms by (simp_all add: IsImageManifestBegin_def IsImageManifestEnd_def isMarker_commentLine)

lemma find_block_body:
  assumes margin: "set margin \<subseteq> set blanks"
  shows "list_all (\<lambda>l. \<not> isBlockMarkerContent l) body \<Longrightarrow>
    find_block i (Some a) (map (\<lambda>l. margin @ commentLine l) body @ (margin @ commentLine ImageManifestEndMarker) # rest) =
      Some (a, i + length body + 1)"
proof (induction body arbitrary: i)
  case Nil
  show ?case using markers_differ by (simp add: isMarker_margin [OF margin] trim_markers)
next
  case (Cons l body)
  then show ?case by (simp add: isMarker_margin [OF margin] isBlockMarkerContent_def)
qed

lemma find_block_rendered:
  assumes "set margin \<subseteq> set blanks" and "list_all (\<lambda>l. \<not> isBlockMarkerContent l) body"
  shows "find_block i st (map (\<lambda>l. margin @ l) (block_lines body) @ rest) =
    Some (i, i + length (block_lines body))"
  using find_block_body [OF assms, of "Suc i" i rest]
  by (simp add: block_lines_def isMarker_margin [OF assms(1)] trim_markers comp_def)

lemma comment_margin: "set margin \<subseteq> set blanks \<Longrightarrow> isCommentLine (margin @ commentLine l)"
proof -
  have "trim_left blanks (commentLine l) = commentLine l"
    by (rule trim_left_id) (simp add: commentLine_def commentPrefix_def blanks_def)
  then show "set margin \<subseteq> set blanks \<Longrightarrow> ?thesis"
    by (simp only: isCommentLine_def trim_left_blanks) (simp add: commentLine_def commentPrefix_def)
qed

lemma comment_block:
  "set margin \<subseteq> set blanks \<Longrightarrow> list_all isCommentLine (map (\<lambda>l. margin @ l) (block_lines body))"
  by (auto simp: block_lines_def list_all_iff comment_margin)

lemma find_block_split:
  assumes "find_block i None C = Some (a, b)"
  obtains C1 old C2 where "C = C1 @ old @ C2" "a = i + length C1" "b = a + length old"
    "find_block i None C1 = None"
proof -
  have bounds: "i \<le> a" "a < b" "b \<le> i + length C" using find_block_bounds [OF assms] by auto
  let ?C1 = "take (a - i) C" and ?old = "take (b - a) (drop (a - i) C)" and ?C2 = "drop (b - i) C"
  have split: "C = ?C1 @ ?old @ ?C2"
  proof -
    have "drop (a - i) C = ?old @ drop (b - a) (drop (a - i) C)" by (rule append_take_drop_id [symmetric])
    moreover have "drop (b - a) (drop (a - i) C) = ?C2" using bounds by (simp add: add.commute)
    ultimately have "drop (a - i) C = ?old @ ?C2" by simp
    then show ?thesis by (metis append_take_drop_id)
  qed
  have "find_block i None ?C1 = None"
  proof (rule ccontr)
    assume "find_block i None ?C1 \<noteq> None"
    then obtain r where "find_block i None ?C1 = Some r" by auto
    moreover from this have "find_block i None (?C1 @ ?old @ ?C2) = Some r" by (simp add: find_block_append)
    ultimately have "find_block i None ?C1 = Some (a, b)" using assms split by simp
    then have "b \<le> i + length ?C1" using find_block_bounds by blast
    with bounds show False by simp
  qed
  with split bounds show ?thesis by (intro that [of ?C1 ?old ?C2]) simp_all
qed

section \<open>Updating the managed block\<close>

definition margin_of :: "kdoc \<Rightarrow> string" where
  "margin_of d = replicate (nat (kd_images_indent d)) (CHR '' '')"

lemma margin_blanks: "set (margin_of d) \<subseteq> set blanks"
  by (auto simp: margin_of_def blanks_def)

text \<open>The block of the document that the update finds, and the metadata in it.\<close>

definition managed_block :: "kdoc \<Rightarrow> (nat \<times> nat) option" where
  "managed_block d = (case headCommentRange d of None \<Rightarrow> None
     | Some (start, end0) \<Rightarrow> findManifestBlock (kd_lines d) start end0)"

definition managed_document :: "yaml_lib \<Rightarrow> kdoc \<Rightarrow> image_document" where
  "managed_document yl d = existing_document yl (kd_lines d) (managed_block d)"

lemma find_block_region:
  "findManifestBlock (P @ C @ S) (length P) (length P + length C) = find_block (length P) None C"
  by (simp add: findManifestBlock_def)

text \<open>
  The shape of the lines before and after an update: the lines above the comment, the comment with the
  block in its place, and the lines from the images key on.
\<close>

lemma upsert_shape:
  assumes "upsertImageManifest yl d m indent = Some (Inr d')"
  obtains P C1 old C2 S lines where
    "kd_lines d = P @ C1 @ old @ C2 @ S"
    "nat (kd_images_key_line d - 1) = length (P @ C1 @ old @ C2)"
    "list_all isCommentLine (C1 @ C2)" "P = [] \<or> \<not> isCommentLine (last P)"
    "find_block (length P) None C1 = None"
    "managed_block d = None \<and> old = [] \<and> C1 = [] \<or>
     managed_block d = Some (length (P @ C1), length (P @ C1 @ old))"
    "RenderImageManifestComment (yl_codec yl) (Upsert (managed_document yl d) m) indent = Inr lines"
    "d' = kd_shift (int (length lines) - int (length old))
       (d\<lparr>kd_lines := P @ C1 @ map (\<lambda>l. margin_of d @ l) lines @ C2 @ S\<rparr>)"
proof -
  obtain start end0 where range: "headCommentRange d = Some (start, end0)"
    using assms by (auto simp: upsertImageManifest_def split: option.splits prod.splits)
  then have "head_start (kd_lines d) end0 = Some start" and end0: "end0 = nat (kd_images_key_line d - 1)"
    by (auto simp: headCommentRange_def Let_def split: option.splits)
  then obtain P C S where C: "kd_lines d = P @ C @ S" "length P = start" "length (P @ C) = end0"
      "list_all isCommentLine C" "P = [] \<or> \<not> isCommentLine (last P)"
    using head_start_Some by metis
  have block: "managed_block d = find_block (length P) None C"
    using find_block_region [of P C S] C by (simp add: managed_block_def range)
  have found: "findManifestBlock (kd_lines d) start end0 = managed_block d" by (simp add: managed_block_def range)
  note step = assms [unfolded upsertImageManifest_def range option.case prod.case Let_def found
      managed_document_def [symmetric]]
  then obtain lines where lines:
      "RenderImageManifestComment (yl_codec yl) (Upsert (managed_document yl d) m) indent = Inr lines"
    by (auto split: sum.splits)
  show ?thesis
  proof (cases "managed_block d")
    case None
    with step lines C have "d' = kd_shift (int (length lines))
        (d\<lparr>kd_lines := P @ map (\<lambda>l. margin_of d @ l) lines @ C @ S\<rparr>)"
      by (simp add: margin_of_def)
    with None lines C end0 show ?thesis by (intro that [of P "[]" "[]" C S lines]) simp_all
  next
    case (Some ab)
    obtain a b where ab: "ab = (a, b)" by (cases ab)
    with Some block obtain C1 old C2 where old: "C = C1 @ old @ C2" "a = length P + length C1"
        "b = a + length old" "find_block (length P) None C1 = None"
      using find_block_split by metis
    from step lines Some ab have "d' = kd_shift (int (length lines) - (int b - int a))
        (d\<lparr>kd_lines := take a (kd_lines d) @ map (\<lambda>l. margin_of d @ l) lines @ drop b (kd_lines d)\<rparr>)"
      by (simp add: margin_of_def)
    with Some ab lines C end0 old show ?thesis
      by (intro that [of P C1 old C2 S lines]) simp_all
  qed
qed

lemma kd_shift_simps [simp]:
  "kd_lines (kd_shift n d) = kd_lines d"
  "kd_images_key_line (kd_shift n d) = kd_images_key_line d + n"
  "kd_images_indent (kd_shift n d) = kd_images_indent d"
  by (simp_all add: kd_shift_def)

lemma margin_shift [simp]: "margin_of (kd_shift n d) = margin_of d" "margin_of (d\<lparr>kd_lines := ls\<rparr>) = margin_of d"
  by (simp_all add: margin_of_def)

text \<open>The block a document holds after an update, found by the next one.\<close>

lemma upsert_found:
  assumes lines: "kd_lines d = P @ C1 @ map (\<lambda>l. margin_of d @ l) (block_lines body) @ C2 @ S"
    and key: "nat (kd_images_key_line d - 1) = length (P @ C1 @ block_lines body @ C2)"
    and comments: "list_all isCommentLine (C1 @ C2)" "P = [] \<or> \<not> isCommentLine (last P)"
    and fresh: "find_block (length P) None C1 = None"
    and body: "list_all (\<lambda>l. \<not> isBlockMarkerContent l) body"
  shows "headCommentRange d = Some (length P, length (P @ C1 @ block_lines body @ C2))"
    "findManifestBlock (kd_lines d) (length P) (length (P @ C1 @ block_lines body @ C2)) =
       Some (length (P @ C1), length (P @ C1 @ block_lines body))"
    "existing_document yl (kd_lines d) (Some (length (P @ C1), length (P @ C1 @ block_lines body))) =
       (case ParseImageManifestComment (yl_codec yl) (map (\<lambda>l. margin_of d @ l) (block_lines body)) of
          Inl e \<Rightarrow> empty_document | Inr parsed \<Rightarrow> parsed)"
proof -
  let ?R = "map (\<lambda>l. margin_of d @ l) (block_lines body)"
  let ?C = "C1 @ ?R @ C2"
  have all: "list_all isCommentLine ?C"
    using comments(1) comment_block [OF margin_blanks] by simp
  have "head_start (P @ ?C @ S) (length P + length ?C) = Some (length P)"
    using all comments(2) by (rule head_start_append)
  then show "headCommentRange d = Some (length P, length (P @ C1 @ block_lines body @ C2))"
    using lines key by (simp add: headCommentRange_def Let_def)
  have "find_block (length P) None ?C =
      Some (length P + length C1, length P + length C1 + length (block_lines body))"
    by (subst find_block_append) (simp add: fresh find_block_rendered [OF margin_blanks body])
  then show "findManifestBlock (kd_lines d) (length P) (length (P @ C1 @ block_lines body @ C2)) =
       Some (length (P @ C1), length (P @ C1 @ block_lines body))"
    using find_block_region [of P ?C S] lines by (simp add: add.assoc)
  show "existing_document yl (kd_lines d) (Some (length (P @ C1), length (P @ C1 @ block_lines body))) =
       (case ParseImageManifestComment (yl_codec yl) ?R of Inl e \<Rightarrow> empty_document | Inr parsed \<Rightarrow> parsed)"
    by (simp add: existing_document_def lines)
qed

lemma upsert_again:
  assumes codec: "codec_ok (yl_codec yl)" and m: "manifest_plain m"
    and old: "doc_plain (managed_document yl d)" and key: "1 \<le> kd_images_key_line d"
    and up: "upsertImageManifest yl d m indent = Some (Inr d')"
  shows "upsertImageManifest yl d' m indent = Some (Inr d')"
proof -
  obtain P C1 prev C2 S lines where sh: "kd_lines d = P @ C1 @ prev @ C2 @ S"
      "nat (kd_images_key_line d - 1) = length (P @ C1 @ prev @ C2)"
      "list_all isCommentLine (C1 @ C2)" "P = [] \<or> \<not> isCommentLine (last P)"
      "find_block (length P) None C1 = None"
    and lines: "RenderImageManifestComment (yl_codec yl) (Upsert (managed_document yl d) m) indent = Inr lines"
    and d': "d' = kd_shift (int (length lines) - int (length prev))
       (d\<lparr>kd_lines := P @ C1 @ map (\<lambda>l. margin_of d @ l) lines @ C2 @ S\<rparr>)"
    by (rule upsert_shape [OF up]) blast
  let ?D = "Upsert (managed_document yl d) m"
  obtain body where body: "list_all (\<lambda>l. \<not> isBlockMarkerContent l) body" "lines = block_lines body"
    using lines unfolding Render_Inr by blast
  have parse: "ParseImageManifestComment (yl_codec yl) (map (\<lambda>l. margin_of d @ l) lines) = Inr ?D"
    using codec old m lines margin_blanks by (intro Parse_Render) (auto intro: Upsert_plain)
  have lines': "kd_lines d' = P @ C1 @ map (\<lambda>l. margin_of d' @ l) (block_lines body) @ C2 @ S"
    using d' body(2) by simp
  have "nat (kd_images_key_line d' - 1) = length (P @ C1 @ block_lines body @ C2)"
    using sh(2) d' body(2) key by simp
  note found = upsert_found [OF lines' this sh(3,4,5) body(1)]
  have "existing_document yl (kd_lines d') (Some (length (P @ C1), length (P @ C1 @ block_lines body))) = ?D"
    using found(3) [of yl] parse d' body(2) by simp
  then have "upsertImageManifest yl d' m indent = Some (Inr (kd_shift 0 (d'\<lparr>kd_lines := kd_lines d'\<rparr>)))"
    unfolding upsertImageManifest_def found(1) option.case prod.case Let_def found(2)
    using lines body(2) lines' by (simp add: Upsert_again margin_of_def [symmetric])
  then show ?thesis by (simp add: kd_shift_def)
qed

section \<open>A file to evaluate\<close>

text \<open>
  Two entries, the second without a tag, with the nodes the parser reports for them, and a library
  that parses this file only.
\<close>

definition sample_lines :: "string list" where
  "sample_lines = [''images:'', ''  - name: h/a'', ''    newTag: v1'', ''  - name: h/b'']"

definition scalar_node :: "string \<Rightarrow> int \<Rightarrow> int \<Rightarrow> yaml_node" where
  "scalar_node v l c = YNode ScalarNode PlainStyle v l c []"

definition sample_items :: "yaml_node list" where
  "sample_items =
     [YNode MappingNode PlainStyle [] 2 5
        [scalar_node ''name'' 2 5, scalar_node ''h/a'' 2 11, scalar_node ''newTag'' 3 5, scalar_node ''v1'' 3 13],
      YNode MappingNode PlainStyle [] 4 5 [scalar_node ''name'' 4 5, scalar_node ''h/b'' 4 11]]"

definition sample_root :: yaml_node where
  "sample_root = YNode DocumentNode PlainStyle [] 1 1
     [YNode MappingNode PlainStyle [] 1 1
        [scalar_node ''images'' 1 1, YNode SequenceNode PlainStyle [] 2 3 sample_items]]"

definition sample_file :: string where
  "sample_file = join_with [newline] sample_lines @ [newline]"

definition sample_images :: "image_entry list" where
  "sample_images =
     [\<lparr>ie_name = ''h/a'', ie_new_name = [], ie_tag_suffix = [], ie_new_tag = ''v1'', ie_digest = []\<rparr>,
      \<lparr>ie_name = ''h/b'', ie_new_name = [], ie_tag_suffix = [], ie_new_tag = [], ie_digest = []\<rparr>]"

definition sample_yl :: yaml_lib where
  "sample_yl = \<lparr>yl_codec = sample_codec, yl_unmarshal = (\<lambda>s. if s = sample_file then Some sample_root else None),
     yl_images = (\<lambda>_. Some sample_images), yl_is_string = (\<lambda>_. Some True)\<rparr>"

definition sample_doc :: "string list \<Rightarrow> kdoc" where
  "sample_doc ls = \<lparr>kd_lines = ls, kd_has_trailing_newline = True, kd_images_key_line = 1,
     kd_images_indent = 0, kd_image_nodes = sample_items, kd_images = sample_images\<rparr>"

lemma sample_file_parse: "kd_parse sample_yl sample_file = Inr (sample_doc sample_lines)"
proof -
  have "has_suffix [newline] sample_file" by (simp add: sample_file_def has_suffix_newline)
  moreover have "split_on newline (butlast sample_file) = sample_lines"
    unfolding sample_file_def butlast_snoc
    by (rule split_join) (simp_all add: sample_lines_def newline_def)
  ultimately show ?thesis
    by (simp add: kd_parse_def sample_yl_def sample_root_def sample_doc_def scalar_node_def)
qed

lemmas document_eval = item_edit_def scalar_edit_def entry_edit_def sample_items_def scalar_node_def
  newTagField_def last_line_def scalarTokenLength_def plainTokenLength_def formatScalar_def
  isSafePlainScalar_def plain_scalar_char_def isASCIIAlphanumeric_def byte_def PlainStyle_def
  SingleQuotedStyle_def DoubleQuotedStyle_def blanks_def trim_right_def Let_def

lemma format_v2: "formatScalar rt sample_yl ''v2'' = ''v2''"
  by (simp add: document_eval) (simp add: sample_yl_def)

lemma sample_edits:
  "item_edit rt sample_yl sample_items sample_lines (0, ''v2'') = Inr (Rewrite 2 ''    newTag: v2'')"
  "item_edit rt sample_yl sample_items sample_lines (1, ''v2'') = Inr (InsertAfter 3 ''    newTag: v2'')"
  using format_v2 [of rt]
  by (simp_all add: item_edit_def scalar_edit_def entry_edit_def sample_items_def scalar_node_def
      newTagField_def last_line_def scalarTokenLength_def plainTokenLength_def PlainStyle_def
      SingleQuotedStyle_def DoubleQuotedStyle_def blanks_def trim_right_def Let_def sample_lines_def
      numeral_eq_Suc)

section \<open>Properties\<close>

text \<open>
  A file that parses and is not edited is written back byte for byte, with or without a final
  newline.
\<close>
lemma parse_bytes:
  "case kd_parse yl data of Inl e \<Rightarrow> \<not> errors_is ErrRetryable e | Inr d \<Rightarrow> kd_bytes d = data"
proof (cases "kd_parse yl data")
  case (Inl e)
  then show ?thesis
    by (auto simp: kd_parse_def plain_error_def split: option.splits list.splits if_splits)
next
  case (Inr d)
  then show ?thesis using kd_bytes_parse by simp
qed

text \<open>
  C28. The tag edits are made one by one from the bottom of the file, each with the line numbers of the
  original file. When the edits of the items are at ascending lines, the result is the simultaneous
  edit of the original lines: every line is kept, rewritten or followed by an inserted line, each edit
  computed from the original file.
\<close>
theorem setNewTags_simultaneous:
  assumes "sorted (map fst tags)"
    and "sorted_wrt (\<lambda>a b. item_pos (kd_image_nodes d) a < item_pos (kd_image_nodes d) b) tags"
    and "setNewTags rt yl d tags = Inr d'"
  shows "\<exists>es. list_all2 (\<lambda>it e. item_edit rt yl (kd_image_nodes d) (kd_lines d) it = Inr e) tags es \<and>
    d' = d\<lparr>kd_lines := apply_all es (kd_lines d)\<rparr>"
  using assms set_tags_loop_all [of d tags rt yl d'] by (simp add: setNewTags_def sort_key_id_if_sorted)

lemma sample_setNewTags:
  "setNewTags rt sample_yl (sample_doc sample_lines) [(0, ''v2''), (1, ''v2'')] =
     Inr (sample_doc [''images:'', ''  - name: h/a'', ''    newTag: v2'', ''  - name: h/b'', ''    newTag: v2''])"
proof -
  let ?ls = "[''images:'', ''  - name: h/a'', ''    newTag: v1'', ''  - name: h/b'', ''    newTag: v2'']"
  have first: "setNewTag rt sample_yl (sample_doc sample_lines) 1 ''v2'' = Inr (sample_doc ?ls)"
    using sample_edits(2) [of rt] by (simp add: setNewTag_edit sample_doc_def) (simp add: sample_lines_def)
  have "item_edit rt sample_yl sample_items ?ls (0, ''v2'') = Inr (Rewrite 2 ''    newTag: v2'')"
    using item_edit_Inr [OF sample_edits(1), of rt]
    by (elim conjE allE [of _ ?ls]) (simp add: sample_lines_def numeral_eq_Suc)
  then have "setNewTag rt sample_yl (sample_doc ?ls) 0 ''v2'' = Inr (sample_doc (?ls[2 := ''    newTag: v2'']))"
    by (simp add: setNewTag_edit sample_doc_def)
  with first show ?thesis
    by (simp add: setNewTags_def sort_key_id_if_sorted numeral_eq_Suc)
qed

theorem setNewTags_simultaneous_witness:
  "\<exists>es. list_all2 (\<lambda>it e. item_edit sample_runtime sample_yl sample_items sample_lines it = Inr e)
         [(0, ''v2''), (1, ''v2'')] es \<and>
     apply_all es sample_lines =
       [''images:'', ''  - name: h/a'', ''    newTag: v2'', ''  - name: h/b'', ''    newTag: v2'']"
proof -
  have "sorted_wrt (\<lambda>a b. item_pos (kd_image_nodes (sample_doc sample_lines)) a <
      item_pos (kd_image_nodes (sample_doc sample_lines)) b) [(0, ''v2''), (1, ''v2'')]"
    by (simp add: sample_doc_def item_pos_def sample_items_def scalar_node_def newTagField_def last_line_def)
  from setNewTags_simultaneous [OF _ this sample_setNewTags, of sample_runtime] show ?thesis
    by (auto simp: sample_doc_def)
qed

text \<open>
  C29. A tag that is written can be found again: whatever the tag, the scalar the document writes for it
  is delimited exactly by the reader of its own style, before the end of the line, blanks or a
  comment. So a later update replaces the whole of it and nothing else.
\<close>
theorem written_scalar_delimited:
  assumes "scalar_tail rest"
  shows "scalarTokenLength (formatScalar rt yl v @ rest) (scalar_style yl v) = Inr (length (formatScalar rt yl v))"
  using assms by (rule scalarTokenLength_format)

theorem written_scalar_delimited_witness:
  "scalarTokenLength (formatScalar sample_runtime sample_yl ''v2'' @ ''  # pinned'') (scalar_style sample_yl ''v2'') = Inr 2"
proof -
  have "scalar_tail ''  # pinned''"
    unfolding scalar_tail_def by (rule exI [of _ "'' ''"], rule exI [of _ "'' # pinned''"]) (simp add: blanks_def)
  from written_scalar_delimited [OF this, of sample_runtime sample_yl "''v2''"] show ?thesis
    by (simp only: format_v2) simp
qed


lemma sample_render:
  "RenderImageManifestComment sample_codec one_image 2 = Inr (block_lines (split_on newline one_image_yaml))"
  unfolding Render_Inr using one_image_ok(1)
  by (simp add: sample_codec_def one_image_yaml_trim stamped_def doc_ok_def)
    (simp add: one_image_yaml_def newline_def not_marker_content)

lemma sample_upsert:
  "upsertImageManifest sample_yl (sample_doc sample_lines) (NewImageManifest ''h/a'' no_labels) 2 =
     Some (Inr (kd_shift 6 (sample_doc (block_lines (split_on newline one_image_yaml) @ sample_lines))))"
proof -
  have range: "headCommentRange (sample_doc sample_lines) = Some (0, 0)"
    by (simp add: headCommentRange_def sample_doc_def)
  have doc: "Upsert (existing_document sample_yl (kd_lines (sample_doc sample_lines)) None)
      (NewImageManifest ''h/a'' no_labels) = one_image"
    by (simp add: existing_document_def Upsert_one_image)
  have block: "findManifestBlock (kd_lines (sample_doc sample_lines)) 0 0 = None"
    by (simp add: findManifestBlock_def)
  have codec: "yl_codec sample_yl = sample_codec" by (simp add: sample_yl_def)
  have len: "length (block_lines (split_on newline one_image_yaml)) = 6"
    by (simp add: block_lines_def one_image_yaml_def newline_def)
  show ?thesis
    unfolding upsertImageManifest_def range option.case prod.case Let_def block doc codec sample_render sum.case
    by (simp add: len) (simp add: sample_doc_def map_idI)
qed


text \<open>
  Updating the metadata twice with the same entry is updating it once, wherever the block stands
  and whatever other comments surround it: the block that was written is found again, its document
  is read back, and rendering it once more gives the same lines. So redelivered events do not grow the
  file.
\<close>
lemma upsertImageManifest_idempotent:
  assumes "codec_ok (yl_codec yl)" and "manifest_plain m" and "doc_plain (managed_document yl d)"
    and "1 \<le> kd_images_key_line d" and "upsertImageManifest yl d m indent = Some (Inr d')"
  shows "upsertImageManifest yl d' m indent = Some (Inr d')"
  using assms by (rule upsert_again)

lemma upsertImageManifest_idempotent_witness:
  "let d' = kd_shift 6 (sample_doc (block_lines (split_on newline one_image_yaml) @ sample_lines))
   in upsertImageManifest sample_yl d' (NewImageManifest ''h/a'' no_labels) 2 = Some (Inr d')"
proof -
  have "headCommentRange (sample_doc sample_lines) = Some (0, 0)"
    by (simp add: headCommentRange_def sample_doc_def)
  then have "managed_document sample_yl (sample_doc sample_lines) = empty_document"
    by (simp add: managed_document_def managed_block_def findManifestBlock_def existing_document_def)
  then have "doc_plain (managed_document sample_yl (sample_doc sample_lines))"
    by (simp add: doc_plain_def empty_document_def)
  moreover have "manifest_plain (NewImageManifest ''h/a'' no_labels)"
    using one_image_ok(2) by (simp add: one_image_def doc_plain_def)
  moreover have "codec_ok (yl_codec sample_yl)" using sample_codec_ok by (simp add: sample_yl_def)
  moreover have "1 \<le> kd_images_key_line (sample_doc sample_lines)" by (simp add: sample_doc_def)
  ultimately show ?thesis
    unfolding Let_def using sample_upsert by (intro upsertImageManifest_idempotent)
qed

text \<open>
  Finding. An entry in flow style loses the rest of its line: a plain scalar is taken to reach to the end of
  the line or to a comment, so replacing the tag of \<open>- {name: h/a, newTag: v1}\<close> also drops the closing
  brace, and the file that is written is no longer valid YAML.
\<close>
theorem flow_entry_truncated:
  "case replaceScalar rt sample_yl (sample_doc [''images:'', ''- {name: h/a, newTag: v1}'']) (scalar_node ''v1'' 2 23) ''v2'' of
     Inl e \<Rightarrow> False
   | Inr d' \<Rightarrow> kd_lines d' = [''images:'', ''- {name: h/a, newTag: v2'']"
  using format_v2 [of rt]
  by (simp add: replaceScalar_def scalar_node_def sample_doc_def scalarTokenLength_def plainTokenLength_def
      PlainStyle_def SingleQuotedStyle_def DoubleQuotedStyle_def blanks_def trim_right_def Let_def numeral_eq_Suc)

text \<open>
  Finding. On a file with CRLF line ends the edited line loses its carriage return, because it is counted as
  part of the plain scalar; the other lines keep theirs.
\<close>
theorem crlf_dropped:
  "case replaceScalar rt sample_yl (sample_doc [''images:'' @ [CHR 0x0D], ''- newTag: v1'' @ [CHR 0x0D]])
          (scalar_node ''v1'' 2 11) ''v2'' of
     Inl e \<Rightarrow> False
   | Inr d' \<Rightarrow> kd_lines d' = [''images:'' @ [CHR 0x0D], ''- newTag: v2'']"
  using format_v2 [of rt]
  by (simp add: replaceScalar_def scalar_node_def sample_doc_def scalarTokenLength_def plainTokenLength_def
      PlainStyle_def SingleQuotedStyle_def DoubleQuotedStyle_def blanks_def trim_right_def Let_def numeral_eq_Suc)

end
