(* ===== verification/Filesystem.thy ===== *)
theory Filesystem
  imports Errors
begin

text \<open>
  The part of the \<open>os\<close> and \<open>path/filepath\<close> packages the kustomize adapter uses, on a tree of files. A
  symbolic link carries the node it resolves to, if any: an operation on a path below it follows it,
  \<open>Lstat\<close> on the link itself does not. What else can go wrong is decided by an environment that tells,
  per path, whether an operation fails: every error of the operating system other than a missing
  file comes from it. None of these definitions models code of the repository.
\<close>

datatype fnode =
    FFile string nat                  \<comment> \<open>content and permission bits\<close>
  | FDir "(string \<times> fnode) list"     \<comment> \<open>entries in the order of \<open>ReadDir\<close>, by name\<close>
  | FSymlink "fnode option"
  | FOther

record os_env =
  oe_lstat_fault :: "string list \<Rightarrow> go_error option"
  oe_readdir_fault :: "string list \<Rightarrow> go_error option"
  oe_info_fault :: "string list \<Rightarrow> go_error option"
  oe_open_fault :: "string list \<Rightarrow> go_error option"
  oe_read_fault :: "string list \<Rightarrow> go_error option"
  oe_write_fault :: "string list \<Rightarrow> (go_error \<times> string) option"  \<comment> \<open>with what is left in the file\<close>
  oe_cancelled :: "string list \<Rightarrow> go_error option"                 \<comment> \<open>\<open>ctx.Err()\<close> when the path is visited\<close>

definition no_faults :: os_env where
  "no_faults = \<lparr>oe_lstat_fault = (\<lambda>_. None), oe_readdir_fault = (\<lambda>_. None), oe_info_fault = (\<lambda>_. None),
     oe_open_fault = (\<lambda>_. None), oe_read_fault = (\<lambda>_. None), oe_write_fault = (\<lambda>_. None),
     oe_cancelled = (\<lambda>_. None)\<rparr>"

lemma no_faults_simps [simp]:
  "oe_lstat_fault no_faults p = None" "oe_readdir_fault no_faults p = None" "oe_info_fault no_faults p = None"
  "oe_open_fault no_faults p = None" "oe_read_fault no_faults p = None" "oe_write_fault no_faults p = None"
  "oe_cancelled no_faults p = None"
  by (simp_all add: no_faults_def)

definition is_symlink :: "fnode \<Rightarrow> bool" where
  "is_symlink n = (case n of FSymlink _ \<Rightarrow> True | _ \<Rightarrow> False)"

definition is_regular :: "fnode \<Rightarrow> bool" where
  "is_regular n = (case n of FFile _ _ \<Rightarrow> True | _ \<Rightarrow> False)"

text \<open>The entries seen when a path continues below a node.\<close>

definition entries_below :: "fnode \<Rightarrow> (string \<times> fnode) list" where
  "entries_below n = (case n of FDir es \<Rightarrow> es | FSymlink (Some (FDir es)) \<Rightarrow> es | _ \<Rightarrow> [])"

fun fs_lookup :: "fnode \<Rightarrow> string list \<Rightarrow> fnode option" where
  "fs_lookup n [] = Some n"
| "fs_lookup n (p # ps) =
     (case map_of (entries_below n) p of None \<Rightarrow> None | Some c \<Rightarrow> fs_lookup c ps)"

fun put_entry :: "string \<Rightarrow> fnode \<Rightarrow> (string \<times> fnode) list \<Rightarrow> (string \<times> fnode) list" where
  "put_entry p c [] = []"
| "put_entry p c ((q, d) # es) = (if q = p then (q, c) # es else (q, d) # put_entry p c es)"

definition with_entries :: "fnode \<Rightarrow> (string \<times> fnode) list \<Rightarrow> fnode" where
  "with_entries n es = (case n of FDir _ \<Rightarrow> FDir es | FSymlink (Some (FDir _)) \<Rightarrow> FSymlink (Some (FDir es)) | _ \<Rightarrow> n)"

text \<open>Replacing the node at a path that exists; nothing changes when it does not.\<close>

fun fs_update :: "fnode \<Rightarrow> string list \<Rightarrow> fnode \<Rightarrow> fnode" where
  "fs_update n [] m = m"
| "fs_update n (p # ps) m =
     (case map_of (entries_below n) p of
        None \<Rightarrow> n
      | Some c \<Rightarrow> with_entries n (put_entry p (fs_update c ps m) (entries_below n)))"

lemma entries_with_entries: "entries_below n \<noteq> [] \<Longrightarrow> entries_below (with_entries n es) = es"
  by (auto simp: entries_below_def with_entries_def split: fnode.splits option.splits)

lemma map_of_put_entry:
  "map_of es p \<noteq> None \<Longrightarrow> map_of (put_entry p c es) q = (if q = p then Some c else map_of es q)"
  by (induction es) auto

lemma map_of_entries_nonempty: "map_of es p = Some c \<Longrightarrow> es \<noteq> []"
  by auto

lemma lookup_update_same: "fs_lookup n ps \<noteq> None \<Longrightarrow> fs_lookup (fs_update n ps m) ps = Some m"
proof (induction n ps m rule: fs_update.induct)
  case (2 n p ps m)
  then show ?case
    using entries_with_entries [OF map_of_entries_nonempty]
    by (auto simp: map_of_put_entry split: option.splits)
qed simp

text \<open>Paths that part before either ends are independent.\<close>

definition parallel_paths :: "string list \<Rightarrow> string list \<Rightarrow> bool" where
  "parallel_paths ps qs \<longleftrightarrow> take (length qs) ps \<noteq> take (length ps) qs"

lemma lookup_update_other:
  "parallel_paths ps qs \<Longrightarrow> fs_lookup (fs_update n ps m) qs = fs_lookup n qs"
proof (induction n ps m arbitrary: qs rule: fs_update.induct)
  case (1 n m)
  then show ?case by (simp add: parallel_paths_def)
next
  case (2 n p ps m)
  then obtain q qs' where qs: "qs = q # qs'" by (cases qs) (simp_all add: parallel_paths_def)
  show ?case
  proof (cases "map_of (entries_below n) p")
    case (Some c)
    have below: "entries_below (with_entries n es) = es" for es
      using entries_with_entries [OF map_of_entries_nonempty [OF Some]] .
    show ?thesis
    proof (cases "q = p")
      case True
      then have "parallel_paths ps qs'" using 2(2) qs by (simp add: parallel_paths_def)
      then show ?thesis using 2(1) [OF Some] True qs Some by (simp add: below map_of_put_entry)
    next
      case False
      then show ?thesis using qs Some by (simp add: below map_of_put_entry)
    qed
  qed simp
qed

lemma lookup_append: "fs_lookup n (ps @ qs) = (case fs_lookup n ps of None \<Rightarrow> None | Some c \<Rightarrow> fs_lookup c qs)"
  by (induction n ps rule: fs_lookup.induct) (auto split: option.splits)

section \<open>Path names\<close>

text \<open>The components of an absolute path name, or of a relative one below where it is taken.\<close>

definition path_comps :: "string \<Rightarrow> string list" where
  "path_comps s = (let c = path_clean s in if c = ''.'' then [] else filter (\<lambda>w. w \<noteq> []) (split_on (CHR ''/'') c))"

definition lstat :: "os_env \<Rightarrow> fnode \<Rightarrow> string list \<Rightarrow> (go_error, fnode) result" where
  "lstat env fs p = (case oe_lstat_fault env p of
     Some e \<Rightarrow> Inl e
   | None \<Rightarrow> (case fs_lookup fs p of None \<Rightarrow> Inl (Sentinel OsErrNotExist) | Some n \<Rightarrow> Inr n))"

text \<open>No component of a path is a symbolic link: missing ones do not count.\<close>

definition no_symlink_on :: "fnode \<Rightarrow> string list \<Rightarrow> string list \<Rightarrow> bool" where
  "no_symlink_on fs base ps \<longleftrightarrow>
     list_all (\<lambda>k. case fs_lookup fs (base @ take k ps) of None \<Rightarrow> True | Some n \<Rightarrow> \<not> is_symlink n) [1..<Suc (length ps)]"

end
