(* ===== verification/Patcher.thy ===== *)
theory Patcher
  imports Document Filesystem
begin

text \<open>
  The operations of \<open>internal/infrastructure/manifest/kustomize/patcher.go\<close> on a checked-out working
  copy: \<open>Resolve\<close>, which expands a recursive pattern by walking the directories, and \<open>Patch\<close>, which
  rewrites one kustomization.yaml. The file system is the tree of \<open>Filesystem\<close>; its root is the root
  of all absolute path names. \<open>Patch\<close> returns the file system after it and its error; \<open>None\<close> is the
  panic of an index out of range in the document.
\<close>

record image_update =
  iu_image :: string
  iu_new_tag :: string
  iu_manifest :: "image_manifest option"

record patcher = pt_indent :: int

definition FileName :: string where "FileName = ''kustomization.yaml''"
definition maxManifestSize :: nat where "maxManifestSize = 8 * 2 ^ 20"

definition WithIndent :: "int \<Rightarrow> patcher \<Rightarrow> patcher" where
  "WithIndent indent p = (if IsValidImageManifestIndent indent then p\<lparr>pt_indent := indent\<rparr> else p)"

definition NewPatcher :: "(patcher \<Rightarrow> patcher) list \<Rightarrow> patcher" where
  "NewPatcher opts = foldl (\<lambda>p opt. opt p) \<lparr>pt_indent = ImageManifestIndentDefault\<rparr> opts"

section \<open>Resolving directories\<close>

text \<open>The loop of \<open>rejectSymlinkPath\<close> from the components of \<open>current\<close>.\<close>

fun reject_loop :: "os_env \<Rightarrow> fnode \<Rightarrow> string list \<Rightarrow> string list \<Rightarrow> go_error option" where
  "reject_loop env fs current [] = None"
| "reject_loop env fs current (segment # segments) =
     (case lstat env fs (current @ [segment]) of
        Inl err \<Rightarrow>
          if errors_is OsErrNotExist err then None
          else Some (Errorf ''inspect manifest path %s: %w'' [AStr (join_with ''/'' (current @ [segment]))] [err])
      | Inr info \<Rightarrow>
          if is_symlink info
          then Some (Errorf ''%w: manifest path component %s is a symlink''
                 [AStr (join_with ''/'' (current @ [segment]))] [Sentinel ErrInvalidManifest])
          else reject_loop env fs (current @ [segment]) segments)"

definition rejectSymlinkPath :: "os_env \<Rightarrow> fnode \<Rightarrow> string \<Rightarrow> string \<Rightarrow> go_error option" where
  "rejectSymlinkPath env fs checkoutRoot relative =
     (if has_prefix ''/'' relative
      then Some (Errorf ''%w: manifest path %q is absolute'' [AStr relative] [Sentinel ErrInvalidManifest])
      else (let cleaned = path_clean relative in
        if cleaned = ''..'' \<or> has_prefix ''../'' cleaned
        then Some (Errorf ''%w: manifest path %q escapes the checkout'' [AStr relative] [Sentinel ErrInvalidManifest])
        else reject_loop env fs (path_comps checkoutRoot) (splitManifestPath cleaned)))"

text \<open>
  The callback of the walk on a file with the name \<open>name\<close> in the directory with components \<open>rel\<close>
  below the checkout root: the directories it appends.
\<close>

definition visit_file ::
    "os_env \<Rightarrow> fnode \<Rightarrow> string \<Rightarrow> string list \<Rightarrow> nat \<Rightarrow> string list \<Rightarrow> string \<Rightarrow> fnode \<Rightarrow> (go_error, string list) result" where
  "visit_file env fs checkoutRoot segments wildcard rel name entry =
     (if name \<noteq> FileName \<or> is_symlink entry then Inr []
      else (case oe_info_fault env (path_comps checkoutRoot @ rel @ [name]) of
          Some err \<Rightarrow> Inl err
        | None \<Rightarrow>
            if \<not> is_regular entry then Inr []
            else (let relative = (if rel = [] then ''.'' else join_with ''/'' rel) in
              if has_prefix ''/'' relative \<or> relative = ''..'' \<or> has_prefix ''../'' relative
              then Inl (Errorf ''%w: manifest path %s escapes checkout %s''
                     [AStr (join_with ''/'' (rel @ [name])), AStr checkoutRoot] [Sentinel ErrInvalidManifest])
              else (let directory = (if relative = ''.'' then [] else relative) in
                if \<not> matchesRecursiveManifestPath segments (splitManifestPath directory) wildcard then Inr []
                else (case rejectSymlinkPath env fs checkoutRoot directory of
                        Some err \<Rightarrow> Inl err
                      | None \<Rightarrow> Inr [directory])))))"

text \<open>\<open>filepath.WalkDir\<close> below a node at \<open>rel\<close>, and over the entries of the directory \<open>rel\<close>.\<close>

fun walk_node ::
    "os_env \<Rightarrow> fnode \<Rightarrow> string \<Rightarrow> string list \<Rightarrow> nat \<Rightarrow> string list \<Rightarrow> string \<Rightarrow> string list \<Rightarrow> fnode \<Rightarrow> (go_error, string list) result"
  and walk_entries ::
    "os_env \<Rightarrow> fnode \<Rightarrow> string \<Rightarrow> string list \<Rightarrow> nat \<Rightarrow> string list \<Rightarrow> (string \<times> fnode) list \<Rightarrow> (go_error, string list) result"
where
  "walk_node env fs checkoutRoot segments wildcard parent name rel node =
     (case oe_cancelled env (path_comps checkoutRoot @ rel) of
        Some err \<Rightarrow> Inl err
      | None \<Rightarrow>
          (case node of
             FDir entries \<Rightarrow>
               if name = ''.git'' then Inr []
               else (case oe_readdir_fault env (path_comps checkoutRoot @ rel) of
                       Some err \<Rightarrow> Inl err
                     | None \<Rightarrow> walk_entries env fs checkoutRoot segments wildcard rel entries)
           | _ \<Rightarrow> visit_file env fs checkoutRoot segments wildcard parent name node))"
| "walk_entries env fs checkoutRoot segments wildcard rel [] = Inr []"
| "walk_entries env fs checkoutRoot segments wildcard rel ((name, node) # entries) =
     (case walk_node env fs checkoutRoot segments wildcard rel name (rel @ [name]) node of
        Inl err \<Rightarrow> Inl err
      | Inr found \<Rightarrow>
          (case walk_entries env fs checkoutRoot segments wildcard rel entries of
             Inl err \<Rightarrow> Inl err
           | Inr others \<Rightarrow> Inr (found @ others)))"

text \<open>The index of the first recursive wildcard; \<open>None\<close> is the initial \<open>-1\<close>.\<close>

fun find_wildcard :: "nat \<Rightarrow> string list \<Rightarrow> nat option" where
  "find_wildcard i [] = None"
| "find_wildcard i (segment # segments) = (if segment = ''**'' then Some i else find_wildcard (Suc i) segments)"

definition Resolve :: "os_env \<Rightarrow> fnode \<Rightarrow> string \<Rightarrow> string \<Rightarrow> (go_error, string list) result" where
  "Resolve env fs checkoutRoot pat =
     (let segments = splitManifestPath pat in
      case find_wildcard 0 segments of
        None \<Rightarrow> (case rejectSymlinkPath env fs checkoutRoot pat of Some err \<Rightarrow> Inl err | None \<Rightarrow> Inr [pat])
      | Some wildcard \<Rightarrow>
          (let prefix = join_with ''/'' (take wildcard segments) in
           case rejectSymlinkPath env fs checkoutRoot prefix of
             Some err \<Rightarrow> Inl err
           | None \<Rightarrow>
               (let rel = path_comps prefix;
                    walkRoot = path_comps checkoutRoot @ rel;
                    walked = (case lstat env fs walkRoot of
                       Inl err \<Rightarrow> Inl err
                     | Inr node \<Rightarrow> walk_node env fs checkoutRoot segments wildcard (butlast rel)
                         (if walkRoot = [] then ''/'' else last walkRoot) rel node) in
                case walked of
                  Inl err \<Rightarrow>
                    if errors_is OsErrNotExist err
                    then Inl (Errorf ''%w: no manifest directory matches %q'' [AStr pat] [Sentinel ErrManifestNotFound])
                    else Inl (Errorf ''walk manifest directories for %q: %w'' [AStr pat] [err])
                | Inr matches \<Rightarrow>
                    if matches = []
                    then Inl (Errorf ''%w: no manifest directory matches %q'' [AStr pat] [Sentinel ErrManifestNotFound])
                    else Inr (sort matches))))"

section \<open>Patching a directory\<close>

definition readFileLimited :: "os_env \<Rightarrow> string list \<Rightarrow> string \<Rightarrow> nat \<Rightarrow> (go_error, string) result" where
  "readFileLimited env path content limit =
     (case oe_open_fault env path of
        Some err \<Rightarrow> Inl err
      | None \<Rightarrow>
          (case oe_read_fault env path of
             Some err \<Rightarrow> Inl err
           | None \<Rightarrow>
               (let data = take (limit + 1) content in
                if limit < length data
                then Inl (Errorf ''%w: file exceeds the %d byte limit'' [AInt (int limit)] [Sentinel ErrFileTooLarge])
                else Inr data)))"

text \<open>What the parsed document becomes: the edits of the tags, then the metadata block.\<close>

definition edit_document ::
    "runtime \<Rightarrow> yaml_lib \<Rightarrow> patcher \<Rightarrow> kdoc \<Rightarrow> image_update \<Rightarrow> (go_error, kdoc) result option" where
  "edit_document rt yl p doc update =
     (case replaceTag (kd_images doc) (iu_image update) (iu_new_tag update) of
        Inl err \<Rightarrow> Some (Inl err)
      | Inr updated \<Rightarrow>
          (let changed = changedNewTags (kd_images doc) updated in
           if changed = []
           then Some (Inl (Errorf ''%w: %s already points at %s'' [AStr FileName, AStr (iu_new_tag update)] [Sentinel ErrNoDifference]))
           else (case setNewTags rt yl doc changed of
                   Inl err \<Rightarrow> Some (Inl (Errorf ''%w: failed to update the image tags: %v'' [] [Sentinel ErrInvalidManifest]))
                 | Inr doc1 \<Rightarrow>
                     (case iu_manifest update of
                        None \<Rightarrow> Some (Inr doc1)
                      | Some manifest \<Rightarrow>
                          (case upsertImageManifest yl doc1 manifest (pt_indent p) of
                             None \<Rightarrow> None
                           | Some (Inl err) \<Rightarrow> Some (Inr doc1)
                           | Some (Inr doc2) \<Rightarrow> Some (Inr doc2))))))"

definition Patch ::
    "runtime \<Rightarrow> yaml_lib \<Rightarrow> os_env \<Rightarrow> patcher \<Rightarrow> fnode \<Rightarrow> string \<Rightarrow> image_update \<Rightarrow> (fnode \<times> go_error option) option" where
  "Patch rt yl env p fs dir update =
     (let path = path_comps (path_join [dir, FileName]); shown = AStr (path_join [dir, FileName]) in
      case lstat env fs path of
        Inl err \<Rightarrow>
          if errors_is OsErrNotExist err then Some (fs, Some (Errorf ''%w: %s'' [shown] [Sentinel ErrManifestNotFound]))
          else Some (fs, Some (Errorf ''failed to inspect %s: %w'' [shown] [err]))
      | Inr info \<Rightarrow>
          (case info of
             FFile content perm \<Rightarrow>
               if maxManifestSize < length content
               then Some (fs, Some (Errorf ''%w: %s is too large: %d bytes exceeds the %d byte limit''
                      [shown, AInt (int (length content)), AInt (int maxManifestSize)] [Sentinel ErrInvalidManifest]))
               else (case readFileLimited env path content maxManifestSize of
                  Inl err \<Rightarrow>
                    if errors_is ErrFileTooLarge err then Some (fs, Some (Errorf ''%w: %s: %v'' [shown] [Sentinel ErrInvalidManifest]))
                    else Some (fs, Some (Errorf ''failed to read %s: %w'' [shown] [err]))
                | Inr data \<Rightarrow>
                    (case kd_parse yl data of
                       Inl err \<Rightarrow> Some (fs, Some (Errorf ''%w: failed to parse %s: %v'' [shown] [Sentinel ErrInvalidManifest]))
                     | Inr doc \<Rightarrow>
                         (case edit_document rt yl p doc update of
                            None \<Rightarrow> None
                          | Some (Inl err) \<Rightarrow> Some (fs, Some err)
                          | Some (Inr doc') \<Rightarrow>
                              (case oe_write_fault env path of
                                 Some (err, left) \<Rightarrow> Some (fs_update fs path (FFile left perm),
                                   Some (Errorf ''failed to write %s: %w'' [shown] [err]))
                               | None \<Rightarrow> Some (fs_update fs path (FFile (kd_bytes doc') perm), None)))))
           | _ \<Rightarrow> Some (fs, Some (Errorf ''%w: %s is not a regular file'' [shown] [Sentinel ErrInvalidManifest]))))"

section \<open>No directory through a symbolic link\<close>

text \<open>A fault is an error other than the one for a missing file.\<close>

definition env_ok :: "os_env \<Rightarrow> bool" where
  "env_ok env \<longleftrightarrow> (\<forall>p e. oe_lstat_fault env p = Some e \<longrightarrow> \<not> errors_is OsErrNotExist e)"

lemma env_ok_no_faults: "env_ok no_faults"
  by (simp add: env_ok_def no_faults_def)

lemma no_symlink_on_iff:
  "no_symlink_on fs base ps \<longleftrightarrow>
     (\<forall>k. 1 \<le> k \<longrightarrow> k \<le> length ps \<longrightarrow> (\<forall>n. fs_lookup fs (base @ take k ps) = Some n \<longrightarrow> \<not> is_symlink n))"
proof -
  have all: "list_all P [1..<Suc m] \<longleftrightarrow> (\<forall>k. 1 \<le> k \<longrightarrow> k \<le> m \<longrightarrow> P k)" for P m
    by (auto simp: list_all_iff less_Suc_eq_le)
  have lookup: "(case x of None \<Rightarrow> True | Some n \<Rightarrow> \<not> is_symlink n) \<longleftrightarrow> (\<forall>n. x = Some n \<longrightarrow> \<not> is_symlink n)" for x
    by (cases x) auto
  show ?thesis unfolding no_symlink_on_def all lookup ..
qed

lemma missing_below: "fs_lookup fs p = None \<Longrightarrow> fs_lookup fs (p @ q) = None"
  by (simp add: lookup_append)

lemma no_symlink_on_Cons:
  assumes "\<And>n. fs_lookup fs (base @ [p]) = Some n \<Longrightarrow> \<not> is_symlink n"
    and "no_symlink_on fs (base @ [p]) ps"
  shows "no_symlink_on fs base (p # ps)"
  unfolding no_symlink_on_iff
proof (intro allI impI)
  fix k n assume k: "1 \<le> k" "k \<le> length (p # ps)" "fs_lookup fs (base @ take k (p # ps)) = Some n"
  then obtain j where j: "k = Suc j" by (cases k) auto
  show "\<not> is_symlink n"
  proof (cases "j = 0")
    case True
    with k j assms(1) show ?thesis by simp
  next
    case False
    then have "1 \<le> j" "j \<le> length ps" "fs_lookup fs ((base @ [p]) @ take j ps) = Some n" using k j by simp_all
    with assms(2) show ?thesis unfolding no_symlink_on_iff by blast
  qed
qed

lemma reject_loop_None:
  "env_ok env \<Longrightarrow> reject_loop env fs current segs = None \<Longrightarrow> no_symlink_on fs current segs"
proof (induction env fs current segs rule: reject_loop.induct)
  case (1 env fs current)
  show ?case by (simp add: no_symlink_on_iff)
next
  case (2 env fs current seg segs)
  show ?case
  proof (cases "lstat env fs (current @ [seg])")
    case (Inl err)
    with 2 have "errors_is OsErrNotExist err" by (simp split: if_splits)
    with Inl 2(2) have "fs_lookup fs (current @ [seg]) = None"
      by (auto simp: lstat_def env_ok_def split: option.splits)
    then have "fs_lookup fs (current @ take k (seg # segs)) = None" if "1 \<le> k" for k
      using that missing_below [of fs "current @ [seg]"] by (cases k) auto
    then show ?thesis by (simp add: no_symlink_on_iff)
  next
    case (Inr info)
    with 2 have "\<not> is_symlink info" "reject_loop env fs (current @ [seg]) segs = None"
      by (auto split: if_splits)
    moreover have "fs_lookup fs (current @ [seg]) = Some info"
      using Inr by (auto simp: lstat_def split: option.splits)
    ultimately show ?thesis using 2(1) [OF Inr] 2(2) by (intro no_symlink_on_Cons) auto
  qed
qed

text \<open>A relative directory that stays below the root and has no symbolic link on it.\<close>

definition safe_directory :: "fnode \<Rightarrow> string \<Rightarrow> string \<Rightarrow> bool" where
  "safe_directory fs checkoutRoot dir \<longleftrightarrow> \<not> has_prefix ''/'' dir \<and> path_clean dir \<noteq> ''..'' \<and>
     \<not> has_prefix ''../'' (path_clean dir) \<and>
     no_symlink_on fs (path_comps checkoutRoot) (splitManifestPath (path_clean dir))"

lemma rejectSymlinkPath_None:
  "env_ok env \<Longrightarrow> rejectSymlinkPath env fs root dir = None \<Longrightarrow> safe_directory fs root dir"
  using reject_loop_None by (auto simp: rejectSymlinkPath_def safe_directory_def Let_def split: if_splits)

section \<open>What the walk finds\<close>

definition found_ok :: "os_env \<Rightarrow> fnode \<Rightarrow> string \<Rightarrow> string list \<Rightarrow> nat \<Rightarrow> string \<Rightarrow> bool" where
  "found_ok env fs root segments wildcard dir \<longleftrightarrow>
     rejectSymlinkPath env fs root dir = None \<and>
     matchesRecursiveManifestPath segments (splitManifestPath dir) wildcard"

lemma visit_file_found:
  "visit_file env fs root segments wildcard rel name entry = Inr found \<Longrightarrow>
     list_all (found_ok env fs root segments wildcard) found"
  by (auto simp: visit_file_def found_ok_def Let_def split: if_splits option.splits)

lemma walk_found:
  "walk_node env fs root segments wildcard parent name rel node = Inr found \<Longrightarrow>
     list_all (found_ok env fs root segments wildcard) found"
  "walk_entries env fs root segments wildcard rel entries = Inr found \<Longrightarrow>
     list_all (found_ok env fs root segments wildcard) found"
proof (induction env fs root segments wildcard parent name rel node
    and env fs root segments wildcard rel entries arbitrary: found and found
    rule: walk_node_walk_entries.induct)
  case (1 env fs root segments wildcard parent name rel node)
  then show ?case
    by (auto split: option.splits fnode.splits if_splits dest: visit_file_found)
next
  case (3 env fs root segments wildcard rel name node entries)
  then show ?case by (auto split: sum.splits)
qed simp

text \<open>The wildcard \<open>Resolve\<close> works with.\<close>

lemma find_wildcard_Some:
  "find_wildcard i segs = Some w \<Longrightarrow> i \<le> w \<and> w < i + length segs \<and> segs ! (w - i) = ''**'' \<and>
     (\<forall>j<w - i. segs ! j \<noteq> ''**'')"
proof (induction i segs rule: find_wildcard.induct)
  case (2 i s segs)
  show ?case
  proof (cases "s = ''**''")
    case False
    then have IH: "Suc i \<le> w \<and> w < Suc i + length segs \<and> segs ! (w - Suc i) = ''**'' \<and>
        (\<forall>j<w - Suc i. segs ! j \<noteq> ''**'')" using 2 by simp
    then have "Suc i \<le> w" by blast
    then have w: "w - i = Suc (w - Suc i)" by simp
    have "\<forall>j<Suc (w - Suc i). (s # segs) ! j \<noteq> ''**''"
      using IH False by (simp only: All_less_Suc2 nth_Cons_0 nth_Cons_Suc) blast
    with IH w show ?thesis by simp
  qed (use 2 in simp)
qed simp

lemma Resolve_Inr:
  assumes "Resolve env fs root pat = Inr dirs"
  shows "dirs \<noteq> [] \<and> sorted dirs \<and> list_all (\<lambda>dir. rejectSymlinkPath env fs root dir = None \<and>
     (case find_wildcard 0 (splitManifestPath pat) of
        None \<Rightarrow> dir = pat
      | Some w \<Rightarrow> matchesRecursiveManifestPath (splitManifestPath pat) (splitManifestPath dir) w)) dirs"
proof (cases "find_wildcard 0 (splitManifestPath pat)")
  case None
  with assms show ?thesis by (auto simp: Resolve_def Let_def split: option.splits)
next
  case (Some w)
  with assms obtain matches node parent name rel where
    "walk_node env fs root (splitManifestPath pat) w parent name rel node = Inr matches"
    "matches \<noteq> []" "dirs = sort matches"
    by (auto simp: Resolve_def Let_def simp del: walk_node.simps split: option.splits sum.splits if_splits)
  moreover from this have "sort matches \<noteq> []" by (metis set_empty set_sort)
  ultimately show ?thesis using walk_found(1) Some by (fastforce simp: found_ok_def list_all_iff simp del: walk_node.simps)
qed

text \<open>In a tree with distinct names the walk visits what the file system has at its path.\<close>

definition fs_ok :: "fnode \<Rightarrow> bool" where
  "fs_ok fs \<longleftrightarrow> (\<forall>p es. fs_lookup fs p = Some (FDir es) \<longrightarrow> distinct (map fst es))"

text \<open>The directory with the components, empty for the root, which \<open>filepath.Rel\<close> writes as a dot.\<close>

definition dir_name :: "string list \<Rightarrow> string" where
  "dir_name comps = (if comps = [] \<or> join_with ''/'' comps = ''.'' then [] else join_with ''/'' comps)"

definition holds_manifest :: "fnode \<Rightarrow> string \<Rightarrow> string \<Rightarrow> bool" where
  "holds_manifest fs root dir \<longleftrightarrow> (\<exists>comps content perm. dir = dir_name comps \<and>
     fs_lookup fs (path_comps root @ comps @ [FileName]) = Some (FFile content perm))"

lemma visit_file_holds:
  assumes "fs_lookup fs (path_comps root @ rel @ [name]) = Some entry"
    and "visit_file env fs root segments wildcard rel name entry = Inr found"
  shows "list_all (holds_manifest fs root) found"
proof -
  consider "found = []" | "found = [dir_name rel]" "name = FileName" "is_regular entry"
    using assms(2) by (auto simp: visit_file_def dir_name_def Let_def split: if_splits option.splits)
  then show ?thesis
  proof cases
    case 2
    then obtain content perm where "entry = FFile content perm" by (cases entry) (auto simp: is_regular_def)
    with 2 assms(1) show ?thesis by (auto simp: holds_manifest_def)
  qed simp
qed

lemma walk_holds:
  assumes fs: "fs_ok fs"
  shows "walk_node env fs root segments wildcard parent name rel node = Inr found \<Longrightarrow>
      fs_lookup fs (path_comps root @ rel) = Some node \<Longrightarrow> (\<nexists>es. node = FDir es) \<longrightarrow> rel = parent @ [name] \<Longrightarrow>
      list_all (holds_manifest fs root) found"
    "walk_entries env fs root segments wildcard rel entries = Inr found \<Longrightarrow>
      \<forall>e\<in>set entries. fs_lookup fs (path_comps root @ rel @ [fst e]) = Some (snd e) \<Longrightarrow>
      list_all (holds_manifest fs root) found"
  using fs
proof (induction env fs root segments wildcard parent name rel node
    and env fs root segments wildcard rel entries arbitrary: found and found
    rule: walk_node_walk_entries.induct)
  case (1 env fs root segments wildcard parent name rel node)
  have live: "oe_cancelled env (path_comps root @ rel) = None"
    using "1.prems"(1) by (simp split: option.splits)
  show ?case
  proof (cases "\<exists>es. node = FDir es")
    case True
    then obtain es where es: "node = FDir es" by blast
    have "distinct (map fst es)" using "1.prems"(2,4) es by (auto simp: fs_ok_def)
    then have "\<forall>e\<in>set es. fs_lookup fs (path_comps root @ rel @ [fst e]) = Some (snd e)"
      using "1.prems"(2) es lookup_append [of fs "path_comps root @ rel"] by (auto simp: entries_below_def)
    with 1 es live show ?thesis by (auto split: option.splits if_splits)
  next
    case False
    then have "visit_file env fs root segments wildcard parent name node = Inr found"
      using "1.prems"(1) live by (cases node) auto
    with False "1.prems"(2,3) show ?thesis by (intro visit_file_holds) auto
  qed
next
  case (3 env fs root segments wildcard rel name node entries)
  obtain found1 found2 where found: "found = found1 @ found2"
    "walk_node env fs root segments wildcard rel name (rel @ [name]) node = Inr found1"
    "walk_entries env fs root segments wildcard rel entries = Inr found2"
    using "3.prems"(1) by (auto simp del: walk_node.simps split: sum.splits)
  have "list_all (holds_manifest fs root) found1"
    using "3.prems"(2,3) by (intro "3.IH"(1) [OF found(2)]) auto
  moreover have "list_all (holds_manifest fs root) found2"
    using "3.prems"(2,3) by (intro "3.IH"(2) [OF found(2,3)]) auto
  ultimately show ?case using found(1) by simp
qed simp

lemma Resolve_holds:
  assumes fs: "fs_ok fs" and root: "fs_lookup fs (path_comps root) = Some (FDir es)"
    and pat: "find_wildcard 0 (splitManifestPath pat) = Some w" and dirs: "Resolve env fs root pat = Inr dirs"
  shows "list_all (holds_manifest fs root) dirs"
proof -
  let ?rel = "path_comps (join_with ''/'' (take w (splitManifestPath pat)))"
  let ?name = "if path_comps root @ ?rel = [] then ''/'' else last (path_comps root @ ?rel)"
  obtain matches node where walk:
      "walk_node env fs root (splitManifestPath pat) w (butlast ?rel) ?name ?rel node = Inr matches"
      "lstat env fs (path_comps root @ ?rel) = Inr node" "dirs = sort matches"
    using pat dirs by (auto simp: Resolve_def Let_def simp del: walk_node.simps split: option.splits sum.splits if_splits)
  have node: "fs_lookup fs (path_comps root @ ?rel) = Some node"
    using walk(2) by (auto simp: lstat_def split: option.splits)
  have "(\<nexists>es. node = FDir es) \<longrightarrow> ?rel = butlast ?rel @ [?name]"
    using root node by (cases "?rel = []") auto
  from walk_holds(1) [OF fs walk(1) node this] walk(3) show ?thesis by (simp add: list_all_iff)
qed

text \<open>Without faults of the operating system every failure is terminal.\<close>

lemma lstat_no_faults: "lstat no_faults fs p = (case fs_lookup fs p of None \<Rightarrow> Inl (Sentinel OsErrNotExist) | Some n \<Rightarrow> Inr n)"
  by (simp add: lstat_def no_faults_def)

section \<open>Patching\<close>

definition manifest_path :: "string \<Rightarrow> string list" where
  "manifest_path dir = path_comps (path_join [dir, FileName])"

lemma edit_document_Inl:
  "edit_document rt yl p doc u = Some (Inl e) \<Longrightarrow>
     \<exists>k\<in>{ErrImageNotManaged, ErrNoDifference, ErrInvalidManifest}. \<forall>t. errors_is t e \<longleftrightarrow> t = k"
  by (auto simp: edit_document_def replaceTag_eq Let_def split: sum.splits option.splits if_splits)

lemma Patch_cases:
  assumes "Patch rt yl env p fs dir u = Some (fs', err)"
  obtains (failed) e where "err = Some e" "fs' = fs"
  | (write_failed) e left content perm where "err = Some (Errorf ''failed to write %s: %w'' [AStr (path_join [dir, FileName])] [e])"
      "oe_write_fault env (manifest_path dir) = Some (e, left)"
      "fs_lookup fs (manifest_path dir) = Some (FFile content perm)"
      "fs' = fs_update fs (manifest_path dir) (FFile left perm)"
  | (patched) content perm doc doc' where "err = None"
      "fs_lookup fs (manifest_path dir) = Some (FFile content perm)" "length content \<le> maxManifestSize"
      "oe_lstat_fault env (manifest_path dir) = None" "oe_open_fault env (manifest_path dir) = None"
      "oe_read_fault env (manifest_path dir) = None"
      "kd_parse yl content = Inr doc" "edit_document rt yl p doc u = Some (Inr doc')"
      "fs' = fs_update fs (manifest_path dir) (FFile (kd_bytes doc') perm)"
proof (cases "err = None \<or> fs' \<noteq> fs")
  case False
  then show ?thesis using failed by auto
next
  case True
  note step = assms [unfolded Patch_def Let_def manifest_path_def [symmetric]]
  obtain info where info: "lstat env fs (manifest_path dir) = Inr info"
    using step True by (auto split: sum.splits if_splits)
  then have lk: "fs_lookup fs (manifest_path dir) = Some info" "oe_lstat_fault env (manifest_path dir) = None"
    by (auto simp: lstat_def split: option.splits)
  obtain content perm where reg: "info = FFile content perm"
    using step True info by (cases info) auto
  have size: "length content \<le> maxManifestSize"
    using step True info reg by (auto split: if_splits)
  then obtain data where data: "readFileLimited env (manifest_path dir) content maxManifestSize = Inr data"
    using step True info reg by (auto split: sum.splits if_splits)
  then have io: "oe_open_fault env (manifest_path dir) = None" "oe_read_fault env (manifest_path dir) = None"
    "data = content" using size by (auto simp: readFileLimited_def split: option.splits if_splits)
  obtain doc where doc: "kd_parse yl content = Inr doc"
    using step True info reg size data io by (auto split: sum.splits if_splits)
  obtain doc' where doc': "edit_document rt yl p doc u = Some (Inr doc')"
    using step True info reg size data io doc by (auto split: option.splits sum.splits if_splits)
  show ?thesis
    using step info reg size data io doc doc' lk
    by (auto split: option.splits if_splits intro: write_failed patched)
qed

lemma edit_document_Inr:
  assumes "edit_document rt yl p doc u = Some (Inr doc')"
  obtains updated where "replaceTag (kd_images doc) (iu_image u) (iu_new_tag u) = Inr updated"
    "changedNewTags (kd_images doc) updated \<noteq> []"
  using assms by (auto simp: edit_document_def Let_def split: sum.splits if_splits)

lemma edit_document_again:
  assumes "edit_document rt yl p doc u = Some (Inr doc')"
    and "replaceTag (kd_images doc) (iu_image u) (iu_new_tag u) = Inr (kd_images doc2)"
  shows "edit_document rt yl p doc2 u =
    Some (Inl (Errorf ''%w: %s already points at %s'' [AStr FileName, AStr (iu_new_tag u)] [Sentinel ErrNoDifference]))"
  using replaceTag_again [OF assms(2)] by (simp add: edit_document_def changedNewTags_def)

text \<open>Patching a file that is there and is read without a fault depends on its content only.\<close>

lemma Patch_file:
  assumes "fs_lookup fs (manifest_path dir) = Some (FFile content perm)" and "length content \<le> maxManifestSize"
    and "oe_lstat_fault env (manifest_path dir) = None" and "oe_open_fault env (manifest_path dir) = None"
    and "oe_read_fault env (manifest_path dir) = None" and "kd_parse yl content = Inr doc"
  shows "Patch rt yl env p fs dir u =
    (case edit_document rt yl p doc u of
       None \<Rightarrow> None
     | Some (Inl err) \<Rightarrow> Some (fs, Some err)
     | Some (Inr doc') \<Rightarrow>
         (case oe_write_fault env (manifest_path dir) of
            Some (err, left) \<Rightarrow> Some (fs_update fs (manifest_path dir) (FFile left perm),
              Some (Errorf ''failed to write %s: %w'' [AStr (path_join [dir, FileName])] [err]))
          | None \<Rightarrow> Some (fs_update fs (manifest_path dir) (FFile (kd_bytes doc') perm), None)))"
proof -
  have "lstat env fs (manifest_path dir) = Inr (FFile content perm)" using assms by (simp add: lstat_def)
  moreover have "readFileLimited env (manifest_path dir) content maxManifestSize = Inr content"
    using assms by (simp add: readFileLimited_def)
  ultimately show ?thesis
    using assms(2,6) by (simp add: Patch_def manifest_path_def Let_def cong: option.case_cong sum.case_cong)
qed

section \<open>The contract of a manifest patcher\<close>

text \<open>
  \<open>ManifestPatcher\<close> of \<open>port.go\<close>, as the update service relies on it: patching one directory leaves the
  others alone, a failed patch changes nothing, and patching again what was patched reports that there
  is no difference. The images of a directory are what a client can observe.
\<close>

locale manifest_patcher =
  fixes patch :: "'s \<Rightarrow> 'd \<Rightarrow> 'u \<Rightarrow> 's \<times> go_error option" and view :: "'s \<Rightarrow> 'd \<Rightarrow> 'v"
  assumes failed: "patch s d u = (s', Some e) \<Longrightarrow> s' = s"
    and frame: "patch s d u = (s', None) \<Longrightarrow> d' \<noteq> d \<Longrightarrow> view s' d' = view s d'"
    and again: "patch s d u = (s', None) \<Longrightarrow> \<exists>e. patch s' d u = (s', Some e) \<and> errors_is ErrNoDifference e"
    and local: "view s d = view t d \<Longrightarrow> snd (patch s d u) = snd (patch t d u) \<and>
      view (fst (patch s d u)) d = view (fst (patch t d u)) d"
begin

text \<open>Two directories can be patched in either order.\<close>

lemma patch_commute:
  assumes "d \<noteq> d'" and "patch s d u = (s1, None)" and "patch s d' u' = (t1, None)"
  shows "\<exists>s2 t2. patch s1 d' u' = (s2, None) \<and> patch t1 d u = (t2, None) \<and> (\<forall>x. view s2 x = view t2 x)"
proof -
  have v: "view s1 d' = view s d'" "view t1 d = view s d" using frame assms by auto
  obtain s2 where s2: "patch s1 d' u' = (s2, None)" "view s2 d' = view t1 d'"
    using local [OF v(1), of u'] assms(3) by (cases "patch s1 d' u'") auto
  obtain t2 where t2: "patch t1 d u = (t2, None)" "view t2 d = view s1 d"
    using local [OF v(2), of u] assms(2) by (cases "patch t1 d u") auto
  have "view s2 x = view t2 x" for x
  proof (cases "x = d \<or> x = d'")
    case True
    then show ?thesis
      using frame [OF s2(1), of d] frame [OF t2(1), of d'] s2(2) t2(2) assms(1) by auto
  next
    case False
    then show ?thesis
      using frame [OF s2(1), of x] frame [OF t2(1), of x] frame [OF assms(2), of x] frame [OF assms(3), of x] by auto
  qed
  with s2(1) t2(1) show ?thesis by blast
qed

end

text \<open>
  The abstract patcher: per directory the images block of its manifest, if it has one, updated by the
  same \<open>replaceTag\<close>.
\<close>

definition patch_images :: "('d \<Rightarrow> image_entry list option) \<Rightarrow> 'd \<Rightarrow> image_update \<Rightarrow>
    ('d \<Rightarrow> image_entry list option) \<times> go_error option" where
  "patch_images s dir u =
     (case s dir of
        None \<Rightarrow> (s, Some (Sentinel ErrManifestNotFound))
      | Some images \<Rightarrow>
          (case replaceTag images (iu_image u) (iu_new_tag u) of
             Inl err \<Rightarrow> (s, Some err)
           | Inr updated \<Rightarrow>
               if changedNewTags images updated = [] then (s, Some (Sentinel ErrNoDifference))
               else (s(dir := Some updated), None)))"

lemma patch_images_None:
  "patch_images s dir u = (s', None) \<longleftrightarrow> (\<exists>images updated. s dir = Some images \<and>
     replaceTag images (iu_image u) (iu_new_tag u) = Inr updated \<and> changedNewTags images updated \<noteq> [] \<and>
     s' = s(dir := Some updated))"
  by (auto simp: patch_images_def split: option.splits sum.splits)

interpretation images: manifest_patcher patch_images "\<lambda>s (d :: 'd). s d"
proof unfold_locales
  fix s d u s' e assume "patch_images s d u = (s', Some e)"
  then show "s' = s" by (auto simp: patch_images_def split: option.splits sum.splits if_splits)
next
  fix s d u s' d' assume "patch_images s d u = (s', None)" "d' \<noteq> d"
  then show "s' d' = s d'" by (auto simp: patch_images_None)
next
  fix s d u s' assume "patch_images s d u = (s', None)"
  then obtain images updated where "s' = s(d := Some updated)"
      "replaceTag images (iu_image u) (iu_new_tag u) = Inr updated"
    unfolding patch_images_None by blast
  then show "\<exists>e. patch_images s' d u = (s', Some e) \<and> errors_is ErrNoDifference e"
    using replaceTag_again [of images "iu_image u" "iu_new_tag u" updated]
    by (simp add: patch_images_def changedNewTags_def)
next
  fix s t :: "'d \<Rightarrow> image_entry list option" and d u assume "s d = t d"
  then show "snd (patch_images s d u) = snd (patch_images t d u) \<and>
      fst (patch_images s d u) d = fst (patch_images t d u) d"
    by (auto simp: patch_images_def split: option.splits sum.splits)
qed

text \<open>The images a working copy shows at the path of a manifest.\<close>

definition images_at :: "yaml_lib \<Rightarrow> fnode \<Rightarrow> string list \<Rightarrow> image_entry list option" where
  "images_at yl fs path =
     (case fs_lookup fs path of
        Some (FFile content perm) \<Rightarrow>
          if maxManifestSize < length content then None
          else (case kd_parse yl content of Inl e \<Rightarrow> None | Inr doc \<Rightarrow> Some (kd_images doc))
      | _ \<Rightarrow> None)"

lemma images_at_file:
  "fs_lookup fs path = Some (FFile content perm) \<Longrightarrow> length content \<le> maxManifestSize \<Longrightarrow>
   kd_parse yl content = Inr doc \<Longrightarrow> images_at yl fs path = Some (kd_images doc)"
  by (simp add: images_at_def)

text \<open>Writing a file changes what is seen at its own path only.\<close>

lemma fs_lookup_file_below: "q \<noteq> [] \<Longrightarrow> fs_lookup (FFile c m) q = None"
  by (cases q) (simp_all add: entries_below_def)

lemma with_entries_dir: "(\<exists>es. with_entries n es' = FFile c m) \<longleftrightarrow> n = FFile c m"
  by (auto simp: with_entries_def split: fnode.splits option.splits)

lemma fs_update_not_file:
  "ps \<noteq> [] \<Longrightarrow> fs_update n ps (FFile c m) = FFile c' m' \<longleftrightarrow> n = FFile c' m'"
proof (cases ps)
  case (Cons p qs)
  have "map_of (entries_below (FFile c' m')) p = None" by (simp add: entries_below_def)
  then show ?thesis
    by (auto simp: Cons with_entries_def entries_below_def split: option.splits fnode.splits)
qed simp

lemma images_at_update:
  assumes old: "fs_lookup fs ps = Some (FFile c m)" and neq: "qs \<noteq> ps"
  shows "images_at yl (fs_update fs ps (FFile c' m')) qs = images_at yl fs qs"
proof (cases "parallel_paths ps qs")
  case True
  then show ?thesis by (simp add: images_at_def lookup_update_other)
next
  case False
  then consider r where "qs = ps @ r" "r \<noteq> []" | r where "ps = qs @ r" "r \<noteq> []"
    using neq by (auto simp: parallel_paths_def) (metis append_take_drop_id append_Nil2 take_all_iff nat_le_linear)
  then show ?thesis
  proof cases
    case 1
    then show ?thesis using old by (simp add: images_at_def lookup_append lookup_update_same fs_lookup_file_below)
  next
    case 2
    have upd: "fs_lookup (fs_update n (qs @ r) x) qs = map_option (\<lambda>k. fs_update k r x) (fs_lookup n qs)"
      if "fs_lookup n (qs @ r) \<noteq> None" for n x
      using that
    proof (induction qs arbitrary: n)
      case (Cons q qs)
      then obtain k where k: "map_of (entries_below n) q = Some k" by (auto split: option.splits)
      then have "entries_below n \<noteq> []" by auto
      with Cons k show ?case by (simp add: entries_with_entries map_of_put_entry)
    qed simp
    obtain k where k: "fs_lookup fs qs = Some k" "fs_lookup k r = Some (FFile c m)"
      using old 2 by (auto simp: lookup_append split: option.splits)
    then have "k \<noteq> FFile a b" for a b using 2(2) fs_lookup_file_below by auto
    moreover from this have "fs_update k r (FFile c' m') \<noteq> FFile a b" for a b
      using fs_update_not_file [OF 2(2)] by blast
    ultimately show ?thesis
      using upd [of fs "FFile c' m'"] old 2(1) k(1) by (auto simp: images_at_def split: fnode.splits)
  qed
qed

text \<open>
  What the edited text has to decode to for the patch to be effective: the images block with the new
  tags, in a file within the size limit. It is a fact about the YAML library and the edited file, and
  it fails for instance for an entry in flow style.
\<close>

definition effective :: "yaml_lib \<Rightarrow> fnode \<Rightarrow> fnode \<Rightarrow> string list \<Rightarrow> image_update \<Rightarrow> bool" where
  "effective yl fs fs' path u \<longleftrightarrow>
     (case images_at yl fs path of
        None \<Rightarrow> True
      | Some images \<Rightarrow> (case replaceTag images (iu_image u) (iu_new_tag u) of
          Inl e \<Rightarrow> True | Inr updated \<Rightarrow> images_at yl fs' path = Some updated))"

lemma Patch_edited:
  assumes "Patch rt yl env p fs dir u = Some (fs', None)"
  obtains content perm doc doc' updated where
    "fs_lookup fs (manifest_path dir) = Some (FFile content perm)" "length content \<le> maxManifestSize"
    "oe_lstat_fault env (manifest_path dir) = None" "oe_open_fault env (manifest_path dir) = None"
    "oe_read_fault env (manifest_path dir) = None"
    "kd_parse yl content = Inr doc" "edit_document rt yl p doc u = Some (Inr doc')"
    "fs' = fs_update fs (manifest_path dir) (FFile (kd_bytes doc') perm)"
    "replaceTag (kd_images doc) (iu_image u) (iu_new_tag u) = Inr updated"
    "changedNewTags (kd_images doc) updated \<noteq> []"
proof (rule Patch_cases [OF assms])
  fix content perm doc doc'
  assume *: "fs_lookup fs (manifest_path dir) = Some (FFile content perm)" "length content \<le> maxManifestSize"
    "oe_lstat_fault env (manifest_path dir) = None" "oe_open_fault env (manifest_path dir) = None"
    "oe_read_fault env (manifest_path dir) = None"
    "kd_parse yl content = Inr doc" "edit_document rt yl p doc u = Some (Inr doc')"
    "fs' = fs_update fs (manifest_path dir) (FFile (kd_bytes doc') perm)"
  show ?thesis
  proof (rule edit_document_Inr [OF *(7)])
    fix updated
    assume "replaceTag (kd_images doc) (iu_image u) (iu_new_tag u) = Inr updated"
      "changedNewTags (kd_images doc) updated \<noteq> []"
    with * show ?thesis by (rule that)
  qed
qed simp_all

lemma Patch_again_lemma:
  assumes patched: "Patch rt yl env p fs dir u = Some (fs', None)"
    and reads: "effective yl fs fs' (manifest_path dir) u"
  shows "\<exists>e. Patch rt yl env p fs' dir u = Some (fs', Some e) \<and> errors_is ErrNoDifference e"
proof (rule Patch_edited [OF patched])
  fix content perm doc doc' updated
  assume *: "fs_lookup fs (manifest_path dir) = Some (FFile content perm)" "length content \<le> maxManifestSize"
    "oe_lstat_fault env (manifest_path dir) = None" "oe_open_fault env (manifest_path dir) = None"
    "oe_read_fault env (manifest_path dir) = None"
    "kd_parse yl content = Inr doc" "edit_document rt yl p doc u = Some (Inr doc')"
    "fs' = fs_update fs (manifest_path dir) (FFile (kd_bytes doc') perm)"
    "replaceTag (kd_images doc) (iu_image u) (iu_new_tag u) = Inr updated"
  have im: "images_at yl fs' (manifest_path dir) = Some updated"
    using reads images_at_file [OF *(1,2,6)] *(9) by (simp add: effective_def)
  have lk: "fs_lookup fs' (manifest_path dir) = Some (FFile (kd_bytes doc') perm)"
    using *(1,8) by (simp add: lookup_update_same)
  with im obtain doc2 where doc2: "length (kd_bytes doc') \<le> maxManifestSize" "kd_parse yl (kd_bytes doc') = Inr doc2"
      "kd_images doc2 = updated"
    by (auto simp: images_at_def split: sum.splits if_splits)
  have "replaceTag (kd_images doc) (iu_image u) (iu_new_tag u) = Inr (kd_images doc2)" using *(9) doc2(3) by simp
  from edit_document_again [OF *(7) this] Patch_file [OF lk doc2(1) *(3,4,5) doc2(2), of rt p u]
  show ?thesis by simp
qed

lemma Patch_refines_lemma:
  assumes patched: "Patch rt yl env p fs dir u = Some (fs', None)" and eff: "effective yl fs fs' (manifest_path dir) u"
  shows "patch_images (images_at yl fs) (manifest_path dir) u = (images_at yl fs', None)"
proof (rule Patch_edited [OF patched])
  fix content perm doc doc' updated
  assume *: "fs_lookup fs (manifest_path dir) = Some (FFile content perm)" "length content \<le> maxManifestSize"
    "kd_parse yl content = Inr doc"
    "fs' = fs_update fs (manifest_path dir) (FFile (kd_bytes doc') perm)"
    "replaceTag (kd_images doc) (iu_image u) (iu_new_tag u) = Inr updated"
    "changedNewTags (kd_images doc) updated \<noteq> []"
  have im: "images_at yl fs (manifest_path dir) = Some (kd_images doc)" by (rule images_at_file [OF *(1,2,3)])
  then have "images_at yl fs' (manifest_path dir) = Some updated" using eff *(5) by (simp add: effective_def)
  moreover have "images_at yl fs' q = images_at yl fs q" if "q \<noteq> manifest_path dir" for q
    unfolding *(4) using that by (intro images_at_update [OF *(1)])
  ultimately have "images_at yl fs' = (images_at yl fs)(manifest_path dir := Some updated)" by auto
  with im *(5,6) show ?thesis by (simp add: patch_images_None)
qed

section \<open>No panic\<close>

lemma apply_edit_length: "length ls \<le> length (apply_edit e ls)"
  by (cases e) auto

lemma set_tags_loop_keeps:
  "set_tags_loop rt yl d tags = Inr d' \<Longrightarrow>
     kd_images_key_line d' = kd_images_key_line d \<and> length (kd_lines d) \<le> length (kd_lines d')"
proof (induction rt yl d tags rule: set_tags_loop.induct)
  case (2 rt yl d index tag tags)
  then obtain d1 where d1: "setNewTag rt yl d index tag = Inr d1" "set_tags_loop rt yl d1 tags = Inr d'"
    by (auto split: sum.splits)
  then obtain e where "d1 = d\<lparr>kd_lines := apply_edit e (kd_lines d)\<rparr>"
    by (auto simp: setNewTag_edit split: sum.splits)
  with 2(1) [OF d1(1,2)] apply_edit_length [of "kd_lines d" e] show ?case by simp
qed simp

lemma head_start_total: "n \<le> length ls \<Longrightarrow> head_start ls n \<noteq> None"
  by (induction n) auto

text \<open>The line of the images key lies in the file.\<close>

definition key_in_range :: "kdoc \<Rightarrow> bool" where
  "key_in_range d \<longleftrightarrow> nat (kd_images_key_line d - 1) \<le> length (kd_lines d)"

lemma upsert_total: "key_in_range d \<Longrightarrow> upsertImageManifest yl d m indent \<noteq> None"
  using head_start_total [of "nat (kd_images_key_line d - 1)" "kd_lines d"]
  by (auto simp: upsertImageManifest_def headCommentRange_def key_in_range_def Let_def
      split: option.splits sum.splits)

lemma edit_document_total: "key_in_range doc \<Longrightarrow> edit_document rt yl p doc u \<noteq> None"
proof -
  assume range: "key_in_range doc"
  have total: "upsertImageManifest yl doc1 m indent \<noteq> None" if "setNewTags rt yl doc tags = Inr doc1" for doc1 tags m indent
    using range set_tags_loop_keeps [OF that [unfolded setNewTags_def]]
    by (intro upsert_total) (simp add: key_in_range_def)
  show ?thesis
    unfolding edit_document_def Let_def by (simp split: sum.splits option.splits) (metis total)
qed

section \<open>Properties\<close>

definition one_file_changed :: "fnode \<Rightarrow> string list \<Rightarrow> fnode \<Rightarrow> bool" where
  "one_file_changed fs path fs' \<longleftrightarrow>
     (\<forall>qs. parallel_paths path qs \<longrightarrow> fs_lookup fs' qs = fs_lookup fs qs) \<and>
     (\<exists>old new perm. fs_lookup fs path = Some (FFile old perm) \<and> fs_lookup fs' path = Some (FFile new perm))"

lemma one_file_changed_update:
  "fs_lookup fs path = Some (FFile old perm) \<Longrightarrow> one_file_changed fs path (fs_update fs path (FFile new perm))"
  by (simp add: one_file_changed_def lookup_update_other lookup_update_same)

text \<open>
  C31. Patch writes to one place: when it succeeds only the kustomization.yaml of the directory has
  changed, a regular file before and after with the same permissions; when it fails nothing has
  changed, unless it is the write itself that failed, which leaves a regular file there.
\<close>
theorem Patch_one_file:
  "case Patch rt yl env p fs dir u of
     None \<Rightarrow> True
   | Some (fs', None) \<Rightarrow> one_file_changed fs (manifest_path dir) fs'
   | Some (fs', Some e) \<Rightarrow> fs' = fs \<or>
       (case oe_write_fault env (manifest_path dir) of
          None \<Rightarrow> False | Some fault \<Rightarrow> one_file_changed fs (manifest_path dir) fs')"
proof (cases "Patch rt yl env p fs dir u")
  case (Some r)
  obtain fs' err where r: "r = (fs', err)" by (cases r)
  show ?thesis
  proof (rule Patch_cases [OF Some [unfolded r]])
    fix content perm doc doc'
    assume "err = None" "fs_lookup fs (manifest_path dir) = Some (FFile content perm)"
      "fs' = fs_update fs (manifest_path dir) (FFile (kd_bytes doc') perm)"
    then show ?thesis using Some r one_file_changed_update by simp
  qed (use Some r one_file_changed_update in simp_all)
qed simp

text \<open>
  C32. When the operating system reports no fault but a missing file, every failure of Patch is one of
  the four terminal errors of the port and leaves the files alone, so a delivery that fails here is
  acknowledged and not retried; the manifest is reported missing exactly when it is missing.
\<close>
theorem Patch_terminal_errors:
  "case Patch rt yl no_faults p fs dir u of
     Some (fs', Some e) \<Rightarrow> fs' = fs \<and> \<not> errors_is ErrRetryable e \<and>
       list_ex (\<lambda>k. errors_is k e) [ErrManifestNotFound, ErrInvalidManifest, ErrImageNotManaged, ErrNoDifference] \<and>
       (errors_is ErrManifestNotFound e \<longleftrightarrow> fs_lookup fs (manifest_path dir) = None)
   | _ \<Rightarrow> True"
proof (cases "fs_lookup fs (manifest_path dir)")
  case None
  then show ?thesis by (simp add: Patch_def manifest_path_def [symmetric] Let_def lstat_no_faults)
next
  case (Some info)
  note eval = Patch_def manifest_path_def [symmetric] Let_def lstat_no_faults Some
  show ?thesis
  proof (cases info)
    case (FFile content perm)
    show ?thesis
    proof (cases "length content \<le> maxManifestSize")
      case True
      have read: "readFileLimited no_faults path content maxManifestSize = Inr content" for path
        using True by (simp add: readFileLimited_def no_faults_def)
      show ?thesis
      proof (cases "kd_parse yl content")
        case (Inl e)
        then show ?thesis using True FFile read by (simp add: eval)
      next
        case (Inr doc)
        have "Patch rt yl no_faults p fs dir u = (case edit_document rt yl p doc u of
            None \<Rightarrow> None | Some (Inl err) \<Rightarrow> Some (fs, Some err)
          | Some (Inr doc') \<Rightarrow> Some (fs_update fs (manifest_path dir) (FFile (kd_bytes doc') perm), None))"
          using Patch_file [of fs dir content perm no_faults yl doc rt p u] Some FFile True Inr
          by (simp cong: option.case_cong sum.case_cong)
        then show ?thesis using Some edit_document_Inl [of rt yl p doc u]
          by (auto split: option.splits sum.splits)
      qed
    next
      case False
      then show ?thesis using FFile by (simp add: eval)
    qed
  qed (simp_all add: eval)
qed


text \<open>
  A redelivered update is recognised: patching again what was patched, with the same environment,
  reports ErrNoDifference and does not touch the files.
\<close>
lemma Patch_again:
  assumes "Patch rt yl env p fs dir u = Some (fs', None)" and "effective yl fs fs' (manifest_path dir) u"
  shows "\<exists>e. Patch rt yl env p fs' dir u = Some (fs', Some e) \<and> errors_is ErrNoDifference e"
  using assms by (rule Patch_again_lemma)


lemma Resolve_safe: "env_ok env \<Longrightarrow> Resolve env fs root pat = Inr dirs \<Longrightarrow> list_all (safe_directory fs root) dirs"
  by (drule Resolve_Inr) (auto simp: list_all_iff intro: rejectSymlinkPath_None)

text \<open>
  C35. Resolve never leads outside the working copy: every directory it returns is relative, does not
  climb above the root, and has no symbolic link on its path. A literal pattern is returned as it is;
  a recursive one gives, in order, directories that match it and hold a regular kustomization.yaml.
\<close>
theorem Resolve_confined:
  assumes "env_ok env" and "fs_ok fs" and "fs_lookup fs (path_comps root) = Some (FDir es)"
    and "Resolve env fs root pat = Inr dirs"
  shows "dirs \<noteq> [] \<and> sorted dirs \<and> list_all (safe_directory fs root) dirs \<and>
    (case find_wildcard 0 (splitManifestPath pat) of
       None \<Rightarrow> dirs = [pat]
     | Some w \<Rightarrow> list_all (\<lambda>dir. holds_manifest fs root dir \<and>
         matchesRecursiveManifestPath (splitManifestPath pat) (splitManifestPath dir) w) dirs)"
proof -
  note found = Resolve_Inr [OF assms(4)]
  note safe = Resolve_safe [OF assms(1,4)]
  show ?thesis
  proof (cases "find_wildcard 0 (splitManifestPath pat)")
    case None
    then have "dirs = [pat]" using assms(4) by (auto simp: Resolve_def Let_def split: option.splits)
    with None found safe show ?thesis by simp
  next
    case (Some w)
    with found safe Resolve_holds [OF assms(2,3) Some assms(4)] show ?thesis by (auto simp: list_all_iff)
  qed
qed

subsection \<open>A working copy to evaluate\<close>

definition sample_tree :: "fnode \<Rightarrow> fnode" where
  "sample_tree manifest = FDir [(''w'', FDir [(''a'', FDir [(FileName, manifest)]), (''l'', FSymlink None)])]"

definition sample_update :: image_update where
  "sample_update = \<lparr>iu_image = ''h/a'', iu_new_tag = ''v2'', iu_manifest = None\<rparr>"

definition retagged_file :: string where
  "retagged_file = join_with [newline] [''images:'', ''  - name: h/a'', ''    newTag: v2'', ''  - name: h/b''] @ [newline]"

text \<open>A library that parses the file before and after the update.\<close>

definition retagged_items :: "yaml_node list" where
  "retagged_items =
     [YNode MappingNode PlainStyle [] 2 5
        [scalar_node ''name'' 2 5, scalar_node ''h/a'' 2 11, scalar_node ''newTag'' 3 5, scalar_node ''v2'' 3 13],
      YNode MappingNode PlainStyle [] 4 5 [scalar_node ''name'' 4 5, scalar_node ''h/b'' 4 11]]"

definition retagged_root :: yaml_node where
  "retagged_root = YNode DocumentNode PlainStyle [] 1 1
     [YNode MappingNode PlainStyle [] 1 1
        [scalar_node ''images'' 1 1, YNode SequenceNode PlainStyle [] 2 3 retagged_items]]"

definition retagged_images :: "image_entry list" where
  "retagged_images = [(sample_images ! 0)\<lparr>ie_new_tag := ''v2''\<rparr>, sample_images ! 1]"

definition two_yl :: yaml_lib where
  "two_yl = sample_yl\<lparr>
     yl_unmarshal := (\<lambda>s. if s = sample_file then Some sample_root else if s = retagged_file then Some retagged_root else None),
     yl_images := (\<lambda>v. Some (if yn_content v = sample_items then sample_images else retagged_images))\<rparr>"

lemma path_eval:
  "manifest_path ''/w/a'' = [''w'', ''a'', FileName]"
  "path_comps ''/w'' = [''w'']" "path_comps ''a'' = [''a'']" "path_comps [] = []" "path_clean ''a'' = ''a''"
  by (simp_all add: manifest_path_def path_comps_def path_join_def path_clean_def FileName_def Let_def)

lemma sample_lookup: "fs_lookup (sample_tree n) [''w'', ''a'', FileName] = Some n"
  by (simp add: sample_tree_def entries_below_def)

lemma sample_tree_update:
  "fs_update (sample_tree n) [''w'', ''a'', FileName] m = sample_tree m"
  by (simp add: sample_tree_def entries_below_def with_entries_def)

lemma two_yl_parse:
  "kd_parse two_yl sample_file = Inr (sample_doc sample_lines)"
  "map_option kd_images (case kd_parse two_yl retagged_file of Inl e \<Rightarrow> None | Inr d \<Rightarrow> Some d) = Some retagged_images"
proof -
  have trailing: "has_suffix [newline] sample_file" by (simp add: sample_file_def has_suffix_newline)
  have "split_on newline (butlast sample_file) = sample_lines"
    unfolding sample_file_def butlast_snoc by (rule split_join) (simp_all add: sample_lines_def newline_def)
  with trailing show "kd_parse two_yl sample_file = Inr (sample_doc sample_lines)"
    by (simp add: kd_parse_def two_yl_def sample_yl_def sample_root_def sample_doc_def scalar_node_def)
  have "retagged_file \<noteq> sample_file" "retagged_items \<noteq> sample_items"
    by (simp_all add: retagged_file_def sample_file_def sample_lines_def newline_def
        retagged_items_def sample_items_def scalar_node_def)
  then show "map_option kd_images (case kd_parse two_yl retagged_file of Inl e \<Rightarrow> None | Inr d \<Rightarrow> Some d) = Some retagged_images"
    by (simp add: kd_parse_def two_yl_def retagged_root_def scalar_node_def)
qed

lemma two_yl_edit:
  "edit_document rt two_yl p (sample_doc sample_lines) sample_update =
     Some (Inr (sample_doc [''images:'', ''  - name: h/a'', ''    newTag: v2'', ''  - name: h/b'']))"
proof -
  have tag: "replaceTag sample_images ''h/a'' ''v2'' = Inr retagged_images"
    by (simp add: replaceTag_def sample_images_def retagged_images_def replace_entry_def repositoryPath_def
        isRegistryHost_def contains_any_def before_char_def tagPieceSeparator_def Let_def)
  have changed: "changedNewTags sample_images retagged_images = [(0, ''v2'')]"
    by (simp add: changedNewTags_def sample_images_def retagged_images_def)
  have "formatScalar rt two_yl ''v2'' = ''v2''"
    by (simp add: document_eval) (simp add: two_yl_def sample_yl_def)
  then have "item_edit rt two_yl sample_items sample_lines (0, ''v2'') = Inr (Rewrite 2 ''    newTag: v2'')"
    by (simp add: item_edit_def scalar_edit_def sample_items_def scalar_node_def
        newTagField_def scalarTokenLength_def plainTokenLength_def PlainStyle_def
        SingleQuotedStyle_def DoubleQuotedStyle_def blanks_def trim_right_def Let_def sample_lines_def numeral_eq_Suc)
  then have "setNewTags rt two_yl (sample_doc sample_lines) [(0, ''v2'')] =
      Inr (sample_doc (sample_lines[2 := ''    newTag: v2'']))"
    by (simp add: setNewTags_def setNewTag_edit sample_doc_def)
  with tag changed show ?thesis
    by (simp add: edit_document_def sample_update_def sample_doc_def sample_lines_def numeral_eq_Suc)
qed

lemma short_files: "length sample_file \<le> maxManifestSize" "length retagged_file \<le> maxManifestSize"
  by (simp_all add: sample_file_def sample_lines_def retagged_file_def maxManifestSize_def)

lemma sample_patch:
  "Patch rt two_yl no_faults p (sample_tree (FFile sample_file 420)) ''/w/a'' sample_update =
     Some (sample_tree (FFile retagged_file 420), None)"
proof -
  have lk: "fs_lookup (sample_tree (FFile sample_file 420)) (manifest_path ''/w/a'') = Some (FFile sample_file 420)"
    by (simp add: path_eval sample_lookup del: fs_lookup.simps)
  have "kd_bytes (sample_doc [''images:'', ''  - name: h/a'', ''    newTag: v2'', ''  - name: h/b'']) = retagged_file"
    by (simp add: kd_bytes_def sample_doc_def retagged_file_def)
  then show ?thesis
    using Patch_file [OF lk short_files(1) _ _ _ two_yl_parse(1), of no_faults rt p sample_update]
    by (simp add: two_yl_edit) (simp add: path_eval sample_tree_update del: fs_update.simps)
qed

lemma sample_effective:
  "effective two_yl (sample_tree (FFile sample_file 420)) (sample_tree (FFile retagged_file 420))
     (manifest_path ''/w/a'') sample_update"
proof -
  have "replaceTag sample_images ''h/a'' ''v2'' = Inr retagged_images"
    by (simp add: replaceTag_def sample_images_def retagged_images_def replace_entry_def repositoryPath_def
        isRegistryHost_def contains_any_def before_char_def tagPieceSeparator_def Let_def)
  then show ?thesis
    using two_yl_parse short_files
    by (auto simp: effective_def images_at_def path_eval sample_lookup sample_update_def sample_doc_def
        simp del: fs_lookup.simps split: sum.splits)
qed


lemma Patch_again_witness:
  "\<exists>e. Patch sample_runtime two_yl no_faults (NewPatcher []) (sample_tree (FFile retagged_file 420)) ''/w/a'' sample_update =
     Some (sample_tree (FFile retagged_file 420), Some e) \<and> errors_is ErrNoDifference e"
  by (rule Patch_again [OF sample_patch sample_effective])


text \<open>The working copy \<open>/w\<close> resolves \<open>**\<close> to the directory \<open>a\<close>: the link \<open>l\<close> is not followed.\<close>

lemma fs_ok_leaf: "fs_ok (FFile c m)" "fs_ok (FSymlink None)"
proof -
  have "fs_lookup n p \<noteq> Some (FDir es)" if "n = FFile c m \<or> n = FSymlink None" for n p es
    using that by (cases p) (auto simp: entries_below_def)
  then show "fs_ok (FFile c m)" "fs_ok (FSymlink None)" by (simp_all add: fs_ok_def)
qed

lemma fs_ok_FDir:
  assumes "distinct (map fst es)" and "\<forall>e\<in>set es. fs_ok (snd e)"
  shows "fs_ok (FDir es)"
  unfolding fs_ok_def
proof (intro allI impI)
  fix p ds assume found: "fs_lookup (FDir es) p = Some (FDir ds)"
  show "distinct (map fst ds)"
  proof (cases p)
    case (Cons q qs)
    with found obtain n where "map_of es q = Some n" "fs_lookup n qs = Some (FDir ds)"
      by (auto simp: entries_below_def split: option.splits)
    with assms(2) show ?thesis by (auto simp: fs_ok_def dest: map_of_SomeD)
  qed (use found assms(1) in simp)
qed

lemma sample_tree_ok: "fs_ok (sample_tree (FFile c m))"
  unfolding sample_tree_def
  by (intro fs_ok_FDir ballI) (auto intro!: fs_ok_FDir fs_ok_leaf)

lemma sample_resolve: "Resolve no_faults (sample_tree (FFile c m)) ''/w'' ''**'' = Inr [''a'']"
  by (simp add: Resolve_def splitManifestPath_def rejectSymlinkPath_def path_comps_def path_clean_def lstat_def
      sample_tree_def entries_below_def visit_file_def is_symlink_def is_regular_def matchesRecursiveManifestPath_def
      FileName_def trim_def trim_left_def trim_right_def Let_def)

theorem Resolve_confined_witness:
  "list_all (safe_directory (sample_tree (FFile sample_file 420)) ''/w'') [''a''] \<and>
   holds_manifest (sample_tree (FFile sample_file 420)) ''/w'' ''a''"
proof -
  have "fs_lookup (sample_tree n) (path_comps ''/w'') = Some (FDir [(''a'', FDir [(FileName, n)]), (''l'', FSymlink None)])" for n
    by (simp add: path_eval sample_tree_def entries_below_def)
  from Resolve_confined [OF env_ok_no_faults sample_tree_ok this sample_resolve] show ?thesis
    by (simp add: splitManifestPath_def trim_def trim_left_def trim_right_def Let_def)
qed

text \<open>
  Finding. A manifest without an images block is reported as an invalid manifest: the parser wraps
  ErrImageNotManaged, but Patch formats that error with a verb that drops the chain, so the kind its
  own documentation announces never reaches the caller.
\<close>
theorem missing_images_block_is_invalid:
  "\<exists>yl e. kd_parse yl ''x'' = Inl e \<and> errors_is ErrImageNotManaged e \<and>
     (\<exists>e'. Patch rt yl no_faults p (sample_tree (FFile ''x'' 420)) ''/w/a'' u = Some (sample_tree (FFile ''x'' 420), Some e') \<and>
        errors_is ErrInvalidManifest e' \<and> \<not> errors_is ErrImageNotManaged e')"
proof -
  let ?yl = "sample_yl\<lparr>yl_unmarshal := (\<lambda>_. Some (YNode DocumentNode PlainStyle [] 1 1 [YNode MappingNode PlainStyle [] 1 1 []]))\<rparr>"
  obtain e where e: "kd_parse ?yl ''x'' = Inl e" "errors_is ErrImageNotManaged e" by (simp add: kd_parse_def)
  have "readFileLimited no_faults path ''x'' maxManifestSize = Inr ''x''" for path
    by (simp add: readFileLimited_def maxManifestSize_def)
  then have "\<exists>e'. Patch rt ?yl no_faults p (sample_tree (FFile ''x'' 420)) ''/w/a'' u = Some (sample_tree (FFile ''x'' 420), Some e') \<and>
      errors_is ErrInvalidManifest e' \<and> \<not> errors_is ErrImageNotManaged e'"
    using e(1) sample_lookup [of "FFile ''x'' 420"]
    by (simp add: Patch_def manifest_path_def [symmetric] path_eval lstat_def Let_def maxManifestSize_def
        readFileLimited_def del: fs_lookup.simps)
  with e show ?thesis by blast
qed

end
