(* ===== verification/Service.thy ===== *)
theory Service
  imports Plan Patcher
begin

text \<open>
  The acting half of \<open>internal/application/updater/service.go\<close>: a plan is carried out one manifest
  repository at a time through the ports of \<open>internal/model/port.go\<close>. A port is a function of the
  calls made so far, each with its answer, so it can stand for any registry, git host and working copy,
  also one whose answers change from call to call; cancellation is an error it answers. An operation
  appends the calls it makes to the history.
\<close>

section \<open>The ports\<close>

datatype action =
    ResolveMetadata image_reference "(go_error, image_metadata) result"
  | FindOpen string string string "(go_error, string) result"  \<comment> \<open>owner, repository, head\<close>
  | Checkout string "(go_error, string) result"                \<comment> \<open>answers the root of the working copy\<close>
  | ResolveDirs string string "(go_error, string list) result"
  | CreateBranch string "go_error option"
  | PatchDir string image_update "go_error option"
  | Commit string "go_error option"
  | Push string "go_error option"
  | CreatePullRequest pull_request "(go_error, string) result"
  | CloseCheckout "go_error option"

type_synonym history = "action list"

text \<open>\<open>ManifestRepository\<close> and the \<open>Checkout\<close> it hands out.\<close>

record manifest_repository =
  gh_find_open :: "history \<Rightarrow> string \<Rightarrow> string \<Rightarrow> string \<Rightarrow> (go_error, string) result"
  gh_checkout :: "history \<Rightarrow> string \<Rightarrow> (go_error, string) result"
  gh_create_branch :: "history \<Rightarrow> string \<Rightarrow> go_error option"
  gh_commit :: "history \<Rightarrow> string \<Rightarrow> go_error option"
  gh_push :: "history \<Rightarrow> string \<Rightarrow> go_error option"
  gh_close :: "history \<Rightarrow> go_error option"
  gh_create_pull_request :: "history \<Rightarrow> pull_request \<Rightarrow> (go_error, string) result"

type_synonym metadata_resolver = "history \<Rightarrow> image_reference \<Rightarrow> (go_error, image_metadata) result"
type_synonym directory_resolver = "history \<Rightarrow> string \<Rightarrow> string \<Rightarrow> (go_error, string list) result"
type_synonym patcher_port = "history \<Rightarrow> string \<Rightarrow> image_update \<Rightarrow> go_error option"

record service =
  sv_rules :: rule_set
  sv_resolver :: "metadata_resolver option"
  sv_manifests :: manifest_repository
  sv_directories :: directory_resolver
  sv_patcher :: patcher_port
  sv_messages :: message_renderer
  sv_annotate_from_labels :: bool

definition WithImageLabelAnnotation :: "bool \<Rightarrow> service \<Rightarrow> service" where
  "WithImageLabelAnnotation enabled s = s\<lparr>sv_annotate_from_labels := enabled\<rparr>"

text \<open>An option that is \<open>None\<close> is a nil port; the resolver may be nil.\<close>

definition NewService ::
    "rule_set \<Rightarrow> metadata_resolver option \<Rightarrow> manifest_repository option \<Rightarrow> directory_resolver option \<Rightarrow>
     patcher_port option \<Rightarrow> message_renderer option \<Rightarrow> (service \<Rightarrow> service) list \<Rightarrow> (go_error, service) result" where
  "NewService rules resolver manifests directories patcher messages opts =
     (if rules = [] then Inl (ErrorsNew ''updater: the rule set is empty'')
      else (case manifests of
          None \<Rightarrow> Inl (ErrorsNew ''updater: manifest repository is nil'')
        | Some m \<Rightarrow> (case directories of
            None \<Rightarrow> Inl (ErrorsNew ''updater: manifest directory resolver is nil'')
          | Some d \<Rightarrow> (case patcher of
              None \<Rightarrow> Inl (ErrorsNew ''updater: manifest patcher is nil'')
            | Some p \<Rightarrow> (case messages of
                None \<Rightarrow> Inl (ErrorsNew ''updater: message renderer is nil'')
              | Some r \<Rightarrow> Inr (foldl (\<lambda>service opt. opt service)
                  \<lparr>sv_rules = rules, sv_resolver = resolver, sv_manifests = m, sv_directories = d, sv_patcher = p,
                   sv_messages = r, sv_annotate_from_labels = False\<rparr> opts))))))"

section \<open>One repository\<close>

fun find_open_loop :: "manifest_repository \<Rightarrow> repository_plan \<Rightarrow> string list \<Rightarrow> history \<Rightarrow> go_error option \<times> history" where
  "find_open_loop gh target [] h = (None, h)"
| "find_open_loop gh target (branch # branches) h =
     (let owner = ml_owner (rp_location target); repo = ml_repository (rp_location target);
          answer = gh_find_open gh h owner repo branch; h' = h @ [FindOpen owner repo branch answer] in
      case answer of
        Inl err \<Rightarrow> (Some (mark_retryable (Errorf ''find open pull request for %s: %w'' [AStr branch] [err])), h')
      | Inr url \<Rightarrow>
          if url \<noteq> []
          then (Some (Errorf ''%w: %s is already open at %s'' [AStr branch, AStr url] [Sentinel ErrDuplicatePullRequest]), h')
          else find_open_loop gh target branches h')"

definition searched_branches :: "repository_plan \<Rightarrow> string list" where
  "searched_branches target =
     (let legacy = legacyRepositoryBranchName (rp_event target) (rp_env target) target in
      [rp_branch target] @ (if legacy \<noteq> [] \<and> legacy \<noteq> rp_branch target then [legacy] else []))"

definition ensureNoOpenPullRequest :: "service \<Rightarrow> repository_plan \<Rightarrow> history \<Rightarrow> go_error option \<times> history" where
  "ensureNoOpenPullRequest s target h = find_open_loop (sv_manifests s) target (searched_branches target) h"

fun resolve_loop ::
    "service \<Rightarrow> string \<Rightarrow> manifest_target list \<Rightarrow> manifest_target list \<Rightarrow> history \<Rightarrow>
     (go_error, manifest_target list) result \<times> history" where
  "resolve_loop s root resolved [] h = (Inr resolved, h)"
| "resolve_loop s root resolved (source # sources) h =
     (let answer = sv_directories s h root (tg_dir source); h' = h @ [ResolveDirs root (tg_dir source) answer] in
      case answer of
        Inl err \<Rightarrow>
          (let wrapped = Errorf ''resolve manifest directories for %s: %w'' [AStr (tg_dir source)] [err] in
           if errors_is ErrManifestNotFound err \<or> errors_is ErrInvalidManifest err \<or> errors_is ErrIncompleteRule err
           then (Inl wrapped, h') else (Inl (mark_retryable wrapped), h'))
      | Inr directories \<Rightarrow>
          if directories = []
          then (Inl (Errorf ''%w: no manifest directory matches %q'' [AStr (tg_dir source)] [Sentinel ErrManifestNotFound]), h')
          else resolve_loop s root
            (resolved @ map (\<lambda>directory. source\<lparr>tg_location := (tg_location source)\<lparr>ml_dir := directory\<rparr>\<rparr>) directories)
            sources h')"

definition resolveManifestTargets ::
    "service \<Rightarrow> string \<Rightarrow> repository_plan \<Rightarrow> history \<Rightarrow> (go_error, manifest_target list) result \<times> history" where
  "resolveManifestTargets s root target h =
     (case resolve_loop s root [] (rp_targets target) h of
        (Inl err, h') \<Rightarrow> (Inl err, h')
      | (Inr resolved, h') \<Rightarrow> (normalizeManifestTargets (ml_repository_url (rp_location target)) resolved, h'))"

definition update_of :: "manifest_target \<Rightarrow> image_push_event \<Rightarrow> image_labels \<Rightarrow> image_update" where
  "update_of t event labels =
     (let img = ref_name (Reference event) in
      \<lparr>iu_image = img, iu_new_tag = ev_tag event,
       iu_manifest = (if tg_writes_image_manifest t then Some (NewImageManifest img labels) else None)\<rparr>)"

fun patch_loop ::
    "service \<Rightarrow> string \<Rightarrow> image_push_event \<Rightarrow> image_labels \<Rightarrow> bool \<Rightarrow> manifest_target list \<Rightarrow> history \<Rightarrow>
     (go_error, bool) result \<times> history" where
  "patch_loop s root event labels changed [] h = (Inr changed, h)"
| "patch_loop s root event labels changed (manifest # manifests) h =
     (let dir = path_join [root, tg_dir manifest]; update = update_of manifest event labels;
          answer = sv_patcher s h dir update; h' = h @ [PatchDir dir update answer] in
      case answer of
        None \<Rightarrow> patch_loop s root event labels True manifests h'
      | Some err \<Rightarrow>
          if errors_is ErrNoDifference err then patch_loop s root event labels changed manifests h'
          else (let wrapped = Errorf ''patch manifest %s: %w'' [AStr (tg_dir manifest)] [err] in
            if errors_is ErrManifestNotFound err \<or> errors_is ErrInvalidManifest err \<or> errors_is ErrImageNotManaged err
            then (Inl wrapped, h') else (Inl (mark_retryable wrapped), h')))"

definition pullRequest :: "repository_plan \<Rightarrow> image_labels \<Rightarrow> rendered_messages \<Rightarrow> pull_request" where
  "pullRequest p labels messages =
     (let actors = (if lb_build_actor labels \<noteq> [] then [lb_build_actor labels] else []) in
      \<lparr>pr_owner = ml_owner (rp_location p), pr_repository = ml_repository (rp_location p), pr_head = rp_branch p,
       pr_base = [], pr_title = rm_pull_request_title messages, pr_body = rm_pull_request_body messages,
       pr_assignees = actors, pr_reviewers = actors\<rparr>)"

definition create_pull_request ::
    "service \<Rightarrow> repository_plan \<Rightarrow> image_labels \<Rightarrow> rendered_messages \<Rightarrow> history \<Rightarrow> go_error option \<times> history" where
  "create_pull_request s target labels messages h =
     (let pr = pullRequest target labels messages; answer = gh_create_pull_request (sv_manifests s) h pr;
          h' = h @ [CreatePullRequest pr answer] in
      case answer of
        Inl err \<Rightarrow>
          (let wrapped = Errorf ''create pull request: %w'' [] [err] in
           if errors_is ErrInvalidPullRequest err then (Some wrapped, h') else (Some (mark_retryable wrapped), h'))
      | Inr url \<Rightarrow> (None, h'))"

definition push_and_open ::
    "service \<Rightarrow> repository_plan \<Rightarrow> image_labels \<Rightarrow> rendered_messages \<Rightarrow> history \<Rightarrow> go_error option \<times> history" where
  "push_and_open s target labels messages h =
     (let answer = gh_push (sv_manifests s) h (rp_branch target); h' = h @ [Push (rp_branch target) answer] in
      case answer of
        None \<Rightarrow> create_pull_request s target labels messages h'
      | Some err \<Rightarrow>
          if \<not> errors_is ErrDuplicatePullRequest err
          then (Some (mark_retryable (Errorf ''push update branch: %w'' [] [err])), h')
          else (case ensureNoOpenPullRequest s target h' of
                  (Some err, h'') \<Rightarrow> (Some err, h'')
                | (None, h'') \<Rightarrow> create_pull_request s target labels messages h''))"

definition commit_and_push ::
    "service \<Rightarrow> repository_plan \<Rightarrow> image_labels \<Rightarrow> rendered_messages \<Rightarrow> history \<Rightarrow> go_error option \<times> history" where
  "commit_and_push s target labels messages h =
     (let message = rm_commit_message messages; answer = gh_commit (sv_manifests s) h message;
          h' = h @ [Commit message answer] in
      case answer of
        Some err \<Rightarrow>
          if errors_is ErrNoDifference err then (Some err, h')
          else (Some (mark_retryable (Errorf ''commit manifest changes: %w'' [] [err])), h')
      | None \<Rightarrow> push_and_open s target labels messages h')"

text \<open>What \<open>applyRepository\<close> does between the checkout and the deferred \<open>Close\<close>.\<close>

definition in_checkout ::
    "service \<Rightarrow> repository_plan \<Rightarrow> image_labels \<Rightarrow> rendered_messages \<Rightarrow> string \<Rightarrow> history \<Rightarrow> go_error option \<times> history" where
  "in_checkout s target labels messages root h =
     (case resolveManifestTargets s root target h of
        (Inl err, h1) \<Rightarrow> (Some err, h1)
      | (Inr manifests, h1) \<Rightarrow>
          (let answer = gh_create_branch (sv_manifests s) h1 (rp_branch target); h2 = h1 @ [CreateBranch (rp_branch target) answer] in
           case answer of
             Some err \<Rightarrow> (Some (mark_retryable (Errorf ''create update branch: %w'' [] [err])), h2)
           | None \<Rightarrow>
               (case patch_loop s root (rp_event target) labels False manifests h2 of
                  (Inl err, h3) \<Rightarrow> (Some err, h3)
                | (Inr changed, h3) \<Rightarrow>
                    if \<not> changed
                    then (Some (Errorf ''%w: %s'' [AStr (ml_repository_url (rp_location target))] [Sentinel ErrNoDifference]), h3)
                    else commit_and_push s target labels messages h3)))"

definition applyRepository ::
    "service \<Rightarrow> repository_plan \<Rightarrow> image_labels \<Rightarrow> rendered_messages \<Rightarrow> history \<Rightarrow> go_error option \<times> history" where
  "applyRepository s target labels messages h =
     (case ensureNoOpenPullRequest s target h of
        (Some err, h1) \<Rightarrow> (Some err, h1)
      | (None, h1) \<Rightarrow>
          (let url = ml_repository_url (rp_location target); answer = gh_checkout (sv_manifests s) h1 url;
               h2 = h1 @ [Checkout url answer] in
           case answer of
             Inl err \<Rightarrow> (Some (mark_retryable (Errorf ''checkout manifest repository: %w'' [] [err])), h2)
           | Inr root \<Rightarrow>
               (case in_checkout s target labels messages root h2 of
                  (err, h3) \<Rightarrow> (err, h3 @ [CloseCheckout (gh_close (sv_manifests s) h3)]))))"

section \<open>The event\<close>

definition imageLabels :: "runtime \<Rightarrow> service \<Rightarrow> image_push_event \<Rightarrow> history \<Rightarrow> image_labels \<times> history" where
  "imageLabels rt s event h =
     (case sv_resolver s of
        None \<Rightarrow> (no_labels, h)
      | Some resolver \<Rightarrow>
          if \<not> sv_annotate_from_labels s then (no_labels, h)
          else (let ref = Reference event; answer = resolver h ref; h' = h @ [ResolveMetadata ref answer] in
            case answer of
              Inl err \<Rightarrow> (no_labels, h')
            | Inr metadata \<Rightarrow> (ImageLabels rt metadata, h')))"

definition message_data :: "image_labels \<Rightarrow> repository_plan \<Rightarrow> template_data" where
  "message_data labels p = \<lparr>td_environment = rp_env p, td_image_name = imageName (ev_repository (rp_event p)),
     td_image_repository = ev_repository (rp_event p), td_image = ref_name (Reference (rp_event p)),
     td_image_tag = ev_tag (rp_event p), td_default_body = FormatPullRequestBody labels\<rparr>"

definition render_repository ::
    "service \<Rightarrow> image_labels \<Rightarrow> repository_plan \<Rightarrow> (go_error, repository_plan \<times> rendered_messages) result" where
  "render_repository s labels p =
     (case render (sv_messages s) (message_data labels p) of
        Inl err \<Rightarrow> Inl (Errorf ''render messages for %s: %w'' [AStr (ml_repository_url (rp_location p))] [err])
      | Inr messages \<Rightarrow> Inr (p, messages))"

fun apply_loop ::
    "service \<Rightarrow> image_labels \<Rightarrow> (repository_plan \<times> rendered_messages) list \<Rightarrow> history \<Rightarrow> go_error list \<times> history" where
  "apply_loop s labels [] h = ([], h)"
| "apply_loop s labels ((p, messages) # ps) h =
     (case applyRepository s p labels messages h of
        (err, h1) \<Rightarrow>
          (case apply_loop s labels ps h1 of
             (failures, h2) \<Rightarrow>
               ((case err of None \<Rightarrow> failures
                 | Some e \<Rightarrow> Errorf ''update %s: %w'' [AStr (ml_repository_url (rp_location p))] [e] # failures), h2)))"

definition apply_plan :: "runtime \<Rightarrow> service \<Rightarrow> event_plan \<Rightarrow> history \<Rightarrow> go_error option \<times> history" where
  "apply_plan rt s target h =
     (case imageLabels rt s (ep_event target) h of
        (labels, h1) \<Rightarrow>
          (case map_result (render_repository s labels) (ep_repositories target) of
             Inl err \<Rightarrow> (Some err, h1)
           | Inr rendered \<Rightarrow>
               (case apply_loop s labels rendered h1 of (failures, h2) \<Rightarrow> (errors_join failures, h2))))"

definition Handle :: "runtime \<Rightarrow> service \<Rightarrow> image_push_event \<Rightarrow> history \<Rightarrow> go_error option \<times> history" where
  "Handle rt s event h =
     (case plan_event rt (sv_rules s) (sv_annotate_from_labels s) event of
        Inl err \<Rightarrow> (Some err, h)
      | Inr target \<Rightarrow> apply_plan rt s target h)"

end
