(* ===== verification/Protocol.thy ===== *)
theory Protocol
  imports Service
begin

text \<open>
  The protocol between the service and its ports as a state machine, one run of it for each manifest
  repository, and the proof that \<open>applyRepository\<close> implements it: each part of the operation is shown
  to do one stretch of a run, and the stretches are composed the way the code composes the parts.
\<close>

section \<open>The protocol with the ports\<close>

text \<open>
  The states one repository goes through, and the calls that are allowed in each: the branches are
  searched before anything else, nothing is patched outside the directories that were resolved, a
  commit needs a changed file and no failure, a push needs the commit, a pull request needs the push
  or, when the branch was already there, a second search that finds none, and a working copy is always
  given back.
\<close>

datatype phase =
    Searching "string list"               \<comment> \<open>the branches still to be looked up\<close>
  | Opened string "string list"           \<comment> \<open>root, directories found\<close>
  | Branched string "string list" bool    \<comment> \<open>root, directories found, whether a file has changed\<close>
  | Committed
  | Rejected "string list"                \<comment> \<open>the branch was there; branches still to be looked up\<close>
  | Pushed
  | Failed
  | Created
  | Stopped                               \<comment> \<open>ended without a working copy\<close>
  | Closed

fun can_close :: "phase \<Rightarrow> bool" where
  "can_close (Opened root found) = True"
| "can_close (Branched root found changed) = (\<not> changed)"
| "can_close Failed = True"
| "can_close Created = True"
| "can_close p = False"

definition is_update :: "repository_plan \<Rightarrow> image_update \<Rightarrow> bool" where
  "is_update t u \<longleftrightarrow> iu_image u = ref_name (Reference (rp_event t)) \<and> iu_new_tag u = ev_tag (rp_event t)"

definition is_pull_request :: "repository_plan \<Rightarrow> pull_request \<Rightarrow> bool" where
  "is_pull_request t pr \<longleftrightarrow> pr_owner pr = ml_owner (rp_location t) \<and> pr_repository pr = ml_repository (rp_location t) \<and>
     pr_head pr = rp_branch t"

inductive step :: "repository_plan \<Rightarrow> phase \<Rightarrow> action \<Rightarrow> phase \<Rightarrow> bool" for t where
  search_free: "step t (Searching (b # bs)) (FindOpen (ml_owner (rp_location t)) (ml_repository (rp_location t)) b (Inr [])) (Searching bs)"
| search_taken: "url \<noteq> [] \<Longrightarrow>
    step t (Searching (b # bs)) (FindOpen (ml_owner (rp_location t)) (ml_repository (rp_location t)) b (Inr url)) Stopped"
| search_failed: "step t (Searching (b # bs)) (FindOpen (ml_owner (rp_location t)) (ml_repository (rp_location t)) b (Inl e)) Stopped"
| checked_out: "step t (Searching []) (Checkout (ml_repository_url (rp_location t)) (Inr root)) (Opened root [])"
| checkout_failed: "step t (Searching []) (Checkout (ml_repository_url (rp_location t)) (Inl e)) Stopped"
| resolved: "x \<in> set (rp_targets t) \<Longrightarrow> ds \<noteq> [] \<Longrightarrow>
    step t (Opened root found) (ResolveDirs root (tg_dir x) (Inr ds)) (Opened root (found @ ds))"
| resolve_failed: "x \<in> set (rp_targets t) \<Longrightarrow> answer = Inl e \<or> answer = Inr [] \<Longrightarrow>
    step t (Opened root found) (ResolveDirs root (tg_dir x) answer) Failed"
| branched: "step t (Opened root found) (CreateBranch (rp_branch t) None) (Branched root found False)"
| branch_failed: "step t (Opened root found) (CreateBranch (rp_branch t) (Some e)) Failed"
| patched: "d \<in> set found \<Longrightarrow> is_update t u \<Longrightarrow>
    step t (Branched root found changed) (PatchDir (path_join [root, d]) u None) (Branched root found True)"
| unchanged: "d \<in> set found \<Longrightarrow> is_update t u \<Longrightarrow> errors_is ErrNoDifference e \<Longrightarrow>
    step t (Branched root found changed) (PatchDir (path_join [root, d]) u (Some e)) (Branched root found changed)"
| patch_failed: "d \<in> set found \<Longrightarrow> is_update t u \<Longrightarrow> \<not> errors_is ErrNoDifference e \<Longrightarrow>
    step t (Branched root found changed) (PatchDir (path_join [root, d]) u (Some e)) Failed"
| committed: "step t (Branched root found True) (Commit message None) Committed"
| commit_failed: "step t (Branched root found True) (Commit message (Some e)) Failed"
| pushed: "step t Committed (Push (rp_branch t) None) Pushed"
| rejected: "errors_is ErrDuplicatePullRequest e \<Longrightarrow>
    step t Committed (Push (rp_branch t) (Some e)) (Rejected (searched_branches t))"
| push_failed: "\<not> errors_is ErrDuplicatePullRequest e \<Longrightarrow> step t Committed (Push (rp_branch t) (Some e)) Failed"
| rejected_free: "step t (Rejected (b # bs)) (FindOpen (ml_owner (rp_location t)) (ml_repository (rp_location t)) b (Inr [])) (Rejected bs)"
| rejected_taken: "url \<noteq> [] \<Longrightarrow>
    step t (Rejected (b # bs)) (FindOpen (ml_owner (rp_location t)) (ml_repository (rp_location t)) b (Inr url)) Failed"
| rejected_failed: "step t (Rejected (b # bs)) (FindOpen (ml_owner (rp_location t)) (ml_repository (rp_location t)) b (Inl e)) Failed"
| created: "p = Pushed \<or> p = Rejected [] \<Longrightarrow> is_pull_request t pr \<Longrightarrow> step t p (CreatePullRequest pr (Inr url)) Created"
| create_failed: "p = Pushed \<or> p = Rejected [] \<Longrightarrow> is_pull_request t pr \<Longrightarrow> step t p (CreatePullRequest pr (Inl e)) Failed"
| closed: "can_close p \<Longrightarrow> step t p (CloseCheckout answer) Closed"

inductive run :: "repository_plan \<Rightarrow> phase \<Rightarrow> action list \<Rightarrow> phase \<Rightarrow> bool" for t where
  run_Nil: "run t p [] p"
| run_Cons: "step t p a q \<Longrightarrow> run t q as r \<Longrightarrow> run t p (a # as) r"

inductive_simps run_Nil_iff [simp]: "run t p [] q"
inductive_simps run_Cons_iff [simp]: "run t p (a # as) q"
inductive_cases step_Stopped [elim!]: "step t Stopped a q"
inductive_cases step_Closed [elim!]: "step t Closed a q"
inductive_cases step_Created: "step t Created a q"

lemma run_append: "run t p as q \<Longrightarrow> run t q bs r \<Longrightarrow> run t p (as @ bs) r"
  by (induction rule: run.induct) auto

text \<open>Which answer makes the whole operation ask for a retry.\<close>

fun retry_action :: "action \<Rightarrow> bool" where
  "retry_action (FindOpen owner repo head (Inl e)) = True"
| "retry_action (Checkout url (Inl e)) = True"
| "retry_action (ResolveDirs root pat (Inl e)) = (errors_is ErrRetryable e \<or>
     \<not> (errors_is ErrManifestNotFound e \<or> errors_is ErrInvalidManifest e \<or> errors_is ErrIncompleteRule e))"
| "retry_action (CreateBranch branch (Some e)) = True"
| "retry_action (PatchDir dir u (Some e)) = (\<not> errors_is ErrNoDifference e \<and> (errors_is ErrRetryable e \<or>
     \<not> (errors_is ErrManifestNotFound e \<or> errors_is ErrInvalidManifest e \<or> errors_is ErrImageNotManaged e)))"
| "retry_action (Commit message (Some e)) = (errors_is ErrRetryable e \<or> \<not> errors_is ErrNoDifference e)"
| "retry_action (Push branch (Some e)) = (\<not> errors_is ErrDuplicatePullRequest e)"
| "retry_action (CreatePullRequest pr (Inl e)) = (errors_is ErrRetryable e \<or> \<not> errors_is ErrInvalidPullRequest e)"
| "retry_action a = False"

text \<open>An operation that goes from one phase to another, with its error.\<close>

definition does :: "repository_plan \<Rightarrow> phase \<Rightarrow> history \<Rightarrow> go_error option \<Rightarrow> history \<Rightarrow> phase \<Rightarrow> bool" where
  "does t p h err h' q \<longleftrightarrow> (\<exists>tr. h' = h @ tr \<and> run t p tr q \<and> (IsRetryable err \<longleftrightarrow> list_ex retry_action tr))"

lemma does_skip: "\<not> IsRetryable err \<Longrightarrow> does t p h err h p"
  by (simp add: does_def)

lemma does_refl [simp, intro]: "does t p h None h p"
  by (rule does_skip) simp

lemma does_call: "step t p a q \<Longrightarrow> IsRetryable err = retry_action a \<Longrightarrow> does t p h err (h @ [a]) q"
  by (auto simp: does_def)

lemma does_then: "does t p h None h1 q \<Longrightarrow> does t q h1 err h2 r \<Longrightarrow> does t p h err h2 r"
  by (auto simp: does_def intro: run_append)

lemma does_call_then: "step t p a q \<Longrightarrow> \<not> retry_action a \<Longrightarrow> does t q (h @ [a]) err h2 r \<Longrightarrow> does t p h err h2 r"
  using does_call [of t p a q None h] does_then by simp

section \<open>The operations keep to the protocol\<close>

lemma find_open_does:
  assumes free: "\<And>b bs. step t (P (b # bs)) (FindOpen (ml_owner (rp_location t)) (ml_repository (rp_location t)) b (Inr [])) (P bs)"
    and taken: "\<And>b bs url. url \<noteq> [] \<Longrightarrow>
      step t (P (b # bs)) (FindOpen (ml_owner (rp_location t)) (ml_repository (rp_location t)) b (Inr url)) Q"
    and failed: "\<And>b bs e. step t (P (b # bs)) (FindOpen (ml_owner (rp_location t)) (ml_repository (rp_location t)) b (Inl e)) Q"
  shows "find_open_loop gh t bs h = (err, h') \<Longrightarrow> does t (P bs) h err h' (if err = None then P [] else Q)"
proof (induction bs arbitrary: h)
  case Nil
  then show ?case by (auto intro: does_skip)
next
  case (Cons b bs)
  let ?a = "gh_find_open gh h (ml_owner (rp_location t)) (ml_repository (rp_location t)) b"
  show ?case
  proof (cases ?a)
    case (Inl e)
    with Cons.prems show ?thesis by (auto simp: Let_def intro!: does_call failed)
  next
    case (Inr url)
    show ?thesis
    proof (cases "url = []")
      case True
      with Inr Cons.prems have "find_open_loop gh t bs (h @ [FindOpen (ml_owner (rp_location t)) (ml_repository (rp_location t)) b (Inr [])]) = (err, h')"
        by (simp add: Let_def)
      from does_call_then [OF free _ Cons.IH [OF this]] show ?thesis by simp
    next
      case False
      with Inr Cons.prems show ?thesis by (auto simp: Let_def intro!: does_call taken)
    qed
  qed
qed

lemma search_does:
  "ensureNoOpenPullRequest s t h = (err, h') \<Longrightarrow>
     does t (Searching (searched_branches t)) h err h' (if err = None then Searching [] else Stopped)"
  unfolding ensureNoOpenPullRequest_def by (erule find_open_does [rotated 3]) (auto intro: step.intros)

lemma second_search_does:
  "ensureNoOpenPullRequest s t h = (err, h') \<Longrightarrow>
     does t (Rejected (searched_branches t)) h err h' (if err = None then Rejected [] else Failed)"
  unfolding ensureNoOpenPullRequest_def by (erule find_open_does [rotated 3]) (auto intro: step.intros)

definition result_error :: "(go_error, 'a) result \<Rightarrow> go_error option" where
  "result_error r = (case r of Inl e \<Rightarrow> Some e | Inr x \<Rightarrow> None)"

lemma result_error_simps [simp]: "result_error (Inl e) = Some e" "result_error (Inr x) = None"
  by (simp_all add: result_error_def)

text \<open>The directories of a list of targets.\<close>

lemma resolve_loop_does:
  assumes "resolve_loop s root acc sources h = (r, h')" and "set sources \<subseteq> set (rp_targets t)"
    and "tg_dir ` set acc \<subseteq> set found"
  shows "case r of
      Inl e \<Rightarrow> does t (Opened root found) h (Some e) h' Failed
    | Inr ts \<Rightarrow> (\<exists>found'. does t (Opened root found) h None h' (Opened root found') \<and> tg_dir ` set ts \<subseteq> set found')"
  using assms
proof (induction s root acc sources h arbitrary: found rule: resolve_loop.induct)
  case (1 s root acc h)
  then show ?case by (auto intro!: exI [of _ found])
next
  case (2 s root acc source sources h)
  let ?a = "sv_directories s h root (tg_dir source)"
  have source: "source \<in> set (rp_targets t)" using 2(3) by simp
  show ?case
  proof (cases ?a)
    case (Inl e)
    with 2(2) source show ?thesis by (auto simp: Let_def intro!: does_call step.resolve_failed split: if_splits)
  next
    case (Inr ds)
    show ?thesis
    proof (cases "ds = []")
      case True
      with 2(2) Inr source show ?thesis by (auto simp: Let_def intro!: does_call step.resolve_failed)
    next
      case False
      let ?acc = "acc @ map (\<lambda>directory. source\<lparr>tg_location := (tg_location source)\<lparr>ml_dir := directory\<rparr>\<rparr>) ds"
      have "tg_dir ` set ?acc \<subseteq> set (found @ ds)" using 2(4) by (auto simp: tg_dir_def)
      with 2 Inr False have "case r of
          Inl e \<Rightarrow> does t (Opened root (found @ ds)) (h @ [ResolveDirs root (tg_dir source) ?a]) (Some e) h' Failed
        | Inr ts \<Rightarrow> (\<exists>found'. does t (Opened root (found @ ds)) (h @ [ResolveDirs root (tg_dir source) ?a]) None h' (Opened root found') \<and>
            tg_dir ` set ts \<subseteq> set found')"
        by (simp add: Let_def)
      moreover have "step t (Opened root found) (ResolveDirs root (tg_dir source) (Inr ds)) (Opened root (found @ ds))"
        using source False by (rule step.resolved)
      ultimately show ?thesis using Inr by (auto split: sum.splits dest!: does_call_then [rotated 2])
    qed
  qed
qed

lemma patch_loop_does:
  assumes "patch_loop s root (rp_event t) labels changed ts h = (r, h')" and "tg_dir ` set ts \<subseteq> set found"
  shows "does t (Branched root found changed) h (result_error r) h' (case r of Inl e \<Rightarrow> Failed | Inr changed' \<Rightarrow> Branched root found changed')"
  using assms
proof (induction s root "rp_event t" labels changed ts h rule: patch_loop.induct)
  case (1 s root labels changed h)
  then show ?case by auto
next
  case (2 s root labels changed m ts h)
  let ?u = "update_of m (rp_event t) labels"
  let ?a = "sv_patcher s h (path_join [root, tg_dir m]) ?u"
  have dir: "tg_dir m \<in> set found" "is_update t ?u" using 2(4) by (simp_all add: is_update_def update_of_def Let_def)
  show ?case
  proof (cases ?a)
    case None
    with 2(1) [OF refl refl refl] 2(3,4) have "does t (Branched root found True) (h @ [PatchDir (path_join [root, tg_dir m]) ?u None])
        (result_error r) h' (case r of Inl e \<Rightarrow> Failed | Inr changed' \<Rightarrow> Branched root found changed')"
      by (simp add: Let_def)
    from does_call_then [OF step.patched [OF dir] _ this] show ?thesis by simp
  next
    case (Some e)
    show ?thesis
    proof (cases "errors_is ErrNoDifference e")
      case True
      with 2(2) [OF refl refl refl] 2(3,4) Some have "does t (Branched root found changed) (h @ [PatchDir (path_join [root, tg_dir m]) ?u (Some e)])
          (result_error r) h' (case r of Inl e \<Rightarrow> Failed | Inr changed' \<Rightarrow> Branched root found changed')"
        by (simp add: Let_def)
      from does_call_then [OF step.unchanged [OF dir True] _ this] True show ?thesis by simp
    next
      case False
      with 2(3) Some have r: "(r = Inl (Errorf ''patch manifest %s: %w'' [AStr (tg_dir m)] [e]) \<and>
            (errors_is ErrManifestNotFound e \<or> errors_is ErrInvalidManifest e \<or> errors_is ErrImageNotManaged e)) \<or>
          (r = Inl (mark_retryable (Errorf ''patch manifest %s: %w'' [AStr (tg_dir m)] [e])) \<and>
            \<not> (errors_is ErrManifestNotFound e \<or> errors_is ErrInvalidManifest e \<or> errors_is ErrImageNotManaged e))"
        and h': "h' = h @ [PatchDir (path_join [root, tg_dir m]) ?u (Some e)]"
        by (auto simp: Let_def split: if_splits)
      from r show ?thesis
        unfolding h' using False by (auto intro!: does_call step.patch_failed [OF dir False])
    qed
  qed
qed

lemma create_does:
  assumes "create_pull_request s t labels messages h = (err, h')" and "p = Pushed \<or> p = Rejected []"
  shows "does t p h err h' (if err = None then Created else Failed)"
proof -
  let ?pr = "pullRequest t labels messages"
  have pr: "is_pull_request t ?pr" by (simp add: is_pull_request_def pullRequest_def Let_def)
  show ?thesis
  proof (cases "gh_create_pull_request (sv_manifests s) h ?pr")
    case (Inl e)
    with assms(1) have h': "h' = h @ [CreatePullRequest ?pr (Inl e)]"
      and err: "(err = Some (Errorf ''create pull request: %w'' [] [e]) \<and> errors_is ErrInvalidPullRequest e) \<or>
        (err = Some (mark_retryable (Errorf ''create pull request: %w'' [] [e])) \<and> \<not> errors_is ErrInvalidPullRequest e)"
      by (auto simp: create_pull_request_def Let_def split: if_splits)
    from err show ?thesis unfolding h' by (auto intro!: does_call step.create_failed [OF assms(2) pr])
  next
    case (Inr url)
    with assms(1) show ?thesis
      by (auto simp: create_pull_request_def Let_def intro!: does_call step.created [OF assms(2) pr])
  qed
qed

lemma push_does:
  assumes "push_and_open s t labels messages h = (err, h')"
  shows "does t Committed h err h' (if err = None then Created else Failed)"
proof (cases "gh_push (sv_manifests s) h (rp_branch t)")
  case None
  with assms have "create_pull_request s t labels messages (h @ [Push (rp_branch t) None]) = (err, h')"
    by (simp add: push_and_open_def Let_def)
  from does_call_then [OF step.pushed _ create_does [OF this]] show ?thesis by simp
next
  case (Some e)
  show ?thesis
  proof (cases "errors_is ErrDuplicatePullRequest e")
    case False
    with assms Some show ?thesis
      by (auto simp: push_and_open_def Let_def intro!: does_call step.push_failed)
  next
    case True
    obtain err1 h1 where again: "ensureNoOpenPullRequest s t (h @ [Push (rp_branch t) (Some e)]) = (err1, h1)" by fastforce
    note pushed = does_call_then [OF step.rejected [OF True] _ second_search_does [OF again]]
    show ?thesis
    proof (cases err1)
      case None
      with assms Some True again have "create_pull_request s t labels messages h1 = (err, h')"
        by (simp add: push_and_open_def Let_def)
      from does_then [OF pushed [unfolded None, simplified] create_does [OF this]] True show ?thesis by simp
    next
      case (Some e1)
      with assms \<open>gh_push _ _ _ = Some e\<close> True again have "err = err1 \<and> h' = h1"
        by (simp add: push_and_open_def Let_def)
      with pushed Some True show ?thesis by simp
    qed
  qed
qed

lemma commit_does:
  assumes "commit_and_push s t labels messages h = (err, h')"
  shows "does t (Branched root found True) h err h' (if err = None then Created else Failed)"
proof (cases "gh_commit (sv_manifests s) h (rm_commit_message messages)")
  case None
  with assms have "push_and_open s t labels messages (h @ [Commit (rm_commit_message messages) None]) = (err, h')"
    by (simp add: commit_and_push_def Let_def)
  from does_call_then [OF step.committed _ push_does [OF this]] show ?thesis by simp
next
  case (Some e)
  with assms have h': "h' = h @ [Commit (rm_commit_message messages) (Some e)]"
    and err: "(err = Some e \<and> errors_is ErrNoDifference e) \<or>
      (err = Some (mark_retryable (Errorf ''commit manifest changes: %w'' [] [e])) \<and> \<not> errors_is ErrNoDifference e)"
    by (auto simp: commit_and_push_def Let_def split: if_splits)
  from err show ?thesis unfolding h' by (auto intro!: does_call step.commit_failed)
qed

text \<open>Where the work in a checkout ends: with the pull request exactly when there is no error.\<close>

lemma in_checkout_does:
  assumes "in_checkout s t labels messages root h = (err, h')"
  shows "\<exists>q. does t (Opened root []) h err h' q \<and> can_close q \<and> (err = None \<longleftrightarrow> q = Created)"
proof -
  obtain r h1 where res: "resolve_loop s root [] (rp_targets t) h = (r, h1)" by fastforce
  note found = resolve_loop_does [OF res subset_refl, of "[]"]
  show ?thesis
  proof (cases r)
    case (Inl e)
    with assms res found show ?thesis
      by (auto simp: in_checkout_def resolveManifestTargets_def intro!: exI [of _ Failed])
  next
    case (Inr ts)
    with found obtain fd where fd: "does t (Opened root []) h None h1 (Opened root fd)" "tg_dir ` set ts \<subseteq> set fd" by auto
    show ?thesis
    proof (cases "normalizeManifestTargets (ml_repository_url (rp_location t)) ts")
      case (Inl e)
      then have "\<not> IsRetryable (Some e)" using normalize_ok [of ts "ml_repository_url (rp_location t)"] by auto
      then have "does t (Opened root []) h (Some e) h1 (Opened root fd)"
        by (intro does_then [OF fd(1)] does_skip)
      with assms res Inl \<open>r = Inr ts\<close> show ?thesis
        by (auto simp: in_checkout_def resolveManifestTargets_def)
    next
      case (Inr us)
      then have us: "tg_dir ` set us \<subseteq> set fd" using normalize_ok [of ts "ml_repository_url (rp_location t)"] fd(2) by auto
      show ?thesis
      proof (cases "gh_create_branch (sv_manifests s) h1 (rp_branch t)")
        case (Some e)
        with assms res Inr \<open>r = Inr ts\<close> show ?thesis
          by (auto simp: in_checkout_def resolveManifestTargets_def Let_def
              intro!: exI [of _ Failed] does_then [OF fd(1)] does_call step.branch_failed)
      next
        case None
        let ?h2 = "h1 @ [CreateBranch (rp_branch t) None]"
        obtain r3 h3 where patch: "patch_loop s root (rp_event t) labels False us ?h2 = (r3, h3)" by fastforce
        have upto: "does t (Opened root []) h err' h3' q" if "does t (Branched root fd False) ?h2 err' h3' q" for err' h3' q
          by (rule does_then [OF fd(1) does_call_then [OF step.branched _ that]]) simp
        note edited = upto [OF patch_loop_does [OF patch us]]
        have eq: "in_checkout s t labels messages root h = (case r3 of Inl e \<Rightarrow> (Some e, h3)
            | Inr changed \<Rightarrow> if \<not> changed
              then (Some (Errorf ''%w: %s'' [AStr (ml_repository_url (rp_location t))] [Sentinel ErrNoDifference]), h3)
              else commit_and_push s t labels messages h3)"
          by (simp only: in_checkout_def resolveManifestTargets_def Let_def res \<open>r = Inr ts\<close> Inr None patch prod.case sum.case option.case)
        show ?thesis
        proof (cases r3)
          case (Inl e)
          with edited eq assms show ?thesis by (auto intro!: exI [of _ Failed])
        next
          case (Inr changed)
          show ?thesis
          proof (cases changed)
            case False
            then have err: "err = Some (Errorf ''%w: %s'' [AStr (ml_repository_url (rp_location t))] [Sentinel ErrNoDifference])" "h' = h3"
              using eq assms Inr by simp_all
            have "does t (Opened root []) h None h3 (Branched root fd False)" using edited Inr False by simp
            then have "does t (Opened root []) h err h3 (Branched root fd False)"
              by (rule does_then) (rule does_skip, simp add: err)
            with err show ?thesis by (intro exI [of _ "Branched root fd False"]) simp
          next
            case True
            then have "commit_and_push s t labels messages h3 = (err, h')" using eq assms Inr by simp
            from does_then [OF _ commit_does [OF this, of root fd]] edited Inr True
            have "does t (Opened root []) h err h' (if err = None then Created else Failed)" by simp
            then show ?thesis by (intro exI [of _ "if err = None then Created else Failed"]) auto
          qed
        qed
      qed
    qed
  qed
qed

lemma applyRepository_does:
  assumes "applyRepository s t labels messages h = (err, h')"
  shows "(err \<noteq> None \<and> does t (Searching (searched_branches t)) h err h' Stopped) \<or>
    (\<exists>h3 q answer. does t (Searching (searched_branches t)) h err h3 q \<and> can_close q \<and> (err = None \<longleftrightarrow> q = Created) \<and>
       h' = h3 @ [CloseCheckout answer])"
proof -
  obtain err1 h1 where search: "ensureNoOpenPullRequest s t h = (err1, h1)" by fastforce
  note searched = search_does [OF search]
  show ?thesis
  proof (cases err1)
    case (Some e)
    with assms search searched show ?thesis by (auto simp: applyRepository_def)
  next
    case None
    then have free: "does t (Searching (searched_branches t)) h None h1 (Searching [])" using searched by simp
    show ?thesis
    proof (cases "gh_checkout (sv_manifests s) h1 (ml_repository_url (rp_location t))")
      case (Inl e)
      with assms search None show ?thesis
        by (auto simp: applyRepository_def Let_def intro!: does_then [OF free] does_call step.checkout_failed)
    next
      case (Inr root)
      let ?h2 = "h1 @ [Checkout (ml_repository_url (rp_location t)) (Inr root)]"
      obtain err3 h3 where work: "in_checkout s t labels messages root ?h2 = (err3, h3)" by fastforce
      obtain q where q: "does t (Opened root []) ?h2 err3 h3 q" "can_close q" "err3 = None \<longleftrightarrow> q = Created"
        using in_checkout_does [OF work] by blast
      have "does t (Searching (searched_branches t)) h err3 h3 q"
        using does_then [OF free does_call_then [OF step.checked_out _ q(1)]] by simp
      moreover have "err = err3 \<and> h' = h3 @ [CloseCheckout (gh_close (sv_manifests s) h3)]"
        using assms search None Inr work by (simp add: applyRepository_def Let_def)
      ultimately show ?thesis using q(2,3) by blast
    qed
  qed
qed

lemma applyRepository_run:
  assumes "applyRepository s t labels messages h = (err, h')"
  shows "\<exists>tr q. h' = h @ tr \<and> run t (Searching (searched_branches t)) tr q \<and> q \<in> {Stopped, Closed} \<and>
    (IsRetryable err \<longleftrightarrow> list_ex retry_action tr)"
  using applyRepository_does [OF assms]
proof (elim disjE exE conjE)
  assume "does t (Searching (searched_branches t)) h err h' Stopped"
  then show ?thesis by (auto simp: does_def)
next
  fix h3 q answer
  assume "does t (Searching (searched_branches t)) h err h3 q" "can_close q" "h' = h3 @ [CloseCheckout answer]"
  then obtain tr where tr: "h3 = h @ tr" "run t (Searching (searched_branches t)) tr q" "IsRetryable err \<longleftrightarrow> list_ex retry_action tr"
    by (auto simp: does_def)
  have "run t (Searching (searched_branches t)) (tr @ [CloseCheckout answer]) Closed"
    using tr(2) \<open>can_close q\<close> by (intro run_append [OF tr(2)]) (auto intro: step.closed)
  with tr \<open>h' = _\<close> show ?thesis by (intro exI [of _ "tr @ [CloseCheckout answer]"] exI [of _ Closed]) auto
qed

section \<open>What the protocol guarantees\<close>

fun opens :: "action \<Rightarrow> bool" where
  "opens (CreatePullRequest pr (Inr url)) = True"
| "opens a = False"

fun_cases opensE: "opens a"

fun checks_out :: "action \<Rightarrow> bool" where
  "checks_out (Checkout url (Inr root)) = True"
| "checks_out a = False"

fun closes :: "action \<Rightarrow> bool" where
  "closes (CloseCheckout answer) = True"
| "closes a = False"

fun holds_copy :: "phase \<Rightarrow> bool" where
  "holds_copy (Searching bs) = False"
| "holds_copy Stopped = False"
| "holds_copy Closed = False"
| "holds_copy p = True"

lemma step_opens: "step t p a q \<Longrightarrow> opens a \<longleftrightarrow> q = Created"
  by (auto elim: step.cases)


lemma step_copy: "step t p a q \<Longrightarrow>
    of_bool (holds_copy q) + of_bool (closes a) = (of_bool (holds_copy p) + of_bool (checks_out a) :: nat)"
  by (cases rule: step.cases) (auto elim: can_close.elims)

lemma run_copy: "run t p tr q \<Longrightarrow>
    of_bool (holds_copy q) + length (filter closes tr) = of_bool (holds_copy p) + length (filter checks_out tr)"
proof (induction rule: run.induct)
  case (run_Cons p a q as r)
  from step_copy [OF run_Cons(1)] run_Cons.IH show ?case
    by (auto simp: of_bool_def split: if_splits)
qed simp

lemma run_opens:
  "run t p tr q \<Longrightarrow> p \<noteq> Created \<Longrightarrow> q \<noteq> Closed \<Longrightarrow> length (filter opens tr) = of_bool (q = Created)"
proof (induction rule: run.induct)
  case (run_Cons p a q as r)
  show ?case
  proof (cases "q = Created")
    case True
    have "as = [] \<and> r = Created"
    proof (cases as)
      case Nil
      with run_Cons(2) True show ?thesis by simp
    next
      case (Cons b bs)
      with run_Cons(2) True obtain q1 where q1: "step t Created b q1" "run t q1 bs r" by auto
      then have "q1 = Closed" by (auto elim: step_Created)
      with q1(2) run_Cons.prems(2) have False by (cases bs) auto
      then show ?thesis ..
    qed
    with True step_opens [OF run_Cons(1)] show ?thesis by simp
  next
    case False
    with run_Cons step_opens [OF run_Cons(1)] show ?thesis by simp
  qed
qed simp

text \<open>What must have been done before a call.\<close>

fun patch_fine :: "action \<Rightarrow> bool" where
  "patch_fine (PatchDir dir u (Some e)) = errors_is ErrNoDifference e"
| "patch_fine a = True"

fun patch_changed :: "action \<Rightarrow> bool" where
  "patch_changed (PatchDir dir u None) = True"
| "patch_changed a = False"

fun commit_done :: "action \<Rightarrow> bool" where
  "commit_done (Commit message None) = True"
| "commit_done a = False"

fun branch_done :: "repository_plan \<Rightarrow> action \<Rightarrow> bool" where
  "branch_done t (CreateBranch branch None) = (branch = rp_branch t)"
| "branch_done t a = False"

fun on_remote :: "repository_plan \<Rightarrow> action \<Rightarrow> bool" where
  "on_remote t (Push branch None) = (branch = rp_branch t)"
| "on_remote t (Push branch (Some e)) = (branch = rp_branch t \<and> errors_is ErrDuplicatePullRequest e)"
| "on_remote t a = False"

definition committable :: "repository_plan \<Rightarrow> action list \<Rightarrow> bool" where
  "committable t tr \<longleftrightarrow> list_all patch_fine tr \<and> list_ex patch_changed tr \<and> list_ex (branch_done t) tr"

fun action_guard :: "repository_plan \<Rightarrow> action list \<Rightarrow> action \<Rightarrow> bool" where
  "action_guard t before (PatchDir dir u answer) = (is_update t u \<and> list_ex (branch_done t) before \<and> list_all patch_fine before)"
| "action_guard t before (Commit message answer) = committable t before"
| "action_guard t before (Push branch answer) = (branch = rp_branch t \<and> committable t before \<and> list_ex commit_done before)"
| "action_guard t before (CreatePullRequest pr answer) =
     (is_pull_request t pr \<and> committable t before \<and> list_ex commit_done before \<and> list_ex (on_remote t) before)"
| "action_guard t before (CloseCheckout answer) = list_ex checks_out before"
| "action_guard t before a = (\<not> list_ex (branch_done t) before \<or> list_ex (on_remote t) before)"

fun guarded :: "repository_plan \<Rightarrow> action list \<Rightarrow> action list \<Rightarrow> bool" where
  "guarded t before [] = True"
| "guarded t before (a # as) = (action_guard t before a \<and> guarded t (before @ [a]) as)"

fun phase_inv :: "repository_plan \<Rightarrow> phase \<Rightarrow> action list \<Rightarrow> bool" where
  "phase_inv t (Searching bs) tr = (\<not> list_ex (branch_done t) tr \<and> list_all patch_fine tr \<and> \<not> list_ex patch_changed tr)"
| "phase_inv t (Opened root found) tr =
     (\<not> list_ex (branch_done t) tr \<and> list_all patch_fine tr \<and> \<not> list_ex patch_changed tr \<and> list_ex checks_out tr)"
| "phase_inv t (Branched root found changed) tr =
     (list_ex (branch_done t) tr \<and> list_all patch_fine tr \<and> changed = list_ex patch_changed tr \<and> list_ex checks_out tr)"
| "phase_inv t Committed tr = (committable t tr \<and> list_ex commit_done tr \<and> list_ex checks_out tr)"
| "phase_inv t (Rejected bs) tr = (committable t tr \<and> list_ex commit_done tr \<and> list_ex (on_remote t) tr \<and> list_ex checks_out tr)"
| "phase_inv t Pushed tr = (committable t tr \<and> list_ex commit_done tr \<and> list_ex (on_remote t) tr \<and> list_ex checks_out tr)"
| "phase_inv t Failed tr = list_ex checks_out tr"
| "phase_inv t Created tr = list_ex checks_out tr"
| "phase_inv t Stopped tr = True"
| "phase_inv t Closed tr = True"

lemma step_inv: "step t p a q \<Longrightarrow> phase_inv t p tr \<Longrightarrow> action_guard t tr a \<and> phase_inv t q (tr @ [a])"
  by (cases rule: step.cases, assumption) (auto simp: committable_def elim: can_close.elims)

lemma run_guarded: "run t p tr q \<Longrightarrow> phase_inv t p before \<Longrightarrow> guarded t before tr"
proof (induction arbitrary: before rule: run.induct)
  case (run_Cons p a q as r)
  with step_inv [OF run_Cons(1)] show ?case by auto
qed simp

section \<open>The event as a whole\<close>

text \<open>One repository's share of the history, with its error.\<close>

definition segment :: "repository_plan \<Rightarrow> go_error option \<Rightarrow> action list \<Rightarrow> bool" where
  "segment t err tr \<longleftrightarrow>
     (\<exists>q. run t (Searching (searched_branches t)) tr q \<and> q \<in> {Stopped, Closed}) \<and>
     (IsRetryable err \<longleftrightarrow> list_ex retry_action tr) \<and> length (filter opens tr) = of_bool (err = None)"

lemma applyRepository_segment:
  assumes "applyRepository s t labels messages h = (err, h')"
  shows "\<exists>tr. h' = h @ tr \<and> segment t err tr"
  using applyRepository_does [OF assms]
proof (elim disjE exE conjE)
  assume *: "err \<noteq> None" "does t (Searching (searched_branches t)) h err h' Stopped"
  then obtain tr where tr: "h' = h @ tr" "run t (Searching (searched_branches t)) tr Stopped"
    "IsRetryable err \<longleftrightarrow> list_ex retry_action tr" by (auto simp: does_def)
  with run_opens [OF tr(2)] * show ?thesis by (auto simp: segment_def)
next
  fix h3 q answer
  assume *: "does t (Searching (searched_branches t)) h err h3 q" "can_close q" "err = None \<longleftrightarrow> q = Created"
    "h' = h3 @ [CloseCheckout answer]"
  then obtain tr where tr: "h3 = h @ tr" "run t (Searching (searched_branches t)) tr q"
    "IsRetryable err \<longleftrightarrow> list_ex retry_action tr" by (auto simp: does_def)
  have closing: "run t (Searching (searched_branches t)) (tr @ [CloseCheckout answer]) Closed"
    using *(2) by (intro run_append [OF tr(2)]) (auto intro: step.closed)
  have "q \<noteq> Closed" using *(2) by auto
  with run_opens [OF tr(2)] *(3) tr(3) closing have "segment t err (tr @ [CloseCheckout answer])"
    by (auto simp: segment_def)
  with tr(1) *(4) show ?thesis by auto
qed

lemma segment_copy: "segment t err tr \<Longrightarrow> length (filter closes tr) = length (filter checks_out tr)"
  using run_copy by (fastforce simp: segment_def)

lemma segment_guarded: "segment t err tr \<Longrightarrow> guarded t [] tr"
  using run_guarded by (fastforce simp: segment_def)

lemma apply_loop_segments:
  assumes "apply_loop s labels ps h = (failures, h')"
  shows "\<exists>errs segs. h' = h @ concat segs \<and> list_all2 (\<lambda>p (err, seg). segment (fst p) err seg) ps (zip errs segs) \<and>
    length errs = length segs \<and> (IsRetryable (errors_join failures) \<longleftrightarrow> list_ex retry_action (concat segs)) \<and>
    length failures + length (filter opens (concat segs)) = length ps \<and> (failures = [] \<longleftrightarrow> set errs \<subseteq> {None})"
  using assms
proof (induction s labels ps h arbitrary: failures rule: apply_loop.induct)
  case (1 s labels h)
  then show ?case by (intro exI [of _ "[]"]) auto
next
  case (2 s labels p messages ps h)
  obtain err h1 where one: "applyRepository s p labels messages h = (err, h1)" by fastforce
  obtain fails where rest: "apply_loop s labels ps h1 = (fails, h')"
    and failures: "failures = (case err of None \<Rightarrow> fails
      | Some e \<Rightarrow> Errorf ''update %s: %w'' [AStr (ml_repository_url (rp_location p))] [e] # fails)"
    using 2(2) one by (auto split: prod.splits)
  obtain seg where seg: "h1 = h @ seg" "segment p err seg" using applyRepository_segment [OF one] by blast
  obtain errs segs where IH: "h' = h1 @ concat segs" "list_all2 (\<lambda>p (err, seg). segment (fst p) err seg) ps (zip errs segs)"
    "length errs = length segs" "IsRetryable (errors_join fails) \<longleftrightarrow> list_ex retry_action (concat segs)"
    "length fails + length (filter opens (concat segs)) = length ps" "fails = [] \<longleftrightarrow> set errs \<subseteq> {None}"
    using 2(1) [OF one [symmetric] rest] by blast
  have "IsRetryable (errors_join failures) \<longleftrightarrow> list_ex retry_action (concat (seg # segs))"
    using seg(2) IH(4) unfolding failures by (cases err) (auto simp: IsRetryable_join segment_def list_ex_iff)
  moreover have "length failures + length (filter opens (concat (seg # segs))) = length ((p, messages) # ps)"
    using seg(2) IH(5) unfolding failures by (cases err) (auto simp: segment_def)
  moreover have "failures = [] \<longleftrightarrow> set (err # errs) \<subseteq> {None}"
    using IH(6) unfolding failures by (cases err) auto
  ultimately show ?case
    using seg IH(1,2,3) by (intro exI [of _ "err # errs"] exI [of _ "seg # segs"]) simp
qed

section \<open>Properties\<close>

text \<open>
  C2. applyRepository implements the protocol with the ports: whatever they answer, the calls it makes
  are a run of the state machine from the search for open pull requests to the end, and it succeeds
  exactly when one pull request was opened.
\<close>
theorem applyRepository_protocol:
  "case applyRepository s t labels messages h of (err, h') \<Rightarrow>
     take (length h) h' = h \<and>
     (\<exists>q\<in>{Stopped, Closed}. run t (Searching (searched_branches t)) (drop (length h) h') q) \<and>
     length (filter opens (drop (length h) h')) = of_bool (err = None)"
proof (cases "applyRepository s t labels messages h")
  case (Pair err h')
  from applyRepository_segment [OF this] Pair show ?thesis by (auto simp: segment_def)
qed

text \<open>
  C3. Nothing is published that was not patched: a commit is made only on the update branch, after some
  manifest changed and none failed; a push follows that commit and is of that branch; a pull request
  is opened only for the branch of the update, after it is on the remote; and every patch asks for
  the tag of the event.
\<close>
theorem applyRepository_guarded:
  "guarded t [] (drop (length h) (snd (applyRepository s t labels messages h)))"
proof (cases "applyRepository s t labels messages h")
  case (Pair err h')
  from applyRepository_segment [OF this] segment_guarded Pair show ?thesis by auto
qed

end
