(* ===== verification/Delivery.thy ===== *)
theory Delivery
  imports Protocol
begin

text \<open>
  An event as a whole: what the source of the event is told, that every working copy is given back, and
  what a second delivery of the same event does.
\<close>

section \<open>How an event ends\<close>

lemma exec_error_not_retryable [simp]: "\<not> errors_is ErrRetryable exec_error"
  by (simp add: exec_error_def)

lemma write_not_retryable: "limited_write limit b s = Inl e \<Longrightarrow> \<not> errors_is ErrRetryable e"
  by (auto simp: limited_write_def split: if_splits)

lemma exec_not_retryable:
  "\<forall>e. exec_node limit d b n = Inl e \<longrightarrow> \<not> errors_is ErrRetryable e"
  "\<forall>e. exec_nodes limit d b ns = Inl e \<longrightarrow> \<not> errors_is ErrRetryable e"
  by (induction limit d b n and limit d b ns rule: exec_node_exec_nodes.induct)
    (simp_all add: write_not_retryable split: option.splits sum.splits)

lemma render_not_retryable: "render r d = Inl e \<Longrightarrow> \<not> errors_is ErrRetryable e"
proof -
  have exec: "\<not> errors_is ErrRetryable e" if "executeMessageTemplate t d = Inl e" for t d e
    using that exec_not_retryable(1) by (auto simp: executeMessageTemplate_def split: option.splits)
  have line: "\<not> errors_is ErrRetryable e" if "validateSingleLine name v n = Some e" for name v n e
    using that by (auto simp: validateSingleLine_def split: if_splits)
  have body: "\<not> errors_is ErrRetryable e" if "validateBody v = Some e" for v e
    using that by (auto simp: validateBody_def split: if_splits)
  show "render r d = Inl e \<Longrightarrow> \<not> errors_is ErrRetryable e"
    using exec line body by (fastforce simp: render_def split: sum.splits option.splits)
qed

fun remote :: "action \<Rightarrow> bool" where
  "remote (ResolveMetadata ref answer) = False"
| "remote a = True"

lemma imageLabels_append: "\<exists>tr. snd (imageLabels rt s event h) = h @ tr \<and> list_all (\<lambda>a. \<not> remote a) tr"
  by (auto simp: imageLabels_def Let_def split: option.splits sum.splits)

lemma not_remote: "\<not> remote a \<Longrightarrow> \<not> retry_action a \<and> \<not> opens a \<and> \<not> closes a \<and> \<not> checks_out a"
  by (cases a) auto

text \<open>The three ways an event can end: no plan, no messages, or a segment per repository.\<close>

lemma Handle_cases [consumes 1, case_names no_plan no_messages carried_out]:
  assumes "Handle rt s event h = (err, h')"
  obtains (no_plan) e where "plan_event rt (sv_rules s) (sv_annotate_from_labels s) event = Inl e" "err = Some e" "h' = h"
      "\<not> errors_is ErrRetryable e"
  | (no_messages) p e tr where "plan_event rt (sv_rules s) (sv_annotate_from_labels s) event = Inr p" "err = Some e"
      "h' = h @ tr" "list_all (\<lambda>a. \<not> remote a) tr" "\<not> errors_is ErrRetryable e"
  | (carried_out) p tr rendered failures errs segs where "plan_event rt (sv_rules s) (sv_annotate_from_labels s) event = Inr p"
      "list_all (\<lambda>a. \<not> remote a) tr" "map fst rendered = ep_repositories p"
      "apply_loop s (fst (imageLabels rt s (ep_event p) h)) rendered (h @ tr) = (failures, h')" "err = errors_join failures"
      "h' = (h @ tr) @ concat segs" "list_all2 (\<lambda>p (err, seg). segment (fst p) err seg) rendered (zip errs segs)"
      "length errs = length segs" "IsRetryable (errors_join failures) \<longleftrightarrow> list_ex retry_action (concat segs)"
      "length failures + length (filter opens (concat segs)) = length rendered" "failures = [] \<longleftrightarrow> set errs \<subseteq> {None}"
proof (cases "plan_event rt (sv_rules s) (sv_annotate_from_labels s) event")
  case (Inl e)
  with assms plan_event_error [OF Inl] show ?thesis by (intro no_plan) (auto simp: Handle_def)
next
  case (Inr p)
  obtain labels h1 where labels: "imageLabels rt s (ep_event p) h = (labels, h1)" by fastforce
  obtain tr where tr: "h1 = h @ tr" "list_all (\<lambda>a. \<not> remote a) tr"
    using imageLabels_append [of rt s "ep_event p" h] labels by auto
  show ?thesis
  proof (cases "map_result (render_repository s labels) (ep_repositories p)")
    case (Inl e)
    have "\<not> errors_is ErrRetryable e" if "map_result (render_repository s labels) ps = Inl e" for ps
      using that by (induction ps) (auto simp: render_repository_def dest: render_not_retryable split: sum.splits)
    with Inl have "\<not> errors_is ErrRetryable e" by blast
    with assms Inr labels tr Inl show ?thesis by (intro no_messages) (auto simp: Handle_def apply_plan_def)
  next
    case rendered: (Inr rendered)
    then have "list_all2 (\<lambda>p r. fst r = p) (ep_repositories p) rendered"
      unfolding map_result_Inr by (rule list_all2_mono) (auto simp: render_repository_def split: sum.splits)
    then have "map fst rendered = ep_repositories p" by (induction rule: list_all2_induct) auto
    moreover obtain failures h2 where loop: "apply_loop s labels rendered h1 = (failures, h2)" by fastforce
    moreover have "err = errors_join failures" "h' = h2"
      using assms Inr labels rendered loop by (auto simp: Handle_def apply_plan_def)
    moreover obtain errs segs where "h2 = h1 @ concat segs" "list_all2 (\<lambda>p (err, seg). segment (fst p) err seg) rendered (zip errs segs)"
      "length errs = length segs" "IsRetryable (errors_join failures) \<longleftrightarrow> list_ex retry_action (concat segs)"
      "length failures + length (filter opens (concat segs)) = length rendered" "failures = [] \<longleftrightarrow> set errs \<subseteq> {None}"
      using apply_loop_segments [OF loop] by blast
    ultimately show ?thesis
      using Inr tr labels by (intro carried_out [of p tr rendered failures segs errs]) auto
  qed
qed

lemma Handle_answer:
  assumes "Handle rt s event h = (err, h')"
  shows "take (length h) h' = h \<and> (IsRetryable err = list_ex retry_action (drop (length h) h')) \<and>
    ((err = None) = (case plan_event rt (sv_rules s) (sv_annotate_from_labels s) event of
        Inl e \<Rightarrow> False | Inr p \<Rightarrow> length (filter opens (drop (length h) h')) = length (ep_repositories p)))"
  using assms
proof (cases rule: Handle_cases)
  case (no_plan e)
  then show ?thesis by simp
next
  case (no_messages p e tr)
  then have "\<not> list_ex retry_action tr" "filter opens tr = []"
    using not_remote by (auto simp: list_all_iff list_ex_iff filter_empty_conv)
  with no_messages plan_event_nonempty [OF no_messages(1)] show ?thesis by simp
next
  case (carried_out p tr rendered failures errs segs)
  then have "\<not> list_ex retry_action tr" "filter opens tr = []"
    using not_remote by (auto simp: list_all_iff list_ex_iff filter_empty_conv)
  moreover have "length rendered = length (ep_repositories p)" using carried_out(3) by (metis length_map)
  moreover have "(failures = []) = (length (filter opens (concat segs)) = length rendered)"
    using carried_out(10) by auto
  ultimately show ?thesis using carried_out(1,5,6,9) by simp
qed

section \<open>Properties\<close>

text \<open>
  C1. What the event source is told: the event has to come back exactly when some call gave an answer
  that asks for a retry, however many repositories failed for other reasons; and it is done without an
  error exactly when every repository of its plan got its pull request.
\<close>
theorem Handle_outcome:
  "case Handle rt s event h of (err, h') \<Rightarrow>
     take (length h) h' = h \<and>
     (IsRetryable err = list_ex retry_action (drop (length h) h')) \<and>
     ((err = None) = (case plan_event rt (sv_rules s) (sv_annotate_from_labels s) event of
        Inl e \<Rightarrow> False | Inr p \<Rightarrow> length (filter opens (drop (length h) h')) = length (ep_repositories p)))"
  by (cases "Handle rt s event h") (simp add: Handle_answer)

lemma list_all2_zip:
  assumes "list_all2 (\<lambda>p (err, seg). P p err seg) ps (zip errs segs)" "length errs = length segs"
  shows "\<forall>seg\<in>set segs. \<exists>p\<in>set ps. \<exists>err. P p err seg"
    and "\<forall>p\<in>set ps. \<exists>err\<in>set errs. \<exists>seg\<in>set segs. P p err seg"
proof -
  have n: "length ps = length segs" "length (zip errs segs) = length segs"
    using assms list_all2_lengthD [OF assms(1)] by simp_all
  have at: "P (ps ! i) (errs ! i) (segs ! i)" if "i < length segs" for i
    using list_all2_nthD [OF assms(1), of i] that assms(2) n by simp
  show "\<forall>seg\<in>set segs. \<exists>p\<in>set ps. \<exists>err. P p err seg" "\<forall>p\<in>set ps. \<exists>err\<in>set errs. \<exists>seg\<in>set segs. P p err seg"
    using at n assms(2) by (metis in_set_conv_nth nth_mem)+
qed

text \<open>
  C16. Every working copy is given back: in the calls of one event there are as many Close as successful
  checkouts, on every path, also when a patch, a commit or a push fails.
\<close>
theorem Handle_releases:
  "length (filter closes (drop (length h) (snd (Handle rt s event h)))) =
   length (filter checks_out (drop (length h) (snd (Handle rt s event h))))"
proof (cases "Handle rt s event h")
  case (Pair err h')
  from Pair show ?thesis
  proof (cases rule: Handle_cases)
    case (no_plan e)
    with Pair show ?thesis by simp
  next
    case (no_messages p e tr)
    then have "filter closes tr = []" "filter checks_out tr = []"
      using not_remote by (auto simp: list_all_iff filter_empty_conv)
    with no_messages Pair show ?thesis by simp
  next
    case (carried_out p tr rendered failures errs segs)
    then have "filter closes tr = []" "filter checks_out tr = []"
      using not_remote by (auto simp: list_all_iff filter_empty_conv)
    moreover have "\<forall>seg\<in>set segs. length (filter closes seg) = length (filter checks_out seg)"
      using list_all2_zip(1) [OF carried_out(7,8)] segment_copy by blast
    then have "length (filter closes (concat segs)) = length (filter checks_out (concat segs))"
      by (induction segs) auto
    ultimately show ?thesis using carried_out(6) Pair by simp
  qed
qed

section \<open>Redelivery\<close>

text \<open>A git host that finds a pull request as long as it was opened: nobody merges or closes it.\<close>

definition remembers_pull_requests :: "manifest_repository \<Rightarrow> bool" where
  "remembers_pull_requests gh \<longleftrightarrow> (\<forall>h pr url. CreatePullRequest pr (Inr url) \<in> set h \<longrightarrow>
     (case gh_find_open gh h (pr_owner pr) (pr_repository pr) (pr_head pr) of Inl e \<Rightarrow> False | Inr found \<Rightarrow> found \<noteq> []))"

fun only_looks :: "action \<Rightarrow> bool" where
  "only_looks (ResolveMetadata ref answer) = True"
| "only_looks (FindOpen owner repo head answer) = True"
| "only_looks a = False"

lemma guarded_opens: "guarded t before tr \<Longrightarrow> CreatePullRequest pr answer \<in> set tr \<Longrightarrow> is_pull_request t pr"
  by (induction tr arbitrary: before) auto

lemma segment_opens:
  assumes "segment t None tr"
  shows "\<exists>pr url. CreatePullRequest pr (Inr url) \<in> set tr \<and> is_pull_request t pr"
proof -
  have "filter opens tr \<noteq> []" using assms by (auto simp: segment_def)
  then obtain a where a: "a \<in> set tr" "opens a" by (auto simp: filter_empty_conv)
  from a(2) obtain pr url where "a = CreatePullRequest pr (Inr url)" by (rule opensE)
  with a(1) guarded_opens [OF segment_guarded [OF assms]] show ?thesis by blast
qed

lemma applyRepository_found:
  assumes gh: "remembers_pull_requests (sv_manifests s)"
    and pr: "CreatePullRequest pr (Inr url) \<in> set h" "is_pull_request t pr"
  shows "\<exists>e a. applyRepository s t labels messages h = (Some e, h @ [a]) \<and> \<not> errors_is ErrRetryable e \<and> only_looks a"
proof -
  have "case gh_find_open (sv_manifests s) h (ml_owner (rp_location t)) (ml_repository (rp_location t)) (rp_branch t) of
      Inl e \<Rightarrow> False | Inr found \<Rightarrow> found \<noteq> []"
    using gh pr unfolding remembers_pull_requests_def is_pull_request_def by metis
  then obtain found where "gh_find_open (sv_manifests s) h (ml_owner (rp_location t)) (ml_repository (rp_location t)) (rp_branch t) = Inr found"
    "found \<noteq> []" by (auto split: sum.splits)
  then show ?thesis
    by (simp add: applyRepository_def ensureNoOpenPullRequest_def searched_branches_def Let_def)
qed

lemma apply_loop_found:
  assumes "apply_loop s labels ps h = (failures, h')" and "remembers_pull_requests (sv_manifests s)"
    and "\<forall>p\<in>set ps. \<exists>pr url. CreatePullRequest pr (Inr url) \<in> set h \<and> is_pull_request (fst p) pr"
  shows "length failures = length ps \<and> (\<forall>e\<in>set failures. \<not> errors_is ErrRetryable e) \<and>
    (\<exists>tr. h' = h @ tr \<and> list_all only_looks tr)"
  using assms
proof (induction s labels ps h arbitrary: failures rule: apply_loop.induct)
  case (2 s labels p messages ps h)
  obtain pr url where pr: "CreatePullRequest pr (Inr url) \<in> set h" "is_pull_request p pr" using 2(4) by auto
  obtain e a where one: "applyRepository s p labels messages h = (Some e, h @ [a])" "\<not> errors_is ErrRetryable e" "only_looks a"
    using applyRepository_found [OF 2(3) pr] by blast
  obtain fails where rest: "apply_loop s labels ps (h @ [a]) = (fails, h')"
    and failures: "failures = Errorf ''update %s: %w'' [AStr (ml_repository_url (rp_location p))] [e] # fails"
    using 2(2) one(1) by (auto split: prod.splits)
  have "\<forall>p\<in>set ps. \<exists>pr url. CreatePullRequest pr (Inr url) \<in> set (h @ [a]) \<and> is_pull_request (fst p) pr"
    using 2(4) by auto
  from 2(1) [OF one(1) [symmetric] rest 2(3) this] one(2,3) show ?case unfolding failures by auto
qed simp

lemma Handle_opened:
  assumes "Handle rt s event h = (None, h1)"
  shows "\<exists>p. plan_event rt (sv_rules s) (sv_annotate_from_labels s) event = Inr p \<and>
    (\<forall>q\<in>set (ep_repositories p). \<exists>pr url. CreatePullRequest pr (Inr url) \<in> set h1 \<and> is_pull_request q pr)"
  using assms
proof (cases rule: Handle_cases)
  case (carried_out p tr rendered failures errs segs)
  then have "failures = []" by (cases failures) auto
  then have errs: "set errs \<subseteq> {None}" using carried_out(11) by simp
  have "\<exists>pr url. CreatePullRequest pr (Inr url) \<in> set h1 \<and> is_pull_request q pr" if q: "q \<in> set (ep_repositories p)" for q
  proof -
    obtain r where "r \<in> set rendered" "q = fst r" using q carried_out(3) [symmetric] by auto
    then obtain seg where "seg \<in> set segs" "segment q None seg"
      using list_all2_zip(2) [OF carried_out(7,8)] errs by fastforce
    with segment_opens carried_out(6) show ?thesis by fastforce
  qed
  with carried_out(1) show ?thesis by blast
qed auto

text \<open>
  C5. A second delivery is harmless: when an event was carried out and its pull requests are still
  open, delivering it again opens nothing, writes nothing, and reports an error the source does not
  retry.
\<close>
theorem Handle_redelivered:
  assumes gh: "remembers_pull_requests (sv_manifests s)"
    and first: "Handle rt s event h = (None, h1)" and later: "set h1 \<subseteq> set h2"
  shows "\<exists>e. fst (Handle rt s event h2) = Some e \<and> \<not> errors_is ErrRetryable e \<and>
    list_all only_looks (drop (length h2) (snd (Handle rt s event h2)))"
proof -
  obtain p where plan: "plan_event rt (sv_rules s) (sv_annotate_from_labels s) event = Inr p"
    and opened: "\<forall>q\<in>set (ep_repositories p). \<exists>pr url. CreatePullRequest pr (Inr url) \<in> set h1 \<and> is_pull_request q pr"
    using Handle_opened [OF first] by blast
  obtain err h3 where again: "Handle rt s event h2 = (err, h3)" by fastforce
  have looks: "list_all only_looks tr" if "list_all (\<lambda>a. \<not> remote a) tr" for tr
    using that by (auto simp: list_all_iff elim!: remote.elims)
  from again show ?thesis
  proof (cases rule: Handle_cases)
    case (no_plan e)
    with again show ?thesis by simp
  next
    case (no_messages p e tr)
    with again looks show ?thesis by simp
  next
    case (carried_out p' tr rendered failures errs segs)
    with plan have p': "map fst rendered = ep_repositories p" by simp
    have "\<forall>r\<in>set rendered. fst r \<in> set (ep_repositories p)" unfolding p' [symmetric] by simp
    with opened later have "\<forall>r\<in>set rendered. \<exists>pr url. CreatePullRequest pr (Inr url) \<in> set (h2 @ tr) \<and> is_pull_request (fst r) pr"
      by fastforce
    from apply_loop_found [OF carried_out(4) gh this] obtain tr2 where
      found: "length failures = length rendered" "\<forall>e\<in>set failures. \<not> errors_is ErrRetryable e"
        "h3 = (h2 @ tr) @ tr2" "list_all only_looks tr2" by blast
    have "rendered \<noteq> []" using p' plan_event_nonempty [OF plan] by auto
    with found(1) have "failures \<noteq> []" by auto
    then obtain e where "errors_join failures = Some e" by (cases "errors_join failures") auto
    moreover have "\<not> IsRetryable (errors_join failures)" using found(2) by (auto simp: IsRetryable_join)
    ultimately show ?thesis using again carried_out(5) found(3,4) looks [OF carried_out(2)] by simp
  qed
qed

section \<open>One pull request for an update\<close>

text \<open>
  What is enough for this: a search that succeeds finds the pull request. It may fail, and be in need of a
  retry.
\<close>

definition finds_pull_requests :: "manifest_repository \<Rightarrow> bool" where
  "finds_pull_requests gh \<longleftrightarrow> (\<forall>h pr url. CreatePullRequest pr (Inr url) \<in> set h \<longrightarrow>
     gh_find_open gh h (pr_owner pr) (pr_repository pr) (pr_head pr) \<noteq> Inr [])"

lemma applyRepository_searched:
  assumes gh: "finds_pull_requests (sv_manifests s)"
    and pr: "CreatePullRequest pr (Inr url) \<in> set h" "is_pull_request t pr"
  shows "\<exists>e a. applyRepository s t labels messages h = (Some e, h @ [a]) \<and> only_looks a"
proof -
  have "gh_find_open (sv_manifests s) h (ml_owner (rp_location t)) (ml_repository (rp_location t)) (rp_branch t) \<noteq> Inr []"
    using gh pr unfolding finds_pull_requests_def is_pull_request_def by metis
  then show ?thesis
    by (simp add: applyRepository_def ensureNoOpenPullRequest_def searched_branches_def Let_def split: sum.splits)
qed

fun pr_key :: "action \<Rightarrow> string \<times> string \<times> string" where
  "pr_key (CreatePullRequest pr answer) = (pr_owner pr, pr_repository pr, pr_head pr)"
| "pr_key a = ([], [], [])"

definition opened_keys :: "history \<Rightarrow> (string \<times> string \<times> string) list" where
  "opened_keys h = map pr_key (filter opens h)"

lemma opened_keys_append [simp]: "opened_keys (h @ tr) = opened_keys h @ opened_keys tr"
  by (simp add: opened_keys_def)

lemma opened_keys_none: "list_all (\<lambda>a. \<not> opens a) tr \<Longrightarrow> opened_keys tr = []"
  by (auto simp: opened_keys_def filter_empty_conv list_all_iff)

lemma opened_keys_iff:
  "k \<in> set (opened_keys h) \<longleftrightarrow> (\<exists>pr url. CreatePullRequest pr (Inr url) \<in> set h \<and> k = (pr_owner pr, pr_repository pr, pr_head pr))"
  by (force simp: opened_keys_def elim: opensE)

lemma segment_keys:
  assumes "segment t err tr" "k \<in> set (opened_keys tr)"
  shows "k = (ml_owner (rp_location t), ml_repository (rp_location t), rp_branch t)"
proof -
  obtain pr url where "CreatePullRequest pr (Inr url) \<in> set tr" "k = (pr_owner pr, pr_repository pr, pr_head pr)"
    using assms(2) by (auto simp: opened_keys_iff)
  with guarded_opens [OF segment_guarded [OF assms(1)]] show ?thesis by (auto simp: is_pull_request_def)
qed

lemma applyRepository_keys:
  assumes gh: "finds_pull_requests (sv_manifests s)" and "distinct (opened_keys h)"
    and one: "applyRepository s t labels messages h = (err, h')"
  shows "distinct (opened_keys h')"
proof (cases "\<exists>pr url. CreatePullRequest pr (Inr url) \<in> set h \<and> is_pull_request t pr")
  case True
  then obtain pr url where "CreatePullRequest pr (Inr url) \<in> set h" "is_pull_request t pr" by blast
  from applyRepository_searched [OF gh this, of labels messages] one obtain a where "h' = h @ [a]" "only_looks a" by auto
  moreover from this have "opened_keys [a] = []" by (cases a) (auto simp: opened_keys_def)
  ultimately show ?thesis using assms(2) by simp
next
  case False
  obtain tr where tr: "h' = h @ tr" "segment t err tr" using applyRepository_segment [OF one] by blast
  have "length (opened_keys tr) \<le> 1" using tr(2) by (simp add: opened_keys_def segment_def)
  then have "distinct (opened_keys tr)" by (cases "opened_keys tr") auto
  moreover have "set (opened_keys h) \<inter> set (opened_keys tr) = {}"
    using False segment_keys [OF tr(2)] by (auto simp: opened_keys_iff is_pull_request_def) blast
  ultimately show ?thesis using assms(2) tr(1) by simp
qed

lemma apply_loop_keys:
  "finds_pull_requests (sv_manifests s) \<Longrightarrow> distinct (opened_keys h) \<Longrightarrow> apply_loop s labels ps h = (failures, h') \<Longrightarrow>
     distinct (opened_keys h')"
  by (induction s labels ps h arbitrary: failures rule: apply_loop.induct)
    (auto split: prod.splits dest: applyRepository_keys)

lemma Handle_keys:
  assumes gh: "finds_pull_requests (sv_manifests s)" and "distinct (opened_keys h)"
  shows "distinct (opened_keys (snd (Handle rt s event h)))"
proof -
  have looked: "opened_keys tr = []" if "list_all (\<lambda>a. \<not> remote a) tr" for tr
    using that not_remote by (intro opened_keys_none) (auto simp: list_all_iff)
  obtain err h' where "Handle rt s event h = (err, h')" by fastforce
  then show ?thesis
  proof (cases rule: Handle_cases)
    case (carried_out p tr rendered failures errs segs)
    with assms looked apply_loop_keys [OF gh _ carried_out(4)] \<open>Handle rt s event h = _\<close> show ?thesis by simp
  qed (use assms looked \<open>Handle rt s event h = _\<close> in auto)
qed

fun deliveries :: "runtime \<Rightarrow> service \<Rightarrow> image_push_event list \<Rightarrow> history \<Rightarrow> history" where
  "deliveries rt s [] h = h"
| "deliveries rt s (event # events) h = deliveries rt s events (snd (Handle rt s event h))"

lemma deliveries_keys:
  "finds_pull_requests (sv_manifests s) \<Longrightarrow> distinct (opened_keys h) \<Longrightarrow> distinct (opened_keys (deliveries rt s events h))"
  by (induction events arbitrary: h) (auto intro: Handle_keys)

text \<open>
  C7. No update is proposed twice: whatever events are delivered, in whatever order and however often,
  one after the other, no two pull requests are opened for the same branch of the same repository while
  a search of the git host that succeeds finds the first one. The search may also fail.
\<close>
theorem deliveries_open_once:
  assumes "finds_pull_requests (sv_manifests s)"
  shows "distinct (opened_keys (deliveries rt s events []))"
  using deliveries_keys [OF assms, of "[]"] by (simp add: opened_keys_def)

section \<open>An event delivered twice\<close>

definition sample_gh :: manifest_repository where
  "sample_gh = \<lparr>
     gh_find_open = (\<lambda>h owner repo head. Inr (if list_ex (\<lambda>a. case a of CreatePullRequest pr (Inr url) \<Rightarrow>
       pr_owner pr = owner \<and> pr_repository pr = repo \<and> pr_head pr = head | _ \<Rightarrow> False) h then ''/pull/1'' else [])),
     gh_checkout = (\<lambda>h url. Inr ''/w''), gh_create_branch = (\<lambda>h b. None), gh_commit = (\<lambda>h m. None),
     gh_push = (\<lambda>h b. None), gh_close = (\<lambda>h. None), gh_create_pull_request = (\<lambda>h pr. Inr ''/pull/1'')\<rparr>"

definition sample_template :: template where
  "sample_template = \<lparr>tp_root = Some (ListNode [TextNode ''Update'']), tp_others = []\<rparr>"

definition sample_service :: service where
  "sample_service = \<lparr>sv_rules = [sample_compiled], sv_resolver = None, sv_manifests = sample_gh,
     sv_directories = (\<lambda>h root dir. Inr [dir]), sv_patcher = (\<lambda>h dir u. None),
     sv_messages = \<lparr>mr_pull_request_title = sample_template, mr_pull_request_body = sample_template,
       mr_commit_message = sample_template\<rparr>, sv_annotate_from_labels = False\<rparr>"

lemma sample_gh_remembers: "remembers_pull_requests sample_gh"
  by (auto simp: remembers_pull_requests_def sample_gh_def list_ex_iff intro!: bexI split: action.splits sum.splits)

lemma sample_gh_finds: "finds_pull_requests sample_gh"
  using sample_gh_remembers by (fastforce simp: remembers_pull_requests_def finds_pull_requests_def)

lemma sample_messages_rendered:
  "render (sv_messages sample_service) d =
     Inr \<lparr>rm_pull_request_title = ''Update'', rm_pull_request_body = ''Update'', rm_commit_message = ''Update''\<rparr>"
proof -
  have "validateSingleLine name ''Update'' n = None" if "6 \<le> n" for name n
    using that by (intro single_line [where c = "CHR ''U''"]) (simp_all add: visible_def byte_def)
  moreover have "body_message ''Update''"
    by (rule text_body [where c = "CHR ''U''"]) (simp_all add: ascii_def visible_def byte_def)
  ultimately show ?thesis
    by (simp add: render_def sample_service_def sample_template_def executeMessageTemplate_def body_message_def
        limited_write_def maxRenderedMessageBytes_def maxPullRequestTitleRunes_def maxCommitMessageRunes_def)
qed

lemma sample_targets: "normalizeManifestTargets url [sample_target] = Inr [sample_target]"
  by (simp add: normalizeManifestTargets_def sample_target_def)

lemma sample_answers:
  "gh_checkout (sv_manifests sample_service) h url = Inr ''/w''" "gh_create_branch (sv_manifests sample_service) h b = None"
  "gh_commit (sv_manifests sample_service) h m = None" "gh_push (sv_manifests sample_service) h b = None"
  "gh_create_pull_request (sv_manifests sample_service) h pr = Inr ''/pull/1''"
  "sv_directories sample_service h root dir = Inr [dir]" "sv_patcher sample_service h dir u = None"
  by (simp_all add: sample_service_def sample_gh_def)

lemma sample_apply:
  "\<exists>h'. applyRepository sample_service sample_repository labels messages [] = (None, h')"
proof -
  have free: "\<exists>h'. ensureNoOpenPullRequest sample_service sample_repository [] = (None, h')"
    by (simp add: ensureNoOpenPullRequest_def searched_branches_def sample_service_def sample_gh_def Let_def)
  have "sample_target\<lparr>tg_location := (tg_location sample_target)\<lparr>ml_dir := tg_dir sample_target\<rparr>\<rparr> = sample_target"
    by (simp add: tg_dir_def)
  moreover have "rp_targets sample_repository = [sample_target]" by (simp add: sample_repository_def)
  ultimately have "\<exists>h'. in_checkout sample_service sample_repository labels messages root h = (None, h')" for root h
    by (simp add: in_checkout_def resolveManifestTargets_def sample_targets sample_answers Let_def
        commit_and_push_def push_and_open_def create_pull_request_def)
  then have "\<exists>h'. (case in_checkout sample_service sample_repository labels messages root h of
      (err, h3) \<Rightarrow> (err, h3 @ [CloseCheckout (gh_close (sv_manifests sample_service) h3)])) = (None, h')" for root h
    by (metis (no_types, lifting) prod.case)
  with free show ?thesis
    by (elim exE) (simp add: applyRepository_def Let_def sample_answers)
qed

theorem Handle_redelivered_witness:
  "case Handle sample_runtime sample_service (sample_event ''x'' ''v1'') [] of (err, h1) \<Rightarrow>
     err = None \<and> fst (Handle sample_runtime sample_service (sample_event ''x'' ''v1'') h1) \<noteq> None"
proof -
  let ?ev = "sample_event ''x'' ''v1''"
  obtain err h1 where one: "Handle sample_runtime sample_service ?ev [] = (err, h1)" by fastforce
  have plan: "plan_event sample_runtime (sv_rules sample_service) (sv_annotate_from_labels sample_service) ?ev =
      Inr \<lparr>ep_event = ?ev, ep_repositories = [sample_repository]\<rparr>"
    by (simp add: sample_service_def sample_plan_ok)
  have "imageLabels sample_runtime sample_service e h = (no_labels, h)" for e h
    by (simp add: imageLabels_def sample_service_def)
  with one plan have err: "err = None"
    using sample_apply [of no_labels "\<lparr>rm_pull_request_title = ''Update'', rm_pull_request_body = ''Update'', rm_commit_message = ''Update''\<rparr>"]
    by (auto simp: Handle_def apply_plan_def render_repository_def sample_messages_rendered)
  have "remembers_pull_requests (sv_manifests sample_service)"
    using sample_gh_remembers by (simp add: sample_service_def)
  from Handle_redelivered [OF this, of sample_runtime ?ev "[]" h1 h1] one err show ?thesis by auto
qed

theorem deliveries_open_once_witness:
  "distinct (opened_keys (deliveries sample_runtime sample_service [sample_event ''x'' ''v1'', sample_event ''x'' ''v1''] []))"
proof -
  have "finds_pull_requests (sv_manifests sample_service)"
    using sample_gh_finds by (simp add: sample_service_def)
  then show ?thesis by (rule deliveries_open_once)
qed

end
