(* ===== verification/Sqs_Source.thy ===== *)
theory Sqs_Source
  imports Events
begin

text \<open>
  \<open>internal/infrastructure/queue/sqs/source.go\<close>: the configuration, the polling loop, the handling of one
  message, the batch with its concurrency limit, and the heartbeat that keeps a message hidden while it
  is handled. What SQS, the clock and the context do is an input: the loops run over a list of
  observations, one for each round, and end where the list ends. A \<open>time.Duration\<close> and a reading of the
  monotonic clock are nanoseconds. The log output is left out.
\<close>

section \<open>Durations\<close>

definition second :: int where "second = 1000000000"

definition defaultMaxMessages :: int where "defaultMaxMessages = 10"
definition defaultVisibilityTimeout :: int where "defaultVisibilityTimeout = 20"
definition defaultWaitTime :: int where "defaultWaitTime = 20"
definition defaultConcurrency :: int where "defaultConcurrency = 10"
definition receiveBackoff :: int where "receiveBackoff = 5 * second"
definition maxVisibilityRenewCallTimeout :: int where "maxVisibilityRenewCallTimeout = 5 * second"
definition maxMessageVisibilityLifetime :: int where "maxMessageVisibilityLifetime = 12 * 60 * 60 * second"
definition visibilityLifetimeMargin :: int where "visibilityLifetimeMargin = second"

text \<open>Go's division of integers truncates; \<open>Truncate\<close> rounds towards zero to a multiple.\<close>

definition quotient :: "int \<Rightarrow> int \<Rightarrow> int" where
  "quotient a b = (if 0 \<le> a then a div b else - ((- a) div b))"

definition Truncate :: "int \<Rightarrow> int \<Rightarrow> int" where
  "Truncate d m = quotient d m * m"

definition int32_of :: "int \<Rightarrow> int" where
  "int32_of n = (n + 2 ^ 31) mod 2 ^ 32 - 2 ^ 31"

section \<open>Configuration\<close>

record source_config =
  cf_queue_url :: string
  cf_max_messages :: int
  cf_visibility_timeout :: int
  cf_wait_time :: int
  cf_concurrency :: int
  cf_poll_interval :: int

definition applyDefaults :: "source_config \<Rightarrow> source_config" where
  "applyDefaults c =
     c\<lparr>cf_max_messages := (if cf_max_messages c \<le> 0 then defaultMaxMessages else cf_max_messages c),
       cf_visibility_timeout := (if cf_visibility_timeout c \<le> 0 then defaultVisibilityTimeout else cf_visibility_timeout c),
       cf_wait_time := (if cf_wait_time c \<le> 0 then defaultWaitTime else cf_wait_time c),
       cf_concurrency := (if cf_concurrency c \<le> 0 then defaultConcurrency else cf_concurrency c)\<rparr>"

type_synonym event_decoder = "string \<Rightarrow> (go_error, image_push_event) result"

text \<open>Of the API only the answer to \<open>DeleteMessage\<close> is a function; the other answers are observations.\<close>

record sqs_api =
  api_delete :: "string \<Rightarrow> string \<Rightarrow> go_error option"

record source =
  sc_api :: sqs_api
  sc_decoder :: event_decoder
  sc_config :: source_config

definition NewSource :: "sqs_api option \<Rightarrow> event_decoder option \<Rightarrow> source_config \<Rightarrow> (go_error, source) result" where
  "NewSource api decoder cfg =
     (case api of
        None \<Rightarrow> Inl (ErrorsNew ''sqs: api is nil'')
      | Some a \<Rightarrow> (case decoder of
          None \<Rightarrow> Inl (ErrorsNew ''sqs: event decoder is nil'')
        | Some d \<Rightarrow>
            if cf_queue_url cfg = [] then Inl (ErrorsNew ''sqs: queue URL is empty'')
            else if cf_max_messages cfg < 0 \<or> cf_visibility_timeout cfg < 0 \<or> cf_wait_time cfg < 0 \<or>
              cf_concurrency cfg < 0 \<or> cf_poll_interval cfg < 0
            then Inl (ErrorsNew ''sqs: numeric configuration must not be negative'')
            else let c = applyDefaults cfg in
              if 10 < cf_max_messages c
              then Inl (Errorf ''sqs: max messages must be between 1 and 10, got %d'' [AInt (cf_max_messages c)] [])
              else if 43200 < cf_visibility_timeout c
              then Inl (Errorf ''sqs: visibility timeout must be at most 43200 seconds, got %d'' [AInt (cf_visibility_timeout c)] [])
              else if 20 < cf_wait_time c
              then Inl (Errorf ''sqs: wait time must be at most 20 seconds, got %d'' [AInt (cf_wait_time c)] [])
              else if 10 < cf_concurrency c
              then Inl (Errorf ''sqs: concurrency must be between 1 and 10, got %d'' [AInt (cf_concurrency c)] [])
              else Inr \<lparr>sc_api = a, sc_decoder = d, sc_config = c\<rparr>))"

section \<open>Polling\<close>

record sqs_message =
  sm_id :: "string option"
  sm_receipt_handle :: "string option"
  sm_body :: "string option"

text \<open>\<open>aws.ToString\<close>: the empty string for nil.\<close>

definition aws_ToString :: "string option \<Rightarrow> string" where
  "aws_ToString s = (case s of None \<Rightarrow> [] | Some v \<Rightarrow> v)"

record receive_input =
  ri_queue_url :: string
  ri_max_messages :: int
  ri_visibility_timeout :: int
  ri_wait_time :: int

definition receive :: "source \<Rightarrow> receive_input" where
  "receive s = (let c = sc_config s in
     \<lparr>ri_queue_url = cf_queue_url c, ri_max_messages = min (cf_max_messages c) (int32_of (cf_concurrency c)),
      ri_visibility_timeout = cf_visibility_timeout c, ri_wait_time = cf_wait_time c\<rparr>)"

text \<open>
  What one round of \<open>Run\<close> observes: whether the context is cancelled at the head of the loop, the answer
  to the receive, whether the context is cancelled after a failed one, whether it is cancelled when a
  pause begins, and whether the timer of the pause fired first.
\<close>

record poll =
  po_stopped :: bool
  po_answer :: "(go_error, sqs_message list) result"
  po_stopped_receiving :: bool
  po_stopped_sleeping :: bool
  po_timer_fired :: bool

definition sleep :: "poll \<Rightarrow> int \<Rightarrow> bool" where
  "sleep p d = (if d \<le> 0 then \<not> po_stopped_sleeping p else po_timer_fired p)"

datatype run_action = Receive receive_input | Dispatch "sqs_message list" | Sleep int

text \<open>The second component says whether \<open>Run\<close> has returned.\<close>

fun run_loop :: "source \<Rightarrow> poll list \<Rightarrow> run_action list \<times> bool" where
  "run_loop s [] = ([], False)"
| "run_loop s (p # ps) =
     (if po_stopped p then ([], True)
      else (case po_answer p of
          Inl err \<Rightarrow>
            if po_stopped_receiving p then ([Receive (receive s)], True)
            else if \<not> sleep p receiveBackoff then ([Receive (receive s), Sleep receiveBackoff], True)
            else (case run_loop s ps of (as, returned) \<Rightarrow> ([Receive (receive s), Sleep receiveBackoff] @ as, returned))
        | Inr messages \<Rightarrow>
            (let handled = (if messages \<noteq> [] then [Dispatch messages] else []);
                 interval = cf_poll_interval (sc_config s) in
             if \<not> sleep p interval then (Receive (receive s) # handled @ [Sleep interval], True)
             else (case run_loop s ps of (as, returned) \<Rightarrow> (Receive (receive s) # handled @ [Sleep interval] @ as, returned)))))"

type_synonym 'w event_handler = "image_push_event \<Rightarrow> 'w \<Rightarrow> go_error option \<times> 'w"

definition Run :: "source \<Rightarrow> 'w event_handler option \<Rightarrow> poll list \<Rightarrow> go_error option \<times> run_action list \<times> bool" where
  "Run s handler ps =
     (case handler of
        None \<Rightarrow> (Some (ErrorsNew ''sqs: event handler is nil''), [], True)
      | Some h \<Rightarrow> (None, run_loop s ps))"

section \<open>One message\<close>

datatype message_action =
    StartHeartbeat string
  | StopHeartbeat string
  | HandleEvent image_push_event "go_error option"
  | DeleteMessage string string "go_error option"  \<comment> \<open>queue, receipt handle, answer\<close>

definition acknowledge :: "source \<Rightarrow> string \<Rightarrow> message_action list" where
  "acknowledge s receiptHandle =
     (if receiptHandle = [] then []
      else [DeleteMessage (cf_queue_url (sc_config s)) receiptHandle
              (api_delete (sc_api s) (cf_queue_url (sc_config s)) receiptHandle)])"

text \<open>What starts the heartbeat, and what the returned function does.\<close>

definition startVisibilityHeartbeat :: "string \<Rightarrow> message_action list \<times> message_action list" where
  "startVisibilityHeartbeat receiptHandle =
     (if receiptHandle = [] then ([], []) else ([StartHeartbeat receiptHandle], [StopHeartbeat receiptHandle]))"

definition process :: "source \<Rightarrow> 'w event_handler \<Rightarrow> sqs_message \<Rightarrow> 'w \<Rightarrow> message_action list \<times> 'w" where
  "process s handler message w =
     (let receiptHandle = aws_ToString (sm_receipt_handle message);
          (started, stopHeartbeat) = startVisibilityHeartbeat receiptHandle in
      case sc_decoder s (aws_ToString (sm_body message)) of
        Inl err \<Rightarrow> (started @ acknowledge s receiptHandle @ stopHeartbeat, w)
      | Inr event \<Rightarrow> (case handler event w of
          (err, w') \<Rightarrow>
            (started @ [HandleEvent event err] @ (if IsRetryable err then [] else acknowledge s receiptHandle) @ stopHeartbeat,
             w')))"

section \<open>A batch\<close>

text \<open>
  \<open>dispatch\<close> hands each message to \<open>errgroup.Group.Go\<close>, which blocks while as many goroutines are
  active as \<open>SetLimit\<close> allows, and then waits for the group. The steps are those of the loop, of a
  goroutine that ends, and of \<open>Wait\<close>; the order among them is not determined.
\<close>

record dispatch_state =
  ds_waiting :: "sqs_message list"
  ds_active :: "sqs_message list"
  ds_processed :: "sqs_message list"
  ds_returned :: bool

definition dispatch :: "sqs_message list \<Rightarrow> dispatch_state" where
  "dispatch messages = \<lparr>ds_waiting = messages, ds_active = [], ds_processed = [], ds_returned = False\<rparr>"

inductive dispatch_step :: "int \<Rightarrow> dispatch_state \<Rightarrow> dispatch_state \<Rightarrow> bool" for limit where
  go: "ds_waiting s = m # ms \<Longrightarrow> int (length (ds_active s)) < limit \<Longrightarrow>
    dispatch_step limit s (s\<lparr>ds_waiting := ms, ds_active := ds_active s @ [m]\<rparr>)"
| finish: "ds_active s = as @ m # bs \<Longrightarrow>
    dispatch_step limit s (s\<lparr>ds_active := as @ bs, ds_processed := ds_processed s @ [m]\<rparr>)"
| wait: "ds_waiting s = [] \<Longrightarrow> ds_active s = [] \<Longrightarrow> \<not> ds_returned s \<Longrightarrow> dispatch_step limit s (s\<lparr>ds_returned := True\<rparr>)"

inductive dispatch_run :: "int \<Rightarrow> dispatch_state \<Rightarrow> nat \<Rightarrow> dispatch_state \<Rightarrow> bool" for limit where
  dispatch_start: "dispatch_run limit s 0 s"
| dispatch_next: "dispatch_run limit s n t \<Longrightarrow> dispatch_step limit t u \<Longrightarrow> dispatch_run limit s (Suc n) u"

section \<open>The heartbeat\<close>

text \<open>
  One round of \<open>renewVisibility\<close>: whether the context ended the wait, the clock when the timer fired and
  when the remaining lease is computed, the answer of the renewal, whether the context is cancelled
  after it, and the clock then.
\<close>

record tick =
  tk_stopped :: bool
  tk_fired :: int
  tk_asked :: int
  tk_answer :: "go_error option"
  tk_cancelled :: bool
  tk_answered :: int

record renewal =
  rn_fired :: int
  rn_asked :: int
  rn_visibility :: int           \<comment> \<open>the \<open>VisibilityTimeout\<close> of the request, in seconds\<close>
  rn_call_timeout :: int
  rn_answer :: "go_error option"
  rn_answered :: int
  rn_delay :: "int option"       \<comment> \<open>what the timer is reset to\<close>

datatype heartbeat = Beating | Stopped | Expired

definition retry_delay :: "int \<Rightarrow> int" where
  "retry_delay configuredLease = min second (quotient (quotient configuredLease 2) 4)"

text \<open>The lease a renewal asks for, how long its call may take, and the wait after a failed one.\<close>

definition renewal_lease :: "int \<Rightarrow> int \<Rightarrow> int \<Rightarrow> int" where
  "renewal_lease configuredLease startedAt now =
     (let remainingLifetime = maxMessageVisibilityLifetime - (now - startedAt) - visibilityLifetimeMargin
      in min configuredLease (Truncate remainingLifetime second))"

definition call_timeout :: "int \<Rightarrow> int \<Rightarrow> int \<Rightarrow> int" where
  "call_timeout retryDelay leaseDeadline now =
     (let remainingLease = leaseDeadline - now;
          callTimeout = min maxVisibilityRenewCallTimeout (quotient remainingLease 2)
      in if callTimeout \<le> 0 then retryDelay else callTimeout)"

definition failure_delay :: "int \<Rightarrow> int \<Rightarrow> int \<Rightarrow> int" where
  "failure_delay retryDelay leaseDeadline now =
     (let remainingLease = leaseDeadline - now;
          delay = (if 0 < remainingLease then min retryDelay (quotient remainingLease 2) else retryDelay)
      in if delay \<le> 0 then retryDelay else delay)"

definition renew_call :: "int \<Rightarrow> int \<Rightarrow> int \<Rightarrow> tick \<Rightarrow> int option \<Rightarrow> renewal" where
  "renew_call retryDelay leaseDeadline renewalLease t delay =
     \<lparr>rn_fired = tk_fired t, rn_asked = tk_asked t, rn_visibility = int32_of (quotient renewalLease second),
      rn_call_timeout = call_timeout retryDelay leaseDeadline (tk_asked t),
      rn_answer = tk_answer t, rn_answered = tk_answered t, rn_delay = delay\<rparr>"

fun renew_loop :: "int \<Rightarrow> int \<Rightarrow> int \<Rightarrow> tick list \<Rightarrow> renewal list \<times> heartbeat" where
  "renew_loop configuredLease startedAt leaseDeadline [] = ([], Beating)"
| "renew_loop configuredLease startedAt leaseDeadline (t # ts) =
     (if tk_stopped t then ([], Stopped)
      else
        let retryDelay = retry_delay configuredLease;
            renewalLease = renewal_lease configuredLease startedAt (tk_fired t);
            call = renew_call retryDelay leaseDeadline renewalLease t in
        if renewalLease < second then ([], Expired)
        else if tk_cancelled t then ([call None], Stopped)
        else (case tk_answer t of
            None \<Rightarrow>
              (case renew_loop configuredLease startedAt (tk_answered t + renewalLease) ts of
                 (rs, ended) \<Rightarrow> (call (Some (quotient renewalLease 2)) # rs, ended))
          | Some err \<Rightarrow>
              (case renew_loop configuredLease startedAt leaseDeadline ts of
                 (rs, ended) \<Rightarrow> (call (Some (failure_delay retryDelay leaseDeadline (tk_answered t))) # rs, ended))))"

definition renewVisibility :: "source \<Rightarrow> int \<Rightarrow> tick list \<Rightarrow> renewal list \<times> heartbeat" where
  "renewVisibility s startedAt ticks =
     (let configuredLease = cf_visibility_timeout (sc_config s) * second in
      renew_loop configuredLease startedAt (startedAt + configuredLease) ticks)"


section \<open>What the configuration guarantees\<close>

definition valid_config :: "source_config \<Rightarrow> bool" where
  "valid_config c \<longleftrightarrow> cf_queue_url c \<noteq> [] \<and> cf_max_messages c \<in> {1..10} \<and> cf_visibility_timeout c \<in> {1..43200} \<and>
     cf_wait_time c \<in> {1..20} \<and> cf_concurrency c \<in> {1..10} \<and> 0 \<le> cf_poll_interval c"

lemma NewSource_valid: "NewSource api decoder cfg = Inr s \<Longrightarrow> valid_config (sc_config s)"
  by (auto simp: NewSource_def valid_config_def applyDefaults_def Let_def defaultMaxMessages_def
      defaultVisibilityTimeout_def defaultWaitTime_def defaultConcurrency_def split: option.splits if_splits)

lemma int32_of_small: "0 \<le> n \<Longrightarrow> n < 2 ^ 31 \<Longrightarrow> int32_of n = n"
  by (simp add: int32_of_def)

lemma receive_bounds:
  assumes "valid_config (sc_config s)"
  shows "ri_max_messages (receive s) \<in> {1..10} \<and> ri_max_messages (receive s) \<le> cf_concurrency (sc_config s)"
proof -
  have "int32_of (cf_concurrency (sc_config s)) = cf_concurrency (sc_config s)"
    using assms by (intro int32_of_small) (auto simp: valid_config_def)
  then show ?thesis using assms by (auto simp: receive_def valid_config_def Let_def)
qed

section \<open>What a poll hands over\<close>

fun received_by :: "run_action \<Rightarrow> sqs_message list" where
  "received_by (Dispatch messages) = messages"
| "received_by a = []"

definition answered_by :: "poll \<Rightarrow> sqs_message list" where
  "answered_by p = (case po_answer p of Inl err \<Rightarrow> [] | Inr messages \<Rightarrow> messages)"

definition is_receive :: "run_action \<Rightarrow> bool" where
  "is_receive a \<longleftrightarrow> (case a of Receive i \<Rightarrow> True | _ \<Rightarrow> False)"

lemma is_receive_simps [simp]: "is_receive (Receive i)" "\<not> is_receive (Dispatch ms)" "\<not> is_receive (Sleep d)"
  by (simp_all add: is_receive_def)

lemma run_loop_hands_over:
  "concat (map received_by (fst (run_loop s ps))) =
     concat (map answered_by (take (length (filter is_receive (fst (run_loop s ps)))) ps))"
  by (induction s ps rule: run_loop.induct)
    (auto simp: answered_by_def Let_def split: sum.splits prod.splits)

lemma run_loop_receives: "Receive i \<in> set (fst (run_loop s ps)) \<Longrightarrow> i = receive s"
  by (induction s ps rule: run_loop.induct) (auto simp: Let_def split: sum.splits prod.splits if_splits)

section \<open>What a heartbeat asks for\<close>

lemma quotient_pos [simp]: "0 \<le> a \<Longrightarrow> quotient a b = a div b"
  by (simp add: quotient_def)

lemma Truncate_le: "second \<le> Truncate d second \<Longrightarrow> 0 \<le> d \<and> Truncate d second \<le> d"
  by (auto simp: Truncate_def quotient_def second_def split: if_splits)

lemma retry_delay_bounds: "second \<le> lease \<Longrightarrow> 0 < retry_delay lease \<and> retry_delay lease \<le> second"
  by (simp add: retry_delay_def second_def)

definition renewal_ok :: "int \<Rightarrow> int \<Rightarrow> renewal \<Rightarrow> bool" where
  "renewal_ok visibility startedAt r \<longleftrightarrow>
     1 \<le> rn_visibility r \<and> rn_visibility r \<le> visibility \<and>
     rn_fired r - startedAt + rn_visibility r * second + visibilityLifetimeMargin \<le> maxMessageVisibilityLifetime \<and>
     0 < rn_call_timeout r \<and> rn_call_timeout r \<le> maxVisibilityRenewCallTimeout \<and>
     (case rn_delay r of None \<Rightarrow> True | Some d \<Rightarrow> 0 < d)"

lemma renewal_lease_bounds:
  assumes "second \<le> renewal_lease lease startedAt now"
  shows "renewal_lease lease startedAt now \<le> lease"
    and "now - startedAt + renewal_lease lease startedAt now + visibilityLifetimeMargin \<le> maxMessageVisibilityLifetime"
proof -
  let ?remaining = "maxMessageVisibilityLifetime - (now - startedAt) - visibilityLifetimeMargin"
  have lease: "renewal_lease lease startedAt now = min lease (Truncate ?remaining second)"
    by (simp add: renewal_lease_def)
  then show "renewal_lease lease startedAt now \<le> lease" by simp
  have "Truncate ?remaining second \<le> ?remaining" using assms Truncate_le [of ?remaining] unfolding lease by simp
  then show "now - startedAt + renewal_lease lease startedAt now + visibilityLifetimeMargin \<le> maxMessageVisibilityLifetime"
    unfolding lease by simp
qed

lemma call_timeout_bounds:
  "0 < retryDelay \<Longrightarrow> retryDelay \<le> second \<Longrightarrow>
     0 < call_timeout retryDelay deadline now \<and> call_timeout retryDelay deadline now \<le> maxVisibilityRenewCallTimeout"
  by (auto simp: call_timeout_def Let_def maxVisibilityRenewCallTimeout_def second_def)

lemma failure_delay_pos: "0 < retryDelay \<Longrightarrow> 0 < failure_delay retryDelay deadline now"
  by (auto simp: failure_delay_def Let_def)

lemma renew_call_ok:
  assumes visibility: "1 \<le> visibility" "visibility \<le> 43200"
    and lease: "second \<le> renewal_lease (visibility * second) startedAt (tk_fired t)"
    and delay: "case delay of None \<Rightarrow> True | Some d \<Rightarrow> 0 < d"
  shows "renewal_ok visibility startedAt (renew_call (retry_delay (visibility * second)) deadline
    (renewal_lease (visibility * second) startedAt (tk_fired t)) t delay)"
proof -
  let ?l = "renewal_lease (visibility * second) startedAt (tk_fired t)"
  note bounds = renewal_lease_bounds [OF lease]
  have retry: "0 < retry_delay (visibility * second) \<and> retry_delay (visibility * second) \<le> second"
    using visibility by (intro retry_delay_bounds) (simp add: second_def)
  have secs: "1 \<le> ?l div second" "?l div second \<le> visibility" "?l div second * second \<le> ?l"
    using lease bounds(1) by (auto simp: second_def)
  then have "int32_of (quotient ?l second) = ?l div second"
    using lease visibility by (subst quotient_pos) (auto simp: second_def intro!: int32_of_small)
  then show ?thesis
    using secs bounds(2) delay call_timeout_bounds retry by (simp add: renewal_ok_def renew_call_def)
qed

lemma renew_loop_ok:
  assumes "1 \<le> visibility" "visibility \<le> 43200"
  shows "list_all (renewal_ok visibility startedAt) (fst (renew_loop (visibility * second) startedAt deadline ts))"
proof (induction ts arbitrary: deadline)
  case (Cons t ts)
  let ?L = "visibility * second"
  let ?l = "renewal_lease ?L startedAt (tk_fired t)"
  show ?case
  proof (cases "tk_stopped t \<or> ?l < second")
    case True
    then show ?thesis by (auto simp: Let_def)
  next
    case False
    then have lease: "second \<le> ?l" by simp
    have "0 < retry_delay ?L" using assms retry_delay_bounds [of ?L] by (simp add: second_def)
    then have "0 < failure_delay (retry_delay ?L) deadline (tk_answered t)" by (rule failure_delay_pos)
    moreover have "0 < quotient ?l 2" using lease by (simp add: second_def)
    ultimately show ?thesis
      using False renew_call_ok [OF assms lease] Cons.IH by (simp add: Let_def case_prod_beta split: option.splits)
  qed
qed simp

lemma renew_loop_beating:
  assumes "snd (renew_loop lease startedAt deadline ts) = Beating"
  shows "\<forall>t\<in>set ts. tk_fired t - startedAt < maxMessageVisibilityLifetime"
  using assms
proof (induction ts arbitrary: deadline)
  case (Cons t ts)
  let ?l = "renewal_lease lease startedAt (tk_fired t)"
  from Cons.prems have "second \<le> ?l" by (auto simp: Let_def split: if_splits)
  then have "tk_fired t - startedAt < maxMessageVisibilityLifetime"
    using renewal_lease_bounds(2) [of lease startedAt "tk_fired t"] by (simp add: second_def visibilityLifetimeMargin_def)
  moreover have "\<exists>deadline. snd (renew_loop lease startedAt deadline ts) = Beating"
    using Cons.prems by (auto simp: Let_def case_prod_beta split: if_splits option.splits)
  ultimately show ?case using Cons.IH by auto
qed simp

section \<open>The lease of a message\<close>

text \<open>
  The abstract view of SQS: a renewal that is processed at a time hides the message for its visibility
  from then on, and comes too late when the message was visible before. The message was received at
  the latest when the handler starts.
\<close>

fun stays_hidden :: "int \<Rightarrow> (renewal \<times> int) list \<Rightarrow> bool" where
  "stays_hidden hidden_until [] = True"
| "stays_hidden hidden_until ((r, processed) # rs) =
     (processed \<le> hidden_until \<and> stays_hidden (processed + rn_visibility r * second) rs)"

text \<open>
  A timely world: the timer fires when it is due or at most \<open>late\<close> after it, a renewal is processed
  before its call times out, and its answer arrives at most \<open>lag\<close> after that.
\<close>

fun timely :: "int \<Rightarrow> int \<Rightarrow> int \<Rightarrow> (renewal \<times> int) list \<Rightarrow> bool" where
  "timely late lag due [] = True"
| "timely late lag due ((r, processed) # rs) =
     (due \<le> rn_fired r \<and> rn_fired r \<le> rn_asked r \<and> rn_asked r \<le> due + late \<and>
      rn_asked r \<le> processed \<and> processed \<le> rn_asked r + rn_call_timeout r \<and>
      processed \<le> rn_answered r \<and> rn_answered r \<le> processed + lag \<and> rn_answer r = None \<and>
      (case rn_delay r of None \<Rightarrow> rs = [] | Some delay \<Rightarrow> timely late lag (rn_answered r + delay) rs))"

lemma renew_loop_hidden:
  assumes visibility: "1 \<le> visibility" "visibility \<le> 43200"
    and slack: "0 \<le> late" "0 \<le> lag" "4 * (late + lag) \<le> visibility * second"
  shows "timely late lag (deadline - visibility * second div 2) (zip (fst (renew_loop (visibility * second) startedAt deadline ts)) ps) \<Longrightarrow>
    list_all (\<lambda>r. rn_visibility r = visibility) (fst (renew_loop (visibility * second) startedAt deadline ts)) \<Longrightarrow>
    deadline - lag \<le> hidden_until \<Longrightarrow>
    stays_hidden hidden_until (zip (fst (renew_loop (visibility * second) startedAt deadline ts)) ps)"
proof (induction ts arbitrary: deadline ps hidden_until)
  case (Cons t ts)
  let ?L = "visibility * second"
  let ?l = "renewal_lease ?L startedAt (tk_fired t)"
  show ?case
  proof (cases "ps = [] \<or> tk_stopped t \<or> ?l < second")
    case True
    then show ?thesis by (cases ps) (auto simp: Let_def)
  next
    case False
    then obtain p qs where ps: "ps = p # qs" by (cases ps) auto
    have lease: "second \<le> ?l" using False by simp
    let ?r = "renew_call (retry_delay ?L) deadline ?l t"
    have "\<exists>rest delay. fst (renew_loop ?L startedAt deadline (t # ts)) = ?r delay # rest"
      using False by (auto simp: Let_def case_prod_beta split: option.splits)
    then obtain rest delay where out: "fst (renew_loop ?L startedAt deadline (t # ts)) = ?r delay # rest" by blast
    have now: "deadline - ?L div 2 \<le> tk_asked t" "tk_asked t \<le> deadline - ?L div 2 + late" "p \<le> tk_asked t + rn_call_timeout (?r delay)"
      "p \<le> tk_answered t" "tk_answered t \<le> p + lag" "tk_answer t = None"
      using Cons.prems(1) unfolding out ps by (simp_all add: renew_call_def)
    have half: "?L div 2 * 2 = ?L" by (simp add: second_def)
    have remaining: "2 * (deadline - tk_asked t) \<ge> ?L - 2 * late" using now(2) half by simp
    then have "2 \<le> deadline - tk_asked t" using slack visibility by (simp add: second_def)
    then have "0 < (deadline - tk_asked t) div 2" by simp
    then have "rn_call_timeout (?r delay) \<le> (deadline - tk_asked t) div 2"
      by (simp add: renew_call_def call_timeout_def Let_def maxVisibilityRenewCallTimeout_def second_def min_def)
    then have "2 * p \<le> tk_asked t + deadline" using now(3) by simp
    then have "4 * p \<le> 4 * deadline - ?L + 2 * late" using now(2) half by simp
    then have in_time: "p \<le> hidden_until" using slack Cons.prems(3) by simp
    show ?thesis
    proof (cases "tk_cancelled t")
      case True
      then show ?thesis using False now(6) in_time ps by (simp add: Let_def)
    next
      case going: False
      have l: "int32_of (?l div second) = visibility" "?l \<le> ?L"
        using Cons.prems(2) renewal_lease_bounds(1) [OF lease] lease unfolding out by (simp_all add: renew_call_def second_def)
      have "int32_of (?l div second) = ?l div second"
        using lease l(2) visibility by (intro int32_of_small) (auto simp: second_def)
      with l have full: "?l = ?L" by (simp add: second_def)
      let ?d = "tk_answered t + ?L"
      let ?rest = "fst (renew_loop ?L startedAt ?d ts)"
      have step: "fst (renew_loop ?L startedAt deadline (t # ts)) = ?r (Some (?L div 2)) # ?rest"
        using False going now(6) full by (simp add: Let_def case_prod_beta second_def)
      have due: "?d - ?L div 2 = tk_answered t + ?L div 2" using half by simp
      have "timely late lag (?d - ?L div 2) (zip ?rest qs)"
        using Cons.prems(1) unfolding step ps due by (simp add: renew_call_def)
      moreover have "list_all (\<lambda>r. rn_visibility r = visibility) ?rest" using Cons.prems(2) unfolding step by simp
      moreover have "?d - lag \<le> p + ?L" using now(5) by simp
      ultimately have "stays_hidden (p + ?L) (zip ?rest qs)" by (rule Cons.IH)
      moreover have "rn_visibility (?r (Some (?L div 2))) = visibility" using Cons.prems(2) unfolding step by simp
      ultimately show ?thesis using in_time unfolding step ps by simp
    qed
  qed
qed simp

section \<open>A batch ends\<close>

definition dispatch_inv :: "int \<Rightarrow> sqs_message list \<Rightarrow> nat \<Rightarrow> dispatch_state \<Rightarrow> bool" where
  "dispatch_inv limit messages n s \<longleftrightarrow>
     int (length (ds_active s)) \<le> limit \<and>
     mset (ds_waiting s) + mset (ds_active s) + mset (ds_processed s) = mset messages \<and>
     n + 2 * length (ds_waiting s) + length (ds_active s) + of_bool (\<not> ds_returned s) = 2 * length messages + 1 \<and>
     (if ds_returned s then ds_waiting s = [] \<and> ds_active s = [] else True)"

lemma dispatch_step_inv: "dispatch_step limit s t \<Longrightarrow> dispatch_inv limit messages n s \<Longrightarrow> dispatch_inv limit messages (Suc n) t"
  by (induction rule: dispatch_step.induct) (auto simp: dispatch_inv_def split: if_splits)

lemma dispatch_run_inv: "dispatch_run limit s n t \<Longrightarrow> dispatch_inv limit messages 0 s \<Longrightarrow> dispatch_inv limit messages n t"
  by (induction rule: dispatch_run.induct) (auto intro: dispatch_step_inv)

lemma dispatch_start_inv: "0 \<le> limit \<Longrightarrow> dispatch_inv limit messages 0 (dispatch messages)"
  by (simp add: dispatch_inv_def dispatch_def)

lemma dispatch_progress: "1 \<le> limit \<Longrightarrow> \<not> ds_returned s \<Longrightarrow> \<exists>t. dispatch_step limit s t"
proof (cases "ds_active s")
  case Nil
  moreover assume "1 \<le> limit" "\<not> ds_returned s"
  ultimately show ?thesis
    using dispatch_step.wait [of s limit] dispatch_step.go [of s _ _ limit] by (cases "ds_waiting s") fastforce+
next
  case (Cons m ms)
  then have "ds_active s = [] @ m # ms" by simp
  then show ?thesis by (blast intro: dispatch_step.finish)
qed

text \<open>A batch that is no longer than the limit never waits for a slot: every message starts at once.\<close>

lemma dispatch_never_blocks:
  assumes "dispatch_run limit (dispatch messages) n s" "int (length messages) \<le> limit" "ds_waiting s \<noteq> []"
  shows "int (length (ds_active s)) < limit"
proof -
  have "mset (ds_waiting s) + mset (ds_active s) + mset (ds_processed s) = mset messages"
    using dispatch_run_inv [OF assms(1) dispatch_start_inv] assms(2) by (simp add: dispatch_inv_def)
  then have "length (ds_waiting s) + length (ds_active s) + length (ds_processed s) = length messages"
    by (metis size_mset size_union)
  moreover have "0 < length (ds_waiting s)" using assms(3) by simp
  ultimately show ?thesis using assms(2) by linarith
qed

section \<open>What a handler promises\<close>

text \<open>
  The contract between the source and the handler of the events: a handler marks its error exactly when
  something it ran into asks for the event to come back. Under it, the source keeps a message in the
  queue exactly for these.
\<close>

locale retry_contract =
  fixes handle :: "'w event_handler" and comes_back :: "'w \<Rightarrow> 'w \<Rightarrow> bool"
  assumes marks_retry: "IsRetryable (fst (handle event w)) = comes_back w (snd (handle event w))"
    and nothing_done: "\<not> comes_back w w"
begin

lemma deletes_settled:
  assumes "process s handle message w = (actions, w')"
  shows "(\<exists>q answer. DeleteMessage q (aws_ToString (sm_receipt_handle message)) answer \<in> set actions) =
    (aws_ToString (sm_receipt_handle message) \<noteq> [] \<and> \<not> comes_back w w')"
proof (cases "sc_decoder s (aws_ToString (sm_body message))")
  case (Inl err)
  with assms nothing_done show ?thesis
    by (auto simp: process_def startVisibilityHeartbeat_def acknowledge_def Let_def split: if_splits)
next
  case (Inr event)
  obtain err w1 where one: "handle event w = (err, w1)" by fastforce
  have "IsRetryable err = comes_back w w1" using marks_retry [of event w] one by simp
  with assms Inr one show ?thesis
    by (auto simp: process_def startVisibilityHeartbeat_def acknowledge_def Let_def split: if_splits)
qed

lemma heartbeat_encloses:
  assumes "process s handle message w = (actions, w')" "aws_ToString (sm_receipt_handle message) \<noteq> []"
  shows "\<exists>inner. actions = StartHeartbeat (aws_ToString (sm_receipt_handle message)) # inner @
    [StopHeartbeat (aws_ToString (sm_receipt_handle message))]"
  using assms by (auto simp: process_def startVisibilityHeartbeat_def Let_def split: sum.splits prod.splits)

end

section \<open>Properties\<close>

text \<open>
  C14. A renewal never asks for more than SQS allows: whatever the clock and the answers are, each asks
  for one second up to the configured visibility, ends a second before the twelve hours a message can be
  hidden, has a call timeout that is positive and at most five seconds, and is followed by a positive
  wait, so that the heartbeat never spins.
\<close>
theorem renewVisibility_bounds:
  assumes "NewSource api decoder cfg = Inr s"
  shows "list_all (renewal_ok (cf_visibility_timeout (sc_config s)) startedAt) (fst (renewVisibility s startedAt ticks))"
  using NewSource_valid [OF assms] renew_loop_ok by (auto simp: valid_config_def renewVisibility_def Let_def)

text \<open>
  The heartbeat ends: even when its handler never does, the timer fires at later and later times, so
  after at most the lifetime of a message in rounds the heartbeat has returned.
\<close>
lemma renewVisibility_ends:
  assumes "sorted_wrt (<) (startedAt # map tk_fired ticks)" and "nat maxMessageVisibilityLifetime \<le> length ticks"
  shows "snd (renewVisibility s startedAt ticks) \<noteq> Beating"
proof
  assume "snd (renewVisibility s startedAt ticks) = Beating"
  then have "\<forall>t\<in>set ticks. tk_fired t - startedAt < maxMessageVisibilityLifetime"
    using renew_loop_beating by (auto simp: renewVisibility_def Let_def)
  then have "set (map tk_fired ticks) \<subseteq> {startedAt<..<startedAt + maxMessageVisibilityLifetime}"
    using assms(1) by (auto simp: algebra_simps)
  then have "card (set (map tk_fired ticks)) \<le> nat (maxMessageVisibilityLifetime - 1)"
    using card_mono [of "{startedAt<..<startedAt + maxMessageVisibilityLifetime}"] by simp
  moreover have "distinct (map tk_fired ticks)"
    using assms(1) strict_sorted_iff [of "map tk_fired ticks"] by simp
  ultimately show False
    using assms(2) distinct_card [of "map tk_fired ticks"] by (simp add: maxMessageVisibilityLifetime_def second_def)
qed


text \<open>
  C15. A batch is handled completely: with a positive limit, at most that many messages are handled at
  once, no message is lost or handled twice, the loop and the wait are never stuck, and after twice as
  many steps as there are messages dispatch returns, when every message was processed.
\<close>
theorem dispatch_complete:
  assumes "1 \<le> limit" and "dispatch_run limit (dispatch messages) n s"
  shows "int (length (ds_active s)) \<le> limit \<and>
    mset (ds_waiting s) + mset (ds_active s) + mset (ds_processed s) = mset messages \<and>
    n + 2 * length (ds_waiting s) + length (ds_active s) + of_bool (\<not> ds_returned s) = 2 * length messages + 1 \<and>
    (if ds_returned s then mset (ds_processed s) = mset messages else (\<exists>t. dispatch_step limit s t))"
proof -
  have "dispatch_inv limit messages n s"
    using dispatch_run_inv [OF assms(2) dispatch_start_inv] assms(1) by simp
  then show ?thesis using dispatch_progress [OF assms(1), of s] by (auto simp: dispatch_inv_def)
qed

section \<open>A source to evaluate\<close>

definition sample_api :: sqs_api where
  "sample_api = \<lparr>api_delete = (\<lambda>queue receipt. None)\<rparr>"

definition sample_config :: source_config where
  "sample_config = \<lparr>cf_queue_url = ''q'', cf_max_messages = 0, cf_visibility_timeout = 20, cf_wait_time = 0,
     cf_concurrency = 2, cf_poll_interval = 0\<rparr>"

definition sample_source :: source where
  "sample_source = \<lparr>sc_api = sample_api, sc_decoder = (\<lambda>s. Inl (ErrorsNew s)), sc_config = applyDefaults sample_config\<rparr>"

lemma sample_built: "NewSource (Some sample_api) (Some (\<lambda>s. Inl (ErrorsNew s))) sample_config = Inr sample_source"
  by (simp add: NewSource_def sample_source_def sample_config_def applyDefaults_def Let_def defaultMaxMessages_def
      defaultWaitTime_def)

lemma sample_visibility: "cf_visibility_timeout (sc_config sample_source) = 20"
  by (simp add: sample_source_def sample_config_def applyDefaults_def)

text \<open>A renewal that is answered a tenth of a second after the timer fired.\<close>

definition renewed_at :: "int \<Rightarrow> tick" where
  "renewed_at now = \<lparr>tk_stopped = False, tk_fired = now, tk_asked = now, tk_answer = None, tk_cancelled = False,
     tk_answered = now + 100000000\<rparr>"

definition sample_ticks :: "tick list" where
  "sample_ticks = [renewed_at (10 * second), renewed_at (20 * second + 100000000)]"

lemma sample_renewals:
  "fst (renewVisibility sample_source 0 sample_ticks) =
     [\<lparr>rn_fired = 10 * second, rn_asked = 10 * second, rn_visibility = 20, rn_call_timeout = 5 * second,
        rn_answer = None, rn_answered = 10 * second + 100000000, rn_delay = Some (10 * second)\<rparr>,
      \<lparr>rn_fired = 20 * second + 100000000, rn_asked = 20 * second + 100000000, rn_visibility = 20, rn_call_timeout = 5 * second,
        rn_answer = None, rn_answered = 20 * second + 200000000, rn_delay = Some (10 * second)\<rparr>]"
  by (simp add: renewVisibility_def sample_visibility sample_ticks_def renewed_at_def renewal_lease_def renew_call_def
      call_timeout_def Truncate_def second_def maxMessageVisibilityLifetime_def visibilityLifetimeMargin_def
      maxVisibilityRenewCallTimeout_def int32_of_def Let_def)

theorem renewVisibility_bounds_witness:
  "rn_visibility (hd (fst (renewVisibility sample_source 0 sample_ticks))) = 20 \<and>
   list_all (renewal_ok 20 0) (fst (renewVisibility sample_source 0 sample_ticks))"
  using renewVisibility_bounds [OF sample_built, of 0 sample_ticks] by (simp add: sample_visibility sample_renewals)

lemma renewVisibility_ends_witness:
  "snd (renewVisibility sample_source 0 (map (\<lambda>i. renewed_at (int i + 1)) [0..<nat maxMessageVisibilityLifetime])) \<noteq> Beating"
proof (rule renewVisibility_ends)
  let ?is = "[0..<nat maxMessageVisibilityLifetime]"
  have "sorted_wrt (\<lambda>x y. int x + 1 < int y + 1) ?is" by (rule sorted_wrt_mono_rel [OF _ sorted_wrt_upt]) simp
  then show "sorted_wrt (<) (0 # map tk_fired (map (\<lambda>i. renewed_at (int i + 1)) ?is))"
    by (auto simp: renewed_at_def sorted_wrt_map comp_def simp del: upt.simps)
qed simp


definition sample_message :: "string \<Rightarrow> sqs_message" where
  "sample_message body = \<lparr>sm_id = None, sm_receipt_handle = Some ''h'', sm_body = Some body\<rparr>"

theorem dispatch_complete_witness:
  "\<exists>t. dispatch_step 2 (dispatch [sample_message ''a'', sample_message ''b'']) t"
  using dispatch_complete [of 2 "[sample_message ''a'', sample_message ''b'']" 0 "dispatch [sample_message ''a'', sample_message ''b'']"]
    dispatch_start by (simp add: dispatch_def)

end
