(* ===== verification/Worker.thy ===== *)
theory Worker
  imports Delivery Sqs_Source
begin

text \<open>
  \<open>internal/application/updater/worker.go\<close> binds an event source to the handler of the events, and is
  where the queue and the update service meet: the service keeps the contract the source relies on, so
  what is deleted from the queue is decided by the answers the ports gave.
\<close>

section \<open>The worker\<close>

text \<open>\<open>EventSource\<close>: its name, and \<open>Run\<close> on a handler with what the source observes.\<close>

record 'w event_source =
  es_name :: string
  es_run :: "'w event_handler option \<Rightarrow> poll list \<Rightarrow> go_error option \<times> run_action list \<times> bool"

definition SourceName :: "source \<Rightarrow> string" where
  "SourceName s = ''sqs''"

definition sqs_event_source :: "source \<Rightarrow> 'w event_source" where
  "sqs_event_source s = \<lparr>es_name = SourceName s, es_run = Run s\<rparr>"

record 'w worker =
  wk_source :: "'w event_source"
  wk_handler :: "'w event_handler"

definition NewWorker :: "'w event_source option \<Rightarrow> 'w event_handler option \<Rightarrow> (go_error, 'w worker) result" where
  "NewWorker src handler =
     (case src of
        None \<Rightarrow> Inl (ErrorsNew ''updater: event source is nil'')
      | Some s \<Rightarrow> (case handler of
          None \<Rightarrow> Inl (ErrorsNew ''updater: event handler is nil'')
        | Some h \<Rightarrow> Inr \<lparr>wk_source = s, wk_handler = h\<rparr>))"

definition WorkerName :: "'w worker \<Rightarrow> string" where
  "WorkerName w = ''image-updater/'' @ es_name (wk_source w)"

definition WorkerRun :: "'w worker \<Rightarrow> poll list \<Rightarrow> go_error option \<times> run_action list \<times> bool" where
  "WorkerRun w ps = es_run (wk_source w) (Some (wk_handler w)) ps"

definition WorkerShutdown :: "'w worker \<Rightarrow> go_error option" where
  "WorkerShutdown w = None"

text \<open>A worker on the queue never reports an error, and nothing it receives is left undispatched.\<close>

lemma sqs_worker_runs:
  assumes "NewWorker (Some (sqs_event_source s)) (Some handler) = Inr w" "WorkerRun w ps = (err, actions, returned)"
  shows "err = None \<and> concat (map received_by actions) = concat (map answered_by (take (length (filter is_receive actions)) ps))"
  using assms run_loop_hands_over [of s ps] by (auto simp: NewWorker_def WorkerRun_def sqs_event_source_def Run_def)

section \<open>The service as the handler of the queue\<close>

definition asks_again :: "history \<Rightarrow> history \<Rightarrow> bool" where
  "asks_again h h' \<longleftrightarrow> list_ex retry_action (drop (length h) h')"

interpretation service_handler: retry_contract "Handle rt s" asks_again for rt s
proof
  show "IsRetryable (fst (Handle rt s event h)) = asks_again h (snd (Handle rt s event h))" for event h
    using Handle_answer [of rt s event h] by (cases "Handle rt s event h") (auto simp: asks_again_def)
qed (simp add: asks_again_def)

text \<open>
  C10. No event is lost: a message is deleted from the queue exactly when none of the calls made for it
  gave an answer that asks for a retry. A message that cannot be decoded, that matches no rule, or whose
  update is refused for good is deleted; any other failure leaves it to be delivered again.
\<close>
theorem message_settled:
  "case process src (Handle rt s) message h of (actions, h') \<Rightarrow>
     (\<exists>q answer. DeleteMessage q (aws_ToString (sm_receipt_handle message)) answer \<in> set actions) =
     (aws_ToString (sm_receipt_handle message) \<noteq> [] \<and> \<not> list_ex retry_action (drop (length h) h'))"
  by (cases "process src (Handle rt s) message h")
    (simp add: service_handler.deletes_settled asks_again_def)

end
