(* ===== verification/Trace.thy ===== *)
theory Trace
  imports Delivery
begin

text \<open>
  The history of the service tells the truth: each call stands in it with the answer the port gave at that
  point. With the protocol this says where the arguments of a call come from; here, that a directory is
  patched only if the resolver returned it for the working copy it lies in.
\<close>

section \<open>Genuine histories\<close>

fun answered :: "service \<Rightarrow> history \<Rightarrow> action \<Rightarrow> bool" where
  "answered s h (ResolveMetadata ref answer) = (case sv_resolver s of None \<Rightarrow> False | Some resolver \<Rightarrow> answer = resolver h ref)"
| "answered s h (FindOpen owner repo head answer) = (answer = gh_find_open (sv_manifests s) h owner repo head)"
| "answered s h (Checkout url answer) = (answer = gh_checkout (sv_manifests s) h url)"
| "answered s h (ResolveDirs root pat answer) = (answer = sv_directories s h root pat)"
| "answered s h (CreateBranch branch answer) = (answer = gh_create_branch (sv_manifests s) h branch)"
| "answered s h (PatchDir dir u answer) = (answer = sv_patcher s h dir u)"
| "answered s h (Commit message answer) = (answer = gh_commit (sv_manifests s) h message)"
| "answered s h (Push branch answer) = (answer = gh_push (sv_manifests s) h branch)"
| "answered s h (CreatePullRequest pr answer) = (answer = gh_create_pull_request (sv_manifests s) h pr)"
| "answered s h (CloseCheckout answer) = (answer = gh_close (sv_manifests s) h)"

inductive genuine :: "service \<Rightarrow> history \<Rightarrow> history \<Rightarrow> bool" for s h where
  genuine_refl [intro!]: "genuine s h h"
| genuine_call: "genuine s h h1 \<Longrightarrow> answered s h1 a \<Longrightarrow> genuine s h (h1 @ [a])"

lemma genuine_one: "answered s h a \<Longrightarrow> genuine s h (h @ [a])"
  by (rule genuine_call) auto

lemma genuine_trans: "genuine s h1 h2 \<Longrightarrow> genuine s h h1 \<Longrightarrow> genuine s h h2"
  by (induction rule: genuine.induct) (auto intro: genuine_call)

lemma genuine_then: "genuine s (h @ [a]) h' \<Longrightarrow> answered s h a \<Longrightarrow> genuine s h h'"
  using genuine_trans genuine_one by blast

lemma genuine_answered: "genuine s h h' \<Longrightarrow> a \<in> set h' \<Longrightarrow> a \<in> set h \<or> (\<exists>n. answered s (take n h') a)"
proof (induction rule: genuine.induct)
  case (genuine_call h1 b)
  show ?case
  proof (cases "a = b")
    case True
    then have "answered s (take (length h1) (h1 @ [b])) a" using genuine_call.hyps by simp
    then show ?thesis by blast
  next
    case False
    then consider "a \<in> set h" | n where "answered s (take n h1) a" using genuine_call by auto
    then show ?thesis
    proof cases
      case (2 n)
      have "take n h1 = take (min n (length h1)) (h1 @ [b])" by (simp add: min_def)
      with 2 show ?thesis by metis
    qed simp
  qed
qed simp

section \<open>The operations\<close>

lemma find_open_genuine: "genuine s h (snd (find_open_loop (sv_manifests s) t bs h))"
proof (induction bs arbitrary: h)
  case (Cons b bs)
  show ?case
    by (auto simp: Let_def genuine_one intro!: genuine_then [OF Cons.IH] split: sum.split)
qed auto

lemma search_genuine: "genuine s h (snd (ensureNoOpenPullRequest s t h))"
  by (simp add: ensureNoOpenPullRequest_def find_open_genuine)

lemma resolve_loop_genuine: "genuine s h (snd (resolve_loop s root resolved sources h))"
proof (induction sources arbitrary: resolved h)
  case (Cons x sources)
  show ?case
    by (auto simp: Let_def genuine_one intro!: genuine_then [OF Cons.IH] split: sum.split)
qed auto

lemma resolve_genuine: "genuine s h (snd (resolveManifestTargets s root t h))"
  using resolve_loop_genuine [of s h root "[]" "rp_targets t"] by (simp add: resolveManifestTargets_def case_prod_beta split: sum.split)

lemma patch_loop_genuine: "genuine s h (snd (patch_loop s root event labels changed manifests h))"
proof (induction manifests arbitrary: changed h)
  case (Cons x manifests)
  show ?case
    by (auto simp: Let_def genuine_one intro!: genuine_then [OF Cons.IH] split: option.split)
qed auto

lemma create_genuine: "genuine s h (snd (create_pull_request s t labels messages h))"
  by (auto simp: create_pull_request_def Let_def genuine_one split: sum.split)

lemma push_genuine: "genuine s h (snd (push_and_open s t labels messages h))"
proof -
  let ?a = "Push (rp_branch t) (gh_push (sv_manifests s) h (rp_branch t))"
  have one: "answered s h ?a" by simp
  have searched: "genuine s h (snd (ensureNoOpenPullRequest s t (h @ [?a])))" by (rule genuine_then [OF search_genuine one])
  have "genuine s h (snd (create_pull_request s t labels messages (snd (ensureNoOpenPullRequest s t (h @ [?a])))))"
    by (rule genuine_trans [OF create_genuine searched])
  with searched show ?thesis
    using genuine_one [OF one] genuine_then [OF create_genuine one, of t labels messages]
    by (auto simp: push_and_open_def Let_def split: option.split prod.split)
qed

lemma commit_genuine: "genuine s h (snd (commit_and_push s t labels messages h))"
  by (auto simp: commit_and_push_def Let_def genuine_one intro!: genuine_then [OF push_genuine] split: option.split)

lemma in_checkout_genuine: "genuine s h (snd (in_checkout s t labels messages root h))"
proof -
  obtain resolved h1 where resolved: "resolveManifestTargets s root t h = (resolved, h1)" by fastforce
  then have g1: "genuine s h h1" using resolve_genuine [of s h root t] by simp
  show ?thesis
  proof (cases resolved)
    case (Inl err)
    with resolved g1 show ?thesis by (simp add: in_checkout_def)
  next
    case (Inr manifests)
    let ?a = "CreateBranch (rp_branch t) (gh_create_branch (sv_manifests s) h1 (rp_branch t))"
    have g2: "genuine s h (h1 @ [?a])" using g1 by (rule genuine_call) simp
    obtain patched h3 where patched: "patch_loop s root (rp_event t) labels False manifests (h1 @ [?a]) = (patched, h3)" by fastforce
    then have g3: "genuine s h h3" using genuine_trans [OF patch_loop_genuine g2] by (metis snd_conv)
    then have "genuine s h (snd (commit_and_push s t labels messages h3))" by (rule genuine_trans [OF commit_genuine])
    with resolved Inr g2 g3 patched show ?thesis
      by (auto simp: in_checkout_def Let_def split: option.split sum.split)
  qed
qed

lemma applyRepository_genuine: "genuine s h (snd (applyRepository s t labels messages h))"
proof -
  obtain searched h1 where searched: "ensureNoOpenPullRequest s t h = (searched, h1)" by fastforce
  then have g1: "genuine s h h1" using search_genuine [of s h t] by simp
  let ?url = "ml_repository_url (rp_location t)"
  let ?a = "Checkout ?url (gh_checkout (sv_manifests s) h1 ?url)"
  have g2: "genuine s h (h1 @ [?a])" using g1 by (rule genuine_call) simp
  have "genuine s h (snd (in_checkout s t labels messages root (h1 @ [?a])))" for root
    by (rule genuine_trans [OF in_checkout_genuine g2])
  then have "genuine s h (h3 @ [CloseCheckout (gh_close (sv_manifests s) h3)])"
    if "in_checkout s t labels messages root (h1 @ [?a]) = (err, h3)" for root err h3
    using that by (intro genuine_call) (metis snd_conv, simp)
  with searched g1 g2 show ?thesis
    by (auto simp: applyRepository_def Let_def split: option.split sum.split prod.split)
qed

lemma apply_loop_genuine: "genuine s h (snd (apply_loop s labels ps h))"
proof (induction ps arbitrary: h)
  case (Cons p ps)
  from Cons.IH applyRepository_genuine have "genuine s h (snd (apply_loop s labels ps (snd (applyRepository s (fst p) labels (snd p) h))))"
    by (rule genuine_trans)
  then show ?case by (cases p) (simp add: case_prod_beta)
qed auto

lemma labels_genuine: "genuine s h (snd (imageLabels rt s event h))"
  by (auto simp: imageLabels_def Let_def genuine_one split: option.split sum.split)

lemma Handle_genuine: "genuine s h (snd (Handle rt s event h))"
  using labels_genuine [of s h rt] genuine_trans [OF apply_loop_genuine labels_genuine]
  by (auto simp: Handle_def apply_plan_def case_prod_beta split: sum.split)

lemma deliveries_genuine: "genuine s h (deliveries rt s events h)"
  by (induction rt s events h rule: deliveries.induct) (auto intro: genuine_trans [OF _ Handle_genuine])

section \<open>Where a patched directory comes from\<close>

text \<open>The directory was returned by the resolver for a working copy that was checked out.\<close>

definition resolved_in :: "history \<Rightarrow> string \<Rightarrow> string \<Rightarrow> bool" where
  "resolved_in h root d \<longleftrightarrow> (\<exists>url. Checkout url (Inr root) \<in> set h) \<and> (\<exists>pat ds. ResolveDirs root pat (Inr ds) \<in> set h \<and> d \<in> set ds)"

definition patches_resolved :: "history \<Rightarrow> bool" where
  "patches_resolved h \<longleftrightarrow> (\<forall>dir u answer. PatchDir dir u answer \<in> set h \<longrightarrow> (\<exists>root d. dir = path_join [root, d] \<and> resolved_in h root d))"

lemma resolved_in_mono: "set h \<subseteq> set h' \<Longrightarrow> resolved_in h root d \<Longrightarrow> resolved_in h' root d"
  by (auto simp: resolved_in_def)

lemma patches_resolved_append: "patches_resolved h \<Longrightarrow> patches_resolved tr \<Longrightarrow> patches_resolved (h @ tr)"
  using resolved_in_mono [of h "h @ tr"] resolved_in_mono [of tr "h @ tr"] unfolding patches_resolved_def by fastforce

fun phase_knows :: "action list \<Rightarrow> phase \<Rightarrow> bool" where
  "phase_knows tr (Opened root found) = ((\<exists>url. Checkout url (Inr root) \<in> set tr) \<and> (\<forall>d\<in>set found. resolved_in tr root d))"
| "phase_knows tr (Branched root found changed) = (\<forall>d\<in>set found. resolved_in tr root d)"
| "phase_knows tr p = True"

lemma patches_resolved_Nil [simp]: "patches_resolved []"
  by (simp add: patches_resolved_def)

lemma patches_resolved_other: "\<forall>dir u answer. a \<noteq> PatchDir dir u answer \<Longrightarrow> patches_resolved tr \<Longrightarrow> patches_resolved (tr @ [a])"
  by (rule patches_resolved_append) (auto simp: patches_resolved_def)

lemma patches_resolved_patch:
  "resolved_in tr root d \<Longrightarrow> patches_resolved tr \<Longrightarrow> patches_resolved (tr @ [PatchDir (path_join [root, d]) u answer])"
  using resolved_in_mono [of tr "tr @ [PatchDir (path_join [root, d]) u answer]"] by (auto simp: patches_resolved_def) blast+

lemma resolved_in_snoc: "resolved_in tr root d \<Longrightarrow> resolved_in (tr @ [a]) root d"
  by (rule resolved_in_mono) auto

lemma step_knows:
  "step t p a q \<Longrightarrow> phase_knows tr p \<Longrightarrow> patches_resolved tr \<Longrightarrow> phase_knows (tr @ [a]) q \<and> patches_resolved (tr @ [a])"
proof (induction rule: step.induct)
  case (resolved x ds root found)
  then have "\<forall>d\<in>set ds. resolved_in (tr @ [ResolveDirs root (tg_dir x) (Inr ds)]) root d" by (auto simp: resolved_in_def)
  with resolved show ?case by (auto intro: resolved_in_snoc patches_resolved_other)
qed (auto intro: resolved_in_snoc patches_resolved_other patches_resolved_patch)

lemma run_knows: "run t p tr q \<Longrightarrow> phase_knows before p \<Longrightarrow> patches_resolved before \<Longrightarrow> patches_resolved (before @ tr)"
proof (induction arbitrary: before rule: run.induct)
  case (run_Cons p a q as r)
  from step_knows [OF run_Cons.hyps(1) run_Cons.prems] run_Cons.IH [of "before @ [a]"] show ?case by simp
qed simp

lemma segment_resolved:
  assumes "segment t err tr"
  shows "patches_resolved tr"
proof -
  obtain q where "run t (Searching (searched_branches t)) tr q" using assms by (auto simp: segment_def)
  from run_knows [OF this, of "[]"] show ?thesis by simp
qed

lemma Handle_resolved: "patches_resolved h \<Longrightarrow> patches_resolved (snd (Handle rt s event h))"
proof -
  assume h: "patches_resolved h"
  have looked: "patches_resolved tr" if "list_all (\<lambda>a. \<not> remote a) tr" for tr
    using that by (auto simp: patches_resolved_def list_all_iff)
  obtain err h' where one: "Handle rt s event h = (err, h')" by fastforce
  then show ?thesis
  proof (cases rule: Handle_cases)
    case (carried_out p tr rendered failures errs segs)
    have "\<forall>seg\<in>set segs. patches_resolved seg"
      using list_all2_zip(1) [OF carried_out(7,8)] segment_resolved by blast
    then have "patches_resolved (concat segs)"
      by (induction segs) (auto simp: patches_resolved_append)
    with h looked [OF carried_out(2)] one show ?thesis by (simp add: carried_out(6) patches_resolved_append)
  qed (use h looked one patches_resolved_append in auto)
qed

lemma deliveries_resolved: "patches_resolved h \<Longrightarrow> patches_resolved (deliveries rt s events h)"
  by (induction rt s events h rule: deliveries.induct) (auto intro: Handle_resolved)

text \<open>Both together, for everything a service ever does.\<close>

lemma deliveries_patch_origin:
  assumes "PatchDir dir u answer \<in> set (deliveries rt s events [])"
  obtains root d url n pat ds where "dir = path_join [root, d]"
    "Checkout url (Inr root) \<in> set (deliveries rt s events [])"
    "sv_directories s (take n (deliveries rt s events [])) root pat = Inr ds" "d \<in> set ds"
proof -
  let ?h = "deliveries rt s events []"
  have "patches_resolved ?h" by (rule deliveries_resolved) simp
  then obtain root d where "dir = path_join [root, d]" and from_dirs: "resolved_in ?h root d"
    using assms unfolding patches_resolved_def by blast
  from from_dirs obtain url pat ds where "Checkout url (Inr root) \<in> set ?h" "ResolveDirs root pat (Inr ds) \<in> set ?h" "d \<in> set ds"
    unfolding resolved_in_def by blast
  moreover from genuine_answered [OF deliveries_genuine this(2)] obtain n where "sv_directories s (take n ?h) root pat = Inr ds" by auto
  ultimately show thesis using \<open>dir = _\<close> by (intro that)
qed

end
