(* ===== verification/Working_Copy.thy ===== *)
theory Working_Copy
  imports Trace
begin

text \<open>
  The update service on the kustomize patcher: the ports are \<open>Resolve\<close> and \<open>Patch\<close> on a disk, the disk is what
  the calls leave, and the property is what the pull requests of an event propose.
\<close>

section \<open>The kustomize ports on a disk\<close>

type_synonym disk = "history \<Rightarrow> os_env \<times> fnode"

definition directory_port :: "disk \<Rightarrow> directory_resolver" where
  "directory_port D = (\<lambda>h root pat. Resolve (fst (D h)) (snd (D h)) root pat)"

text \<open>A panic ends the process; here the answer is then arbitrary.\<close>

definition patching_port :: "runtime \<Rightarrow> yaml_lib \<Rightarrow> patcher \<Rightarrow> disk \<Rightarrow> go_error option \<Rightarrow> patcher_port" where
  "patching_port rt yl p D panicked = (\<lambda>h dir u.
     case Patch rt yl (fst (D h)) p (snd (D h)) dir u of Some (fs, err) \<Rightarrow> err | None \<Rightarrow> panicked)"

text \<open>
  The disk follows the calls: a patch leaves what \<open>Patch\<close> leaves, a checkout and a close may change
  anything, and no other call touches the files. The branch of an update is created on the commit that
  was cloned, so switching to it changes no file.
\<close>

fun leaves :: "runtime \<Rightarrow> yaml_lib \<Rightarrow> patcher \<Rightarrow> os_env \<times> fnode \<Rightarrow> action \<Rightarrow> fnode \<Rightarrow> bool" where
  "leaves rt yl p d (PatchDir dir u answer) fs =
     (case Patch rt yl (fst d) p (snd d) dir u of Some (fs', err) \<Rightarrow> fs = fs' | None \<Rightarrow> True)"
| "leaves rt yl p d (Checkout url answer) fs = True"
| "leaves rt yl p d (CloseCheckout answer) fs = True"
| "leaves rt yl p d a fs = (fs = snd d)"

definition disk_follows :: "runtime \<Rightarrow> yaml_lib \<Rightarrow> patcher \<Rightarrow> disk \<Rightarrow> bool" where
  "disk_follows rt yl p D \<longleftrightarrow> (\<forall>h a. leaves rt yl p (D h) a (snd (D (h @ [a]))))"

text \<open>An error of the operating system is never the one for a missing difference.\<close>

definition faults_plain :: "os_env \<Rightarrow> bool" where
  "faults_plain env \<longleftrightarrow> (\<forall>path e. oe_lstat_fault env path = Some e \<or> oe_open_fault env path = Some e \<or> oe_read_fault env path = Some e \<or>
     (\<exists>left. oe_write_fault env path = Some (e, left)) \<longrightarrow> \<not> errors_is ErrNoDifference e)"

lemma faults_plainD:
  assumes "faults_plain env"
  shows "oe_lstat_fault env path = Some e \<Longrightarrow> \<not> errors_is ErrNoDifference e"
    "oe_open_fault env path = Some e \<Longrightarrow> \<not> errors_is ErrNoDifference e"
    "oe_read_fault env path = Some e \<Longrightarrow> \<not> errors_is ErrNoDifference e"
    "oe_write_fault env path = Some (e, left) \<Longrightarrow> \<not> errors_is ErrNoDifference e"
  using assms unfolding faults_plain_def by blast+

text \<open>What the YAML library has to do for the patches of a trace: no panic, and an edited file reads back.\<close>

fun reads_back :: "runtime \<Rightarrow> yaml_lib \<Rightarrow> patcher \<Rightarrow> disk \<Rightarrow> history \<Rightarrow> action list \<Rightarrow> bool" where
  "reads_back rt yl p D h [] = True"
| "reads_back rt yl p D h (a # as) =
     ((case a of
         PatchDir dir u answer \<Rightarrow>
           (case Patch rt yl (fst (D h)) p (snd (D h)) dir u of
              None \<Rightarrow> False
            | Some (fs', None) \<Rightarrow> effective yl (snd (D h)) fs' (manifest_path dir) u
            | Some (fs', Some e) \<Rightarrow> True)
       | _ \<Rightarrow> True) \<and>
      reads_back rt yl p D (h @ [a]) as)"

lemma reads_back_append [simp]:
  "reads_back rt yl p D h (as @ bs) \<longleftrightarrow> reads_back rt yl p D h as \<and> reads_back rt yl p D (h @ as) bs"
  by (induction as arbitrary: h) auto

definition on_disk :: "runtime \<Rightarrow> yaml_lib \<Rightarrow> patcher \<Rightarrow> disk \<Rightarrow> service \<Rightarrow> bool" where
  "on_disk rt yl p D s \<longleftrightarrow> sv_directories s = directory_port D \<and> (\<exists>panicked. sv_patcher s = patching_port rt yl p D panicked) \<and>
     disk_follows rt yl p D \<and> (\<forall>h. faults_plain (fst (D h)))"

section \<open>One directory\<close>

lemma no_change_retagged:
  assumes "replaceTag images img tag = Inr us" and "changedNewTags images us = []"
  shows "us = images"
proof -
  have us: "us = map (retagged img tag) images" using assms(1) by (auto simp: replaceTag_eq split: if_splits)
  have "retagged img tag (images ! i) = images ! i" if "i < length images" for i
  proof -
    have "(i, ie_new_tag (us ! i)) \<notin> set (changedNewTags images us)" using assms(2) by simp
    then have "ie_new_tag (images ! i) = ie_new_tag (us ! i)" using that us by (simp add: changedNewTags_iff)
    then show ?thesis using that us by (auto simp: retagged_def split: if_splits)
  qed
  then show ?thesis using us by (simp add: list_eq_iff_nth_eq)
qed

lemma Patch_no_difference:
  assumes "Patch rt yl env p fs dir u = Some (fs', Some e)" and "errors_is ErrNoDifference e" and env: "faults_plain env"
  shows "fs' = fs \<and> (\<exists>images. images_at yl fs (manifest_path dir) = Some images \<and> replaceTag images (iu_image u) (iu_new_tag u) = Inr images)"
proof -
  note faults = faults_plainD [OF env]
  obtain body perm where content: "fs_lookup fs (manifest_path dir) = Some (FFile body perm)"
    and live: "oe_lstat_fault env (manifest_path dir) = None" "oe_open_fault env (manifest_path dir) = None"
      "oe_read_fault env (manifest_path dir) = None" "length body \<le> maxManifestSize"
    using assms(1,2)
    by (auto dest: faults simp: Patch_def manifest_path_def [symmetric] Let_def lstat_def readFileLimited_def
        split: option.splits sum.splits fnode.splits if_splits)
  obtain doc where doc: "kd_parse yl body = Inr doc"
    using assms(1,2) content live
    by (auto simp: Patch_def manifest_path_def [symmetric] Let_def lstat_def readFileLimited_def split: sum.splits)
  have edited: "edit_document rt yl p doc u = Some (Inl e)" "fs' = fs"
    using assms(1,2) unfolding Patch_file [OF content live(4,1,2,3) doc]
    by (auto dest: faults split: option.splits sum.splits)
  then obtain us where "replaceTag (kd_images doc) (iu_image u) (iu_new_tag u) = Inr us" "changedNewTags (kd_images doc) us = []"
    using assms(2) by (auto simp: edit_document_def replaceTag_eq Let_def split: sum.splits option.splits if_splits)
  with no_change_retagged [OF this] images_at_file [OF content live(4) doc] edited(2) show ?thesis by simp
qed

text \<open>
  What an update is: at every path the images block is there, names the image, and has the new tag in the
  entries of its stream; nothing else has changed.
\<close>

definition retags :: "yaml_lib \<Rightarrow> string \<Rightarrow> string \<Rightarrow> fnode \<Rightarrow> fnode \<Rightarrow> string list set \<Rightarrow> bool" where
  "retags yl img tag fs fs' paths \<longleftrightarrow>
     (\<forall>q\<in>paths. \<exists>images. images_at yl fs q = Some images \<and> list_ex (managed img tag) images \<and>
        images_at yl fs' q = Some (map (retagged img tag) images)) \<and>
     (\<forall>q. q \<notin> paths \<longrightarrow> images_at yl fs' q = images_at yl fs q) \<and>
     (\<forall>q. (\<forall>p\<in>paths. parallel_paths p q) \<longrightarrow> fs_lookup fs' q = fs_lookup fs q)"

lemma retags_none [simp]: "retags yl img tag fs fs {}"
  by (simp add: retags_def)

lemma retags_then:
  assumes one: "retags yl img tag fs fs1 {p}" and rest: "retags yl img tag fs1 fs2 ps"
  shows "retags yl img tag fs fs2 (insert p ps)"
proof -
  have "\<exists>images. images_at yl fs q = Some images \<and> list_ex (managed img tag) images \<and>
      images_at yl fs2 q = Some (map (retagged img tag) images)" if "q \<in> insert p ps" for q
  proof (cases "q = p")
    case True
    then obtain images where im: "images_at yl fs p = Some images" "list_ex (managed img tag) images"
      "images_at yl fs1 p = Some (map (retagged img tag) images)" using one by (auto simp: retags_def)
    have "images_at yl fs2 p = Some (map (retagged img tag) images)"
      using rest im(3) by (cases "p \<in> ps") (auto simp: retags_def comp_def)
    with im True show ?thesis by blast
  next
    case False
    with that one have same: "images_at yl fs1 q = images_at yl fs q" by (auto simp: retags_def)
    have all: "\<forall>q\<in>ps. \<exists>images. images_at yl fs1 q = Some images \<and> list_ex (managed img tag) images \<and>
        images_at yl fs2 q = Some (map (retagged img tag) images)" using rest by (simp add: retags_def)
    have "q \<in> ps" using that False by simp
    from bspec [OF all this] show ?thesis unfolding same .
  qed
  moreover have "fs_lookup fs2 q = fs_lookup fs q" if "\<forall>p'\<in>insert p ps. parallel_paths p' q" for q
    using that one rest by (auto simp: retags_def)
  moreover have "images_at yl fs2 q = images_at yl fs q" if "q \<notin> insert p ps" for q
    using that one rest by (auto simp: retags_def)
  ultimately show ?thesis unfolding retags_def by blast
qed

lemma Patch_retags:
  assumes patched: "Patch rt yl env p fs dir u = Some (fs', None)" and eff: "effective yl fs fs' (manifest_path dir) u"
  shows "retags yl (iu_image u) (iu_new_tag u) fs fs' {manifest_path dir}"
proof (rule Patch_edited [OF patched])
  fix body perm doc doc' updated
  assume *: "fs_lookup fs (manifest_path dir) = Some (FFile body perm)" "length body \<le> maxManifestSize"
    "kd_parse yl body = Inr doc"
    "fs' = fs_update fs (manifest_path dir) (FFile (kd_bytes doc') perm)"
    "replaceTag (kd_images doc) (iu_image u) (iu_new_tag u) = Inr updated"
  have im: "images_at yl fs (manifest_path dir) = Some (kd_images doc)" by (rule images_at_file [OF *(1,2,3)])
  then have "images_at yl fs' (manifest_path dir) = Some updated" using eff *(5) by (simp add: effective_def)
  moreover have "images_at yl fs' q = images_at yl fs q" if "q \<noteq> manifest_path dir" for q
    unfolding *(4) using that by (intro images_at_update [OF *(1)])
  moreover have "list_ex (managed (iu_image u) (iu_new_tag u)) (kd_images doc)"
      "updated = map (retagged (iu_image u) (iu_new_tag u)) (kd_images doc)"
    using *(5) by (auto simp: replaceTag_eq split: if_splits)
  moreover have "fs_lookup fs' q = fs_lookup fs q" if "parallel_paths (manifest_path dir) q" for q
    unfolding *(4) using that by (rule lookup_update_other)
  ultimately show ?thesis using im by (simp add: retags_def)
qed

lemma no_difference_retags:
  assumes "images_at yl fs q = Some images" and "replaceTag images img tag = Inr images"
  shows "retags yl img tag fs fs {q}"
  using assms by (auto simp: retags_def replaceTag_eq split: if_splits)

section \<open>One repository\<close>

lemma genuine_prefix: "genuine s h h' \<Longrightarrow> \<exists>tr. h' = h @ tr"
  by (induction rule: genuine.induct) auto

definition manifest_of :: "string \<Rightarrow> manifest_target \<Rightarrow> string list" where
  "manifest_of root m = manifest_path (path_join [root, tg_dir m])"

lemma patch_loop_retags:
  assumes "on_disk rt yl p D s" and "patch_loop s root event labels changed ms h = (Inr ch, h @ tr)" and "reads_back rt yl p D h tr"
  shows "retags yl (ref_name (Reference event)) (ev_tag event) (snd (D h)) (snd (D (h @ tr))) (manifest_of root ` set ms)"
  using assms(2,3)
proof (induction ms arbitrary: changed h tr)
  case (Cons m ms)
  obtain panicked where port: "sv_patcher s = patching_port rt yl p D panicked" and follows: "disk_follows rt yl p D"
    and clean: "faults_plain (fst (D h))" using assms(1) by (auto simp: on_disk_def)
  let ?dir = "path_join [root, tg_dir m]"
  let ?u = "update_of m event labels"
  let ?answer = "sv_patcher s h ?dir ?u"
  let ?h = "h @ [PatchDir ?dir ?u ?answer]"
  have u: "iu_image ?u = ref_name (Reference event)" "iu_new_tag ?u = ev_tag event" by (simp_all add: update_of_def Let_def)
  obtain changed' where rest: "patch_loop s root event labels changed' ms ?h = (Inr ch, h @ tr)"
    and fine: "?answer = None \<or> (\<exists>e. ?answer = Some e \<and> errors_is ErrNoDifference e)"
    using Cons.prems(1) by (auto simp: Let_def split: option.splits if_splits)
  obtain tr' where tr': "h @ tr = ?h @ tr'"
    using genuine_prefix [OF patch_loop_genuine [of s ?h root event labels changed' ms]] rest by auto
  then have tr: "tr = PatchDir ?dir ?u ?answer # tr'" by simp
  with Cons.prems(2) have reads: "reads_back rt yl p D ?h tr'" by simp
  obtain fs' err where run: "Patch rt yl (fst (D h)) p (snd (D h)) ?dir ?u = Some (fs', err)"
    using Cons.prems(2) tr by (auto split: option.splits)
  then have answer: "?answer = err" by (simp add: port patching_port_def)
  have "leaves rt yl p (D h) (PatchDir ?dir ?u ?answer) (snd (D ?h))" using follows by (simp only: disk_follows_def)
  then have fs': "snd (D ?h) = fs'" using run by simp
  have "retags yl (ref_name (Reference event)) (ev_tag event) (snd (D h)) fs' {manifest_of root m}"
  proof (cases err)
    case None
    with run Cons.prems(2) tr have "effective yl (snd (D h)) fs' (manifest_path ?dir) ?u" by simp
    from Patch_retags [OF run [unfolded None] this] show ?thesis by (simp add: u manifest_of_def)
  next
    case (Some e)
    with fine answer have "errors_is ErrNoDifference e" by simp
    from Patch_no_difference [OF run [unfolded Some] this clean] show ?thesis
      using no_difference_retags by (auto simp: u manifest_of_def)
  qed
  moreover have "retags yl (ref_name (Reference event)) (ev_tag event) fs' (snd (D (h @ tr))) (manifest_of root ` set ms)"
    using Cons.IH [of changed' ?h tr'] rest tr' reads fs' by simp
  ultimately show ?case by (simp add: retags_then)
qed simp

text \<open>The directories the resolver returned for a working copy.\<close>

definition resolved_dirs :: "string \<Rightarrow> action list \<Rightarrow> string set" where
  "resolved_dirs root tr = {d. \<exists>pat ds. ResolveDirs root pat (Inr ds) \<in> set tr \<and> d \<in> set ds}"

definition manifests_in :: "string \<Rightarrow> action list \<Rightarrow> string list set" where
  "manifests_in root tr = (\<lambda>d. manifest_path (path_join [root, d])) ` resolved_dirs root tr"

lemma resolved_dirs_simps [simp]:
  "resolved_dirs root [] = {}"
  "resolved_dirs root (ResolveDirs root pat (Inr ds) # tr) = set ds \<union> resolved_dirs root tr"
  "resolved_dirs root (as @ bs) = resolved_dirs root as \<union> resolved_dirs root bs"
  by (auto simp: resolved_dirs_def)

lemma resolved_dirs_none: "\<forall>a\<in>set tr. \<forall>r pat answer. a \<noteq> ResolveDirs r pat answer \<Longrightarrow> resolved_dirs root tr = {}"
  by (auto simp: resolved_dirs_def)

fun still :: "action \<Rightarrow> bool" where
  "still (PatchDir dir u answer) = False"
| "still (Checkout url answer) = False"
| "still (CloseCheckout answer) = False"
| "still a = True"

lemma disk_still:
  assumes "disk_follows rt yl p D"
  shows "list_all still tr \<Longrightarrow> snd (D (h @ tr)) = snd (D h)"
proof (induction tr arbitrary: h)
  case (Cons a tr)
  have "leaves rt yl p (D h) a (snd (D (h @ [a])))" using assms by (simp add: disk_follows_def)
  then have "snd (D (h @ [a])) = snd (D h)" using Cons.prems by (cases a) simp_all
  with Cons.IH [of "h @ [a]"] Cons.prems show ?case by simp
qed simp

lemma tg_dir_located [simp]: "tg_dir (x\<lparr>tg_location := (tg_location x)\<lparr>ml_dir := d\<rparr>\<rparr>) = d"
  by (simp add: tg_dir_def)

lemma resolve_loop_dirs:
  "resolve_loop s root acc xs h = (Inr ms, h @ tr) \<Longrightarrow>
     list_all still tr \<and> tg_dir ` set ms = tg_dir ` set acc \<union> resolved_dirs root tr \<and>
     (\<forall>x\<in>set xs. \<exists>ds. ds \<noteq> [] \<and> ResolveDirs root (tg_dir x) (Inr ds) \<in> set tr)"
proof (induction xs arbitrary: acc h tr)
  case (Cons x xs)
  obtain ds where ds: "sv_directories s h root (tg_dir x) = Inr ds" "ds \<noteq> []"
    using Cons.prems by (auto simp: Let_def split: sum.splits if_splits)
  let ?a = "ResolveDirs root (tg_dir x) (Inr ds)"
  let ?located = "map (\<lambda>d. x\<lparr>tg_location := (tg_location x)\<lparr>ml_dir := d\<rparr>\<rparr>) ds"
  have rest: "resolve_loop s root (acc @ ?located) xs (h @ [?a]) = (Inr ms, h @ tr)" using Cons.prems ds by simp
  obtain tr' where "h @ tr = (h @ [?a]) @ tr'"
    using genuine_prefix [OF resolve_loop_genuine [of s "h @ [?a]" root "acc @ ?located" xs]] rest by auto
  then have tr: "tr = ?a # tr'" by simp
  with Cons.IH [of "acc @ ?located" "h @ [?a]" tr'] rest
  have "list_all still tr' \<and> tg_dir ` set ms = tg_dir ` set (acc @ ?located) \<union> resolved_dirs root tr' \<and>
     (\<forall>x\<in>set xs. \<exists>ds. ds \<noteq> [] \<and> ResolveDirs root (tg_dir x) (Inr ds) \<in> set tr')" by simp
  moreover have "tg_dir ` set (acc @ ?located) = tg_dir ` set acc \<union> set ds" by (simp add: image_Un image_image)
  ultimately have "list_all still tr' \<and> tg_dir ` set ms = tg_dir ` set acc \<union> set ds \<union> resolved_dirs root tr' \<and>
     (\<forall>x\<in>set xs. \<exists>ds. ds \<noteq> [] \<and> ResolveDirs root (tg_dir x) (Inr ds) \<in> set tr')" by simp
  then show ?case using ds(2) unfolding tr by (simp add: Un_assoc) blast
qed simp

lemma resolve_dirs:
  assumes "resolveManifestTargets s root t h = (Inr ms, h @ tr)"
  shows "list_all still tr \<and> tg_dir ` set ms = resolved_dirs root tr \<and>
     (\<forall>x\<in>set (rp_targets t). \<exists>ds. ds \<noteq> [] \<and> ResolveDirs root (tg_dir x) (Inr ds) \<in> set tr)"
proof -
  obtain ts where loop: "resolve_loop s root [] (rp_targets t) h = (Inr ts, h @ tr)"
    and normal: "normalizeManifestTargets (ml_repository_url (rp_location t)) ts = Inr ms"
    using assms by (auto simp: resolveManifestTargets_def split: sum.splits prod.splits)
  have "target_view ` set ms = target_view ` set ts"
    using normalizeManifestTargets_exact [where ts = ts and url = "ml_repository_url (rp_location t)"] normal by simp
  then have "fst ` target_view ` set ms = fst ` target_view ` set ts" by simp
  then have "tg_dir ` set ms = tg_dir ` set ts" by (simp add: image_image target_view_def)
  with resolve_loop_dirs [OF loop] show ?thesis by simp
qed

lemma patch_loop_actions:
  "patch_loop s root event labels changed ms h = (r, h @ tr) \<Longrightarrow> \<forall>a\<in>set tr. \<exists>dir u answer. a = PatchDir dir u answer"
proof (induction ms arbitrary: changed h tr)
  case (Cons m ms)
  let ?a = "PatchDir (path_join [root, tg_dir m]) (update_of m event labels) (sv_patcher s h (path_join [root, tg_dir m]) (update_of m event labels))"
  have "(\<exists>changed'. patch_loop s root event labels changed' ms (h @ [?a]) = (r, h @ tr)) \<or> h @ tr = h @ [?a]"
    using Cons.prems by (auto simp: Let_def split: option.splits if_splits)
  then show ?case
  proof
    assume "\<exists>changed'. patch_loop s root event labels changed' ms (h @ [?a]) = (r, h @ tr)"
    then obtain changed' where rest: "patch_loop s root event labels changed' ms (h @ [?a]) = (r, h @ tr)" by blast
    obtain tr' where "h @ tr = (h @ [?a]) @ tr'"
      using genuine_prefix [OF patch_loop_genuine [of s "h @ [?a]" root event labels changed' ms]] rest by auto
    then have tr: "tr = ?a # tr'" by simp
    with Cons.IH [of changed' "h @ [?a]" tr'] rest show ?thesis by simp
  qed simp
qed simp

text \<open>What lies between the commit and the pull request.\<close>

fun publishes :: "repository_plan \<Rightarrow> action \<Rightarrow> bool" where
  "publishes t (Push branch answer) = (branch = rp_branch t)"
| "publishes t (FindOpen owner repo head answer) = True"
| "publishes t a = False"

lemma search_publishes:
  "find_open_loop gh t bs h = (r, h') \<Longrightarrow> \<exists>tr. h' = h @ tr \<and> list_all (publishes u) tr"
proof (induction bs arbitrary: h)
  case (Cons b bs)
  let ?a = "FindOpen (ml_owner (rp_location t)) (ml_repository (rp_location t)) b
    (gh_find_open gh h (ml_owner (rp_location t)) (ml_repository (rp_location t)) b)"
  have "find_open_loop gh t bs (h @ [?a]) = (r, h') \<or> h' = h @ [?a]"
    using Cons.prems by (auto simp: Let_def split: sum.splits if_splits)
  with Cons.IH [of "h @ [?a]"] show ?case by fastforce
qed simp

lemma push_publishes:
  assumes "push_and_open s t labels messages h = (None, h')"
  shows "\<exists>pub url. h' = h @ pub @ [CreatePullRequest (pullRequest t labels messages) (Inr url)] \<and> list_all (publishes t) pub"
proof -
  let ?a = "Push (rp_branch t) (gh_push (sv_manifests s) h (rp_branch t))"
  have created: "\<exists>url. h' = g @ [CreatePullRequest (pullRequest t labels messages) (Inr url)]"
    if "create_pull_request s t labels messages g = (None, h')" for g
    using that by (auto simp: create_pull_request_def Let_def split: sum.splits if_splits)
  have "create_pull_request s t labels messages (h @ [?a]) = (None, h') \<or>
    (\<exists>h2. ensureNoOpenPullRequest s t (h @ [?a]) = (None, h2) \<and> create_pull_request s t labels messages h2 = (None, h'))"
    using assms by (auto simp: push_and_open_def Let_def split: option.splits if_splits prod.splits)
  then show ?thesis
  proof (elim disjE exE conjE)
    fix h2 assume *: "ensureNoOpenPullRequest s t (h @ [?a]) = (None, h2)" "create_pull_request s t labels messages h2 = (None, h')"
    obtain tr where "h2 = (h @ [?a]) @ tr" "list_all (publishes t) tr"
      using search_publishes [OF *(1) [unfolded ensureNoOpenPullRequest_def]] by blast
    with created [OF *(2)] show ?thesis by (intro exI [of _ "?a # tr"]) auto
  next
    assume "create_pull_request s t labels messages (h @ [?a]) = (None, h')"
    from created [OF this] show ?thesis by (intro exI [of _ "[?a]"]) auto
  qed
qed

lemma in_checkout_commits:
  assumes disk: "on_disk rt yl p D s" and one: "in_checkout s t labels messages root h = (None, h @ tr)"
    and reads: "reads_back rt yl p D h tr"
  obtains tr1 pub url where "list_all (publishes t) pub"
    "tr = tr1 @ Commit (rm_commit_message messages) None # pub @ [CreatePullRequest (pullRequest t labels messages) (Inr url)]"
    "\<forall>x\<in>set (rp_targets t). \<exists>ds. ds \<noteq> [] \<and> ResolveDirs root (tg_dir x) (Inr ds) \<in> set tr1"
    "retags yl (ref_name (Reference (rp_event t))) (ev_tag (rp_event t)) (snd (D h)) (snd (D (h @ tr1))) (manifests_in root tr1)"
proof -
  obtain ms h1 where resolve: "resolveManifestTargets s root t h = (Inr ms, h1)"
    using one by (auto simp: in_checkout_def split: prod.splits sum.splits)
  obtain a where a: "a = CreateBranch (rp_branch t) (gh_create_branch (sv_manifests s) h1 (rp_branch t))" "a = CreateBranch (rp_branch t) None"
    using one resolve by (auto simp: in_checkout_def Let_def split: option.splits)
  obtain ch h3 where patched: "patch_loop s root (rp_event t) labels False ms (h1 @ [a]) = (Inr ch, h3)"
    and rest: "commit_and_push s t labels messages h3 = (None, h @ tr)"
    using one resolve a by (auto simp: in_checkout_def Let_def split: option.splits sum.splits prod.splits if_splits)
  have commit: "gh_commit (sv_manifests s) h3 (rm_commit_message messages) = None"
    and pushed: "push_and_open s t labels messages (h3 @ [Commit (rm_commit_message messages) None]) = (None, h @ tr)"
    using rest by (auto simp: commit_and_push_def Let_def split: option.splits if_splits)
  obtain trr where trr: "h1 = h @ trr" using genuine_prefix [OF resolve_genuine [of s h root t]] resolve by auto
  obtain trp where trp: "h3 = (h1 @ [a]) @ trp"
    using genuine_prefix [OF patch_loop_genuine [of s "h1 @ [a]" root "rp_event t" labels False ms]] patched by auto
  obtain pub url where pub: "list_all (publishes t) pub"
    "h @ tr = (h3 @ [Commit (rm_commit_message messages) None]) @ pub @ [CreatePullRequest (pullRequest t labels messages) (Inr url)]"
    using push_publishes [OF pushed] by blast
  define tr1 where "tr1 = trr @ a # trp"
  have tr: "tr = tr1 @ Commit (rm_commit_message messages) None # pub @ [CreatePullRequest (pullRequest t labels messages) (Inr url)]"
    using trr trp pub(2) by (simp add: tr1_def)
  note found = resolve_dirs [OF resolve [unfolded trr]]
  have "resolved_dirs root trp = {}"
    using patch_loop_actions [OF patched [unfolded trp]] by (intro resolved_dirs_none) auto
  moreover have "resolved_dirs root [a] = {}" using a(2) by (intro resolved_dirs_none) auto
  ultimately have dirs: "resolved_dirs root tr1 = tg_dir ` set ms"
    using found resolved_dirs_simps(3) [of root trr "[a] @ trp"] resolved_dirs_simps(3) [of root "[a]" trp] by (simp add: tr1_def)
  have "disk_follows rt yl p D" using disk by (simp add: on_disk_def)
  from disk_still [OF this, of "trr @ [a]" h] have same: "snd (D (h1 @ [a])) = snd (D h)" using found a(2) by (simp add: trr)
  have "reads_back rt yl p D (h1 @ [a]) trp" using reads unfolding tr by (simp add: tr1_def trr)
  from patch_loop_retags [OF disk patched [unfolded trp] this]
  have "retags yl (ref_name (Reference (rp_event t))) (ev_tag (rp_event t)) (snd (D h)) (snd (D (h @ tr1))) (manifests_in root tr1)"
    unfolding same manifests_in_def dirs by (simp add: tr1_def trr manifest_of_def image_image)
  moreover have "\<forall>x\<in>set (rp_targets t). \<exists>ds. ds \<noteq> [] \<and> ResolveDirs root (tg_dir x) (Inr ds) \<in> set tr1"
    using found unfolding tr1_def by auto
  ultimately show thesis using tr pub(1) by (intro that)
qed

section \<open>What is proposed\<close>

text \<open>
  The pull request \<open>pr\<close> of a repository in the calls \<open>tr\<close> made after \<open>h\<close>: it was opened for the branch that
  was pushed, right after the commit of a working copy; all patterns of the repository were resolved in that
  working copy; and the copy that is committed is the copy that was checked out, retagged.
\<close>

definition proposed :: "yaml_lib \<Rightarrow> disk \<Rightarrow> string \<Rightarrow> string \<Rightarrow> repository_plan \<Rightarrow> pull_request \<Rightarrow> history \<Rightarrow> action list \<Rightarrow> bool" where
  "proposed yl D img tag t pr h tr \<longleftrightarrow>
     (\<exists>before root edits message pub url later.
        tr = before @ Checkout (ml_repository_url (rp_location t)) (Inr root) # edits @ Commit message None # pub @
          CreatePullRequest pr (Inr url) # later \<and>
        list_all (publishes t) pub \<and>
        (\<forall>x\<in>set (rp_targets t). \<exists>ds. ds \<noteq> [] \<and> ResolveDirs root (tg_dir x) (Inr ds) \<in> set edits) \<and>
        retags yl img tag (snd (D (h @ before @ [Checkout (ml_repository_url (rp_location t)) (Inr root)])))
          (snd (D (h @ before @ Checkout (ml_repository_url (rp_location t)) (Inr root) # edits)))
          (manifests_in root edits))"

lemma proposed_within: "proposed yl D img tag t pr (h @ first) tr \<Longrightarrow> proposed yl D img tag t pr h (first @ tr @ rest)"
  unfolding proposed_def
proof (elim exE conjE)
  fix before root edits message pub url later
  let ?url = "ml_repository_url (rp_location t)"
  assume "tr = before @ Checkout ?url (Inr root) # edits @ Commit message None # pub @ CreatePullRequest pr (Inr url) # later"
    and "list_all (publishes t) pub" and "\<forall>x\<in>set (rp_targets t). \<exists>ds. ds \<noteq> [] \<and> ResolveDirs root (tg_dir x) (Inr ds) \<in> set edits"
    and "retags yl img tag (snd (D ((h @ first) @ before @ [Checkout ?url (Inr root)])))
          (snd (D ((h @ first) @ before @ Checkout ?url (Inr root) # edits))) (manifests_in root edits)"
  then show "\<exists>before root edits message pub url later.
      first @ tr @ rest = before @ Checkout ?url (Inr root) # edits @ Commit message None # pub @ CreatePullRequest pr (Inr url) # later \<and>
      list_all (publishes t) pub \<and> (\<forall>x\<in>set (rp_targets t). \<exists>ds. ds \<noteq> [] \<and> ResolveDirs root (tg_dir x) (Inr ds) \<in> set edits) \<and>
      retags yl img tag (snd (D (h @ before @ [Checkout ?url (Inr root)])))
          (snd (D (h @ before @ Checkout ?url (Inr root) # edits))) (manifests_in root edits)"
    by (intro exI [of _ "first @ before"] exI [of _ root] exI [of _ edits] exI conjI) auto
qed

lemma applyRepository_proposed:
  assumes "on_disk rt yl p D s" and "applyRepository s t labels messages h = (None, h @ tr)" and "reads_back rt yl p D h tr"
  shows "proposed yl D (ref_name (Reference (rp_event t))) (ev_tag (rp_event t)) t (pullRequest t labels messages) h tr"
proof -
  let ?url = "ml_repository_url (rp_location t)"
  obtain h1 where searched: "ensureNoOpenPullRequest s t h = (None, h1)"
    using assms(2) by (auto simp: applyRepository_def split: prod.splits option.splits)
  obtain root where root: "gh_checkout (sv_manifests s) h1 ?url = Inr root"
    using assms(2) searched by (auto simp: applyRepository_def Let_def split: sum.splits)
  let ?h2 = "h1 @ [Checkout ?url (Inr root)]"
  obtain h3 where inside: "in_checkout s t labels messages root ?h2 = (None, h3)"
    and closed: "h @ tr = h3 @ [CloseCheckout (gh_close (sv_manifests s) h3)]"
    using assms(2) searched root by (auto simp: applyRepository_def Let_def split: prod.splits)
  obtain before where before: "h1 = h @ before" using genuine_prefix [OF search_genuine [of s h t]] searched by auto
  obtain tri where tri: "h3 = ?h2 @ tri"
    using genuine_prefix [OF in_checkout_genuine [of s ?h2 t labels messages root]] inside by auto
  have tr: "tr = before @ Checkout ?url (Inr root) # tri @ [CloseCheckout (gh_close (sv_manifests s) h3)]"
    using closed before tri by simp
  have "reads_back rt yl p D ?h2 tri" using assms(3) unfolding tr by (simp add: before)
  from in_checkout_commits [OF assms(1) inside [unfolded tri] this] obtain edits pub url where
    parts: "tri = edits @ Commit (rm_commit_message messages) None # pub @ [CreatePullRequest (pullRequest t labels messages) (Inr url)]"
      "list_all (publishes t) pub" "\<forall>x\<in>set (rp_targets t). \<exists>ds. ds \<noteq> [] \<and> ResolveDirs root (tg_dir x) (Inr ds) \<in> set edits"
      "retags yl (ref_name (Reference (rp_event t))) (ev_tag (rp_event t)) (snd (D ?h2)) (snd (D (?h2 @ edits))) (manifests_in root edits)"
    by metis
  show ?thesis
    unfolding proposed_def using parts tr before
    by (intro exI [of _ before] exI [of _ root] exI [of _ edits] exI conjI) auto
qed

text \<open>Every pull request that one repository opens, and then an event.\<close>

definition all_proposed :: "yaml_lib \<Rightarrow> disk \<Rightarrow> string \<Rightarrow> string \<Rightarrow> repository_plan list \<Rightarrow> history \<Rightarrow> action list \<Rightarrow> bool" where
  "all_proposed yl D img tag ts h tr \<longleftrightarrow>
     (\<forall>pr url. CreatePullRequest pr (Inr url) \<in> set tr \<longrightarrow> (\<exists>t\<in>set ts. is_pull_request t pr \<and> proposed yl D img tag t pr h tr))"

lemma one_opened:
  assumes "length (filter opens tr) \<le> 1" "CreatePullRequest pr (Inr url) \<in> set tr" "CreatePullRequest pr' (Inr url') \<in> set tr"
  shows "pr = pr'"
proof -
  have "CreatePullRequest pr (Inr url) \<in> set (filter opens tr)" "CreatePullRequest pr' (Inr url') \<in> set (filter opens tr)"
    using assms(2,3) by simp_all
  with assms(1) show ?thesis by (cases "filter opens tr") auto
qed

lemma applyRepository_all_proposed:
  assumes "on_disk rt yl p D s" and "applyRepository s t labels messages h = (err, h @ tr)" and "reads_back rt yl p D h tr"
  shows "all_proposed yl D (ref_name (Reference (rp_event t))) (ev_tag (rp_event t)) [t] h tr"
proof -
  have seg: "segment t err tr" using applyRepository_segment [OF assms(2)] by auto
  have "is_pull_request t pr \<and> proposed yl D (ref_name (Reference (rp_event t))) (ev_tag (rp_event t)) t pr h tr"
    if opened: "CreatePullRequest pr (Inr url) \<in> set tr" for pr url
  proof -
    have "filter opens tr \<noteq> []" using opened by (force simp: filter_empty_conv)
    moreover have "length (filter opens tr) = of_bool (err = None)" using seg by (simp add: segment_def)
    ultimately have success: "err = None" by (cases err) simp_all
    with seg have once: "length (filter opens tr) = 1" by (simp add: segment_def)
    from applyRepository_proposed [OF assms(1) _ assms(3)] assms(2) success
    have this_one: "proposed yl D (ref_name (Reference (rp_event t))) (ev_tag (rp_event t)) t (pullRequest t labels messages) h tr" by simp
    then have "\<exists>url'. CreatePullRequest (pullRequest t labels messages) (Inr url') \<in> set tr" unfolding proposed_def by auto
    then obtain url' where "CreatePullRequest (pullRequest t labels messages) (Inr url') \<in> set tr" by blast
    from one_opened [OF _ opened this] once have "pr = pullRequest t labels messages" by simp
    with this_one show ?thesis by (simp add: is_pull_request_def pullRequest_def Let_def)
  qed
  then show ?thesis by (auto simp: all_proposed_def)
qed

lemma all_proposed_append:
  assumes "all_proposed yl D img tag ts h tr" and "all_proposed yl D img tag us (h @ tr) rest"
  shows "all_proposed yl D img tag (ts @ us) h (tr @ rest)"
  unfolding all_proposed_def
proof (intro allI impI)
  fix pr url assume "CreatePullRequest pr (Inr url) \<in> set (tr @ rest)"
  then consider "CreatePullRequest pr (Inr url) \<in> set tr" | "CreatePullRequest pr (Inr url) \<in> set rest" by auto
  then show "\<exists>t\<in>set (ts @ us). is_pull_request t pr \<and> proposed yl D img tag t pr h (tr @ rest)"
  proof cases
    case 1
    with assms(1) obtain t where "t \<in> set ts" "is_pull_request t pr" "proposed yl D img tag t pr h tr" by (auto simp: all_proposed_def)
    with proposed_within [of yl D img tag t pr h "[]" tr rest] show ?thesis by auto
  next
    case 2
    with assms(2) obtain t where "t \<in> set us" "is_pull_request t pr" "proposed yl D img tag t pr (h @ tr) rest" by (auto simp: all_proposed_def)
    with proposed_within [of yl D img tag t pr h tr rest "[]"] show ?thesis by auto
  qed
qed

lemma apply_loop_all_proposed:
  assumes "on_disk rt yl p D s" and "apply_loop s labels ps h = (failures, h @ tr)" and "reads_back rt yl p D h tr"
    and "\<forall>q\<in>set ps. rp_event (fst q) = event"
  shows "all_proposed yl D (ref_name (Reference event)) (ev_tag event) (map fst ps) h tr"
  using assms(2-4)
proof (induction ps arbitrary: h tr failures)
  case (Cons q ps)
  obtain t messages where q: "q = (t, messages)" by (cases q)
  obtain err h1 where one: "applyRepository s t labels messages h = (err, h1)" by fastforce
  obtain tr1 where tr1: "h1 = h @ tr1" using genuine_prefix [OF applyRepository_genuine [of s h t labels messages]] one by auto
  obtain fails where rest: "apply_loop s labels ps h1 = (fails, h @ tr)"
    using Cons.prems(1) one by (auto simp: q split: prod.splits)
  obtain tr2 where tr2: "h @ tr = h1 @ tr2" using genuine_prefix [OF apply_loop_genuine [of s h1 labels ps]] rest by auto
  then have tr: "tr = tr1 @ tr2" by (simp add: tr1)
  with Cons.prems(2) have reads: "reads_back rt yl p D h tr1" "reads_back rt yl p D h1 tr2" by (simp_all add: tr1)
  have "all_proposed yl D (ref_name (Reference event)) (ev_tag event) [t] h tr1"
    using applyRepository_all_proposed [OF assms(1) one [unfolded tr1] reads(1)] Cons.prems(3) by (simp add: q)
  moreover have "all_proposed yl D (ref_name (Reference event)) (ev_tag event) (map fst ps) (h @ tr1) tr2"
    using Cons.IH [of h1 fails tr2] rest tr2 reads(2) Cons.prems(3) by (simp add: tr1)
  ultimately show ?case using all_proposed_append unfolding tr q by fastforce
qed (simp add: all_proposed_def)

lemma plan_event_event:
  assumes "plan_event rt rules annotate event = Inr plan" and "t \<in> set (ep_repositories plan)"
  shows "rp_event t = event"
proof -
  have "ep_repositories plan \<noteq> []" using assms(2) by auto
  then obtain rs ts idx where rs: "grouped rt event idx rs ts"
    "map_result (finish_repository rt event) (sort_key (plan_key rt) rs) = Inr (ep_repositories plan)"
    using plan_event_Inr [OF assms(1)] by metis
  obtain r where "r \<in> set rs" "finish_repository rt event r = Inr t"
    using list_all2_right [OF rs(2) [unfolded map_result_Inr] assms(2)] by auto
  then show ?thesis using rs(1) unfolding grouped_def
    by (auto simp: finish_repository_def Let_def split: sum.splits option.splits)
qed

lemma Handle_proposed:
  assumes "on_disk rt yl p D s" and "Handle rt s event h = (err, h @ tr)" and "reads_back rt yl p D h tr"
    and "CreatePullRequest pr (Inr url) \<in> set tr"
  shows "\<exists>plan t. plan_event rt (sv_rules s) (sv_annotate_from_labels s) event = Inr plan \<and> t \<in> set (ep_repositories plan) \<and>
    is_pull_request t pr \<and> proposed yl D (ref_name (Reference event)) (ev_tag event) t pr h tr"
  using assms(2)
proof (cases rule: Handle_cases)
  case (no_plan e)
  with assms(4) show ?thesis by simp
next
  case (no_messages plan e tr')
  with assms(4) have "list_all (\<lambda>a. \<not> remote a) tr" by simp
  with assms(4) show ?thesis by (force simp: list_all_iff)
next
  case (carried_out plan tr1 rendered failures errs segs)
  obtain tr2 where "h @ tr = (h @ tr1) @ tr2" using carried_out(6) by blast
  then have tr: "tr = tr1 @ tr2" by simp
  have "\<forall>q\<in>set rendered. rp_event (fst q) = event"
  proof
    fix q assume "q \<in> set rendered"
    then have "fst q \<in> set (ep_repositories plan)" unfolding carried_out(3) [symmetric] by simp
    then show "rp_event (fst q) = event" by (rule plan_event_event [OF carried_out(1)])
  qed
  moreover have "reads_back rt yl p D (h @ tr1) tr2" using assms(3) unfolding tr by simp
  moreover have "apply_loop s (fst (imageLabels rt s (ep_event plan) h)) rendered (h @ tr1) = (failures, (h @ tr1) @ tr2)"
    using carried_out(4) by (simp add: tr)
  ultimately have "all_proposed yl D (ref_name (Reference event)) (ev_tag event) (ep_repositories plan) (h @ tr1) tr2"
    using apply_loop_all_proposed [OF assms(1)] unfolding carried_out(3) [symmetric] by blast
  moreover have "CreatePullRequest pr (Inr url) \<in> set tr2" using assms(4) carried_out(2) unfolding tr by (force simp: list_all_iff)
  ultimately obtain t where "t \<in> set (ep_repositories plan)" "is_pull_request t pr"
    "proposed yl D (ref_name (Reference event)) (ev_tag event) t pr (h @ tr1) tr2" unfolding all_proposed_def by blast
  with carried_out(1) proposed_within [of yl D _ _ t pr h tr1 tr2 "[]"] show ?thesis unfolding tr by auto
qed

section \<open>Properties\<close>


section \<open>An update to evaluate\<close>

definition cloned_tree :: fnode where
  "cloned_tree = sample_tree (FFile sample_file 420)"

fun replay :: "runtime \<Rightarrow> yaml_lib \<Rightarrow> patcher \<Rightarrow> os_env \<Rightarrow> fnode \<Rightarrow> action \<Rightarrow> fnode" where
  "replay rt yl p env fs (PatchDir dir u answer) = (case Patch rt yl env p fs dir u of Some (fs', err) \<Rightarrow> fs' | None \<Rightarrow> fs)"
| "replay rt yl p env fs (Checkout url answer) = cloned_tree"
| "replay rt yl p env fs a = fs"

definition sample_disk :: disk where
  "sample_disk h = (no_faults, foldl (replay sample_runtime two_yl (NewPatcher []) no_faults) cloned_tree h)"

definition retag_event :: image_push_event where
  "retag_event = \<lparr>ev_kind = RegistryECR, ev_host = ''h'', ev_repository = ''a'', ev_tag = ''v2'', ev_digest = [], ev_occurred_at = 0\<rparr>"

definition retag_compiled :: compiled_rule where
  "retag_compiled = \<lparr>cr_rule = \<lparr>rl_image_pattern = ''h/a'', rl_manifest_url = ''https://github.com/o/r/a'',
       rl_env = ''dev'', rl_allow_tag = [], rl_deny_tags = [], rl_write_image_manifest = None\<rparr>,
     cr_host = ''h'', cr_segments = [''a''], cr_tag_pieces = [], cr_allow = \<lparr>tm_literal = [], tm_re = None\<rparr>, cr_deny = []\<rparr>"

definition retag_plan :: repository_plan where
  "retag_plan = \<lparr>rp_event = retag_event,
     rp_location = location_at ''o'' ''r'' [''a''],
     rp_targets = [\<lparr>tg_location = location_at ''o'' ''r'' [''a''], tg_env = ''dev'', tg_writes_image_manifest = False\<rparr>],
     rp_env = ''dev'', rp_branch = ''image_updater_a_dev_v2_0000000000000000''\<rparr>"

definition disk_service :: service where
  "disk_service = sample_service\<lparr>sv_rules := [retag_compiled], sv_directories := directory_port sample_disk,
     sv_patcher := patching_port sample_runtime two_yl (NewPatcher []) sample_disk None\<rparr>"

lemma disk_service_on_disk: "on_disk sample_runtime two_yl (NewPatcher []) sample_disk disk_service"
proof -
  have "leaves sample_runtime two_yl (NewPatcher []) (sample_disk h) a (snd (sample_disk (h @ [a])))" for h a
    by (cases a) (simp_all add: sample_disk_def split: option.split)
  moreover have "faults_plain no_faults" by (simp add: faults_plain_def no_faults_def)
  ultimately show ?thesis by (auto simp: on_disk_def disk_follows_def disk_service_def sample_disk_def)
qed

lemma disk_service_answers:
  "gh_find_open (sv_manifests disk_service) = gh_find_open sample_gh"
  "gh_checkout (sv_manifests disk_service) h url = Inr ''/w''" "gh_create_branch (sv_manifests disk_service) h b = None"
  "gh_commit (sv_manifests disk_service) h m = None" "gh_push (sv_manifests disk_service) h b = None"
  "gh_create_pull_request (sv_manifests disk_service) h pr = Inr ''/pull/1''" "gh_close (sv_manifests disk_service) h = None"
  by (simp_all add: disk_service_def sample_service_def sample_gh_def)

lemma retag_resolve: "Resolve no_faults cloned_tree ''/w'' ''a'' = Inr [''a'']"
  by (simp add: cloned_tree_def Resolve_def splitManifestPath_def rejectSymlinkPath_def path_comps_def path_clean_def lstat_def
      sample_tree_def entries_below_def is_symlink_def trim_def trim_left_def trim_right_def no_faults_def Let_def)

lemma retag_dir: "path_join [''/w'', ''a''] = ''/w/a''"
  by (simp add: path_join_def path_clean_def)

definition retag_edits :: "action list" where
  "retag_edits = [ResolveDirs ''/w'' ''a'' (Inr [''a'']), CreateBranch (rp_branch retag_plan) None,
     PatchDir ''/w/a'' sample_update None]"

lemma retag_targets:
  assumes "snd (sample_disk h) = cloned_tree" and "sv_directories s = directory_port sample_disk"
  shows "resolveManifestTargets s ''/w'' retag_plan h =
     (Inr (rp_targets retag_plan), h @ [ResolveDirs ''/w'' ''a'' (Inr [''a''])])"
  using assms retag_resolve
  by (simp add: resolveManifestTargets_def retag_plan_def retag_event_def directory_port_def sample_disk_def Let_def
      normalizeManifestTargets_def location_at_def tg_dir_def)

lemma retag_target:
  obtains m where "rp_targets retag_plan = [m]" "tg_dir m = ''a''" "\<And>labels. update_of m (rp_event retag_plan) labels = sample_update"
  by (simp add: retag_plan_def retag_event_def tg_dir_def location_at_def update_of_def Reference_def ref_name_def sample_update_def)

lemma retag_port:
  assumes "snd (sample_disk h) = cloned_tree" and "sv_patcher s = patching_port sample_runtime two_yl (NewPatcher []) sample_disk None"
  shows "sv_patcher s h ''/w/a'' sample_update = None"
  using assms sample_patch by (simp add: patching_port_def sample_disk_def cloned_tree_def)

lemma disk_service_ports:
  "sv_directories disk_service = directory_port sample_disk"
  "sv_patcher disk_service = patching_port sample_runtime two_yl (NewPatcher []) sample_disk None"
  by (simp_all add: disk_service_def)

lemma retag_patch:
  assumes "snd (sample_disk h) = cloned_tree"
  shows "patch_loop disk_service ''/w'' (rp_event retag_plan) labels False (rp_targets retag_plan) h =
     (Inr True, h @ [PatchDir ''/w/a'' sample_update None])"
proof -
  obtain m where "rp_targets retag_plan = [m]" "tg_dir m = ''a''" "update_of m (rp_event retag_plan) labels = sample_update"
    by (rule retag_target) blast
  then show ?thesis using retag_dir retag_port [OF assms disk_service_ports(2)] by (simp add: Let_def)
qed

definition retag_end :: "image_labels \<Rightarrow> rendered_messages \<Rightarrow> action list" where
  "retag_end labels messages = [Push (rp_branch retag_plan) None, CreatePullRequest (pullRequest retag_plan labels messages) (Inr ''/pull/1'')]"

lemma retag_in_checkout:
  assumes "snd (sample_disk h) = cloned_tree"
  shows "in_checkout disk_service retag_plan labels messages ''/w'' h =
    (None, h @ retag_edits @ Commit (rm_commit_message messages) None # retag_end labels messages)"
proof -
  let ?h = "h @ [ResolveDirs ''/w'' ''a'' (Inr [''a'']), CreateBranch (rp_branch retag_plan) None]"
  have "snd (sample_disk ?h) = cloned_tree" using assms by (simp add: sample_disk_def)
  from retag_patch [OF this] show ?thesis
    by (simp add: in_checkout_def retag_targets [OF assms disk_service_ports(1)] disk_service_answers commit_and_push_def push_and_open_def
        create_pull_request_def retag_edits_def retag_end_def Let_def del: patch_loop.simps)
qed

lemma nothing_open: "list_all only_looks h \<Longrightarrow> gh_find_open sample_gh h owner repo head = Inr []"
  by (auto simp: sample_gh_def list_ex_iff list_all_iff split: action.splits sum.splits)

lemma search_finds_nothing:
  "list_all only_looks h \<Longrightarrow> \<exists>h'. find_open_loop sample_gh t bs h = (None, h') \<and> list_all only_looks h'"
  by (induction bs arbitrary: h) (simp_all add: nothing_open Let_def)

lemma replay_looks: "list_all only_looks h \<Longrightarrow> snd (sample_disk h) = cloned_tree"
  unfolding sample_disk_def by (induction h) (auto elim: only_looks.elims)

lemma only_looks_reads: "list_all only_looks tr \<Longrightarrow> reads_back rt yl p D h tr"
  by (induction tr arbitrary: h) (auto split: action.split)

lemma retag_run:
  obtains before where "applyRepository disk_service retag_plan labels messages [] =
     (None, before @ Checkout ''https://github.com/o/r'' (Inr ''/w'') # retag_edits @
       Commit (rm_commit_message messages) None # retag_end labels messages @ [CloseCheckout None])"
    "list_all only_looks before"
proof -
  obtain before where before: "ensureNoOpenPullRequest disk_service retag_plan [] = (None, before)" "list_all only_looks before"
    using search_finds_nothing [of "[]" retag_plan "searched_branches retag_plan"]
    by (auto simp: ensureNoOpenPullRequest_def disk_service_def sample_service_def)
  have url: "ml_repository_url (rp_location retag_plan) = ''https://github.com/o/r''"
    by (simp add: retag_plan_def retag_event_def location_at_def)
  let ?c = "Checkout ''https://github.com/o/r'' (Inr ''/w'')"
  have "snd (sample_disk (before @ [?c])) = cloned_tree" using replay_looks [OF before(2)] by (simp add: sample_disk_def)
  from retag_in_checkout [OF this, of labels messages] before show thesis
    by (intro that [of before]) (simp_all add: applyRepository_def url disk_service_answers Let_def)
qed

lemma retag_reads:
  assumes "list_all only_looks before"
  shows "reads_back sample_runtime two_yl (NewPatcher []) sample_disk []
     (before @ Checkout url (Inr ''/w'') # retag_edits @ Commit message None # retag_end labels messages @ [CloseCheckout None])"
proof -
  let ?h = "before @ [Checkout url (Inr ''/w''), ResolveDirs ''/w'' ''a'' (Inr [''a'']), CreateBranch (rp_branch retag_plan) None]"
  have "sample_disk ?h = (no_faults, cloned_tree)" using replay_looks [OF assms] by (simp add: sample_disk_def)
  then have "Patch sample_runtime two_yl (fst (sample_disk ?h)) (NewPatcher []) (snd (sample_disk ?h)) ''/w/a'' sample_update =
      Some (sample_tree (FFile retagged_file 420), None)"
    "effective two_yl (snd (sample_disk ?h)) (sample_tree (FFile retagged_file 420)) (manifest_path ''/w/a'') sample_update"
    using sample_patch sample_effective by (simp_all add: cloned_tree_def)
  then show ?thesis using only_looks_reads [OF assms] by (simp add: retag_edits_def retag_end_def)
qed

lemma retag_match: "Matches [retag_compiled] retag_event = Inr [\<lparr>mr_compiled = retag_compiled, mr_event = retag_event\<rparr>]"
  by (simp add: Matches_def rule_match_def retag_compiled_def retag_event_def text_eval rule_eval Let_def)

lemma retag_location:
  "Location sample_runtime \<lparr>mr_compiled = retag_compiled, mr_event = retag_event\<rparr> = Inr (location_at ''o'' ''r'' [''a''])"
  by (simp add: Location_def variables_def retag_compiled_def retag_event_def text_eval
      rule_eval Let_def unsafe_capture_def path_marks_def mr_rule_def expandVariables_def
      sample_runtime_def order_by_length_def capture_value_def parseManifestURL_def url_eval
      validateManifestPath_def path_join_def path_clean_def char_of_slash location_at_def)

lemma retag_planned:
  "plan_event sample_runtime [retag_compiled] False retag_event = Inr \<lparr>ep_event = retag_event, ep_repositories = [retag_plan]\<rparr>"
proof -
  let ?m = "\<lparr>mr_compiled = retag_compiled, mr_event = retag_event\<rparr>"
  let ?r = "\<lparr>rp_event = retag_event, rp_location = location_at ''o'' ''r'' [''a''], rp_targets = rp_targets retag_plan,
     rp_env = [], rp_branch = []\<rparr>"
  have event: "ev_repository retag_event = ''a''" "ev_tag retag_event = ''v2''" by (simp_all add: retag_event_def)
  have "ValidateTag ?m = None"
    by (simp add: ValidateTag_def retag_compiled_def retag_event_def tm_empty_def tm_matches_def)
  moreover have "mr_env ?m = ''dev''" by (simp add: mr_env_def mr_rule_def retag_compiled_def)
  ultimately have loop: "plan_loop sample_runtime False retag_event Map.empty [] None [?m] = Inr ([?r], None)"
    by (simp add: retag_location add_target_def retag_plan_def Let_def)
  have branch: "branchFormat ''a'' ''dev'' ''v2'' (take 8 (sha256 sample_runtime s)) = ''image_updater_a_dev_v2_0000000000000000''" for s
    by (simp add: branchFormat_def sample_digest)
  have names: "imageName ''a'' = ''a''" "replace_all ''/'' ''_'' ''a'' = ''a''"
    by (simp_all add: imageName_def trim_def trim_left_def trim_right_def Let_def)
  have valid: "validateBranch ''image_updater_a_dev_v2_0000000000000000'' = None"
    by (simp add: validateBranch_def has_suffix_def contains_any_iff invalidBranchCharacters_def)
  have "finish_repository sample_runtime retag_event ?r = Inr retag_plan"
    by (simp add: finish_repository_def normalizeManifestTargets_def retag_plan_def repositoryBranchName_def branchName_def
        event names branch valid Let_def)
  with retag_match loop show ?thesis by (simp add: plan_event_def)
qed

lemma retag_handled:
  obtains message before where "list_all only_looks before"
    "Handle sample_runtime disk_service retag_event [] =
      (None, before @ Checkout ''https://github.com/o/r'' (Inr ''/w'') # retag_edits @
       Commit message None # retag_end no_labels \<lparr>rm_pull_request_title = ''Update'', rm_pull_request_body = ''Update'', rm_commit_message = message\<rparr> @
         [CloseCheckout None])"
proof -
  let ?m = "\<lparr>rm_pull_request_title = ''Update'', rm_pull_request_body = ''Update'', rm_commit_message = ''Update''\<rparr>"
  obtain before where before: "list_all only_looks before" "applyRepository disk_service retag_plan no_labels ?m [] =
      (None, before @ Checkout ''https://github.com/o/r'' (Inr ''/w'') # retag_edits @
       Commit (rm_commit_message ?m) None # retag_end no_labels ?m @ [CloseCheckout None])"
    by (rule retag_run [of no_labels ?m])
  have "plan_event sample_runtime (sv_rules disk_service) (sv_annotate_from_labels disk_service) retag_event =
      Inr \<lparr>ep_event = retag_event, ep_repositories = [retag_plan]\<rparr>"
    using retag_planned by (simp add: disk_service_def sample_service_def)
  moreover have "imageLabels sample_runtime disk_service e h = (no_labels, h)" for e h
    by (simp add: imageLabels_def disk_service_def sample_service_def)
  moreover have "render (sv_messages disk_service) d = Inr ?m" for d
    using sample_messages_rendered by (simp add: disk_service_def)
  ultimately show thesis
    using before by (intro that [of before "''Update''"]) (simp_all add: Handle_def apply_plan_def render_repository_def)
qed


end
