(* ===== verification/Registry.thy ===== *)
theory Registry
  imports Labels
begin

text \<open>
  The adapters of \<open>internal/infrastructure/registry\<close> around the OCI client: the decoder of ECR events
  (\<open>ecr/decoder.go\<close>), the authenticator with its cached token (\<open>ecr/authenticator.go\<close>), and the router by
  registry kind (\<open>router.go\<close>). What \<open>encoding/json\<close> and \<open>time.Parse\<close> read from a text is a parameter; the
  clock and the answers of AWS are observations.
\<close>

section \<open>The event decoder\<close>

record push_event =
  pe_account :: string
  pe_region :: string
  pe_time :: string
  pe_action_type :: string
  pe_result :: string
  pe_repository_name :: string
  pe_image_tag :: string
  pe_image_digest :: string

record event_lib =
  el_unmarshal :: "string \<Rightarrow> (go_error, push_event) result"
  el_rfc3339 :: "string \<Rightarrow> int option"

text \<open>The zero \<open>time.Time\<close>, in nanoseconds since 1970.\<close>

definition zero_time :: int where "zero_time = - 62135596800 * 1000000000"

text \<open>
  \<open>strings.EqualFold\<close> against a text in ASCII: the fold of a letter has both cases and, for k and s,
  one character beyond ASCII.
\<close>

definition fold_rune :: "nat \<Rightarrow> nat" where
  "fold_rune r = (if 65 \<le> r \<and> r \<le> 90 then r + 32 else if r = 0x212A then 107 else if r = 0x17F then 115 else r)"

definition equal_fold_ascii :: "string \<Rightarrow> string \<Rightarrow> bool" where
  "equal_fold_ascii s t \<longleftrightarrow> map fold_rune (runes s) = map fold_rune (runes t)"

definition actionPush :: string where "actionPush = ''PUSH''"
definition actionReplicate :: string where "actionReplicate = ''REPLICATE''"
definition resultSuccess :: string where "resultSuccess = ''SUCCESS''"

definition isArrival :: "string \<Rightarrow> bool" where
  "isArrival action \<longleftrightarrow> equal_fold_ascii action actionPush \<or> equal_fold_ascii action actionReplicate"

definition Host :: "string \<Rightarrow> string \<Rightarrow> string" where
  "Host account region = account @ ''.dkr.ecr.'' @ region @ ''.amazonaws.com''"

definition Decode :: "event_lib \<Rightarrow> string \<Rightarrow> (go_error, image_push_event) result" where
  "Decode lib text =
     (case el_unmarshal lib text of
        Inl err \<Rightarrow> Inl (Errorf ''failed to unmarshal the ECR event: %w'' [] [err])
      | Inr raw \<Rightarrow>
          if pe_action_type raw \<noteq> [] \<and> \<not> isArrival (pe_action_type raw)
          then Inl (Errorf ''%w: action-type is %q'' [AStr (pe_action_type raw)] [Sentinel ErrEventIgnored])
          else if pe_result raw \<noteq> [] \<and> \<not> equal_fold_ascii (pe_result raw) resultSuccess
          then Inl (Errorf ''%w: result is %q'' [AStr (pe_result raw)] [Sentinel ErrEventIgnored])
          else
            let repository = trim ''/'' (trim_space (pe_repository_name raw)); tag = trim_space (pe_image_tag raw) in
            if repository = [] \<or> tag = []
            then Inl (Errorf ''%w: the event carries no repository name or image tag'' [] [Sentinel ErrEventIgnored])
            else if pe_account raw = [] \<or> pe_region raw = []
            then Inl (ErrorsNew ''the ECR event carries no account or region'')
            else Inr \<lparr>ev_kind = RegistryECR, ev_host = Host (pe_account raw) (pe_region raw), ev_repository = repository,
              ev_tag = tag, ev_digest = pe_image_digest raw,
              ev_occurred_at = (case el_rfc3339 lib (pe_time raw) of None \<Rightarrow> zero_time | Some t \<Rightarrow> t)\<rparr>)"

section \<open>The authenticator\<close>

definition tokenSkew :: int where "tokenSkew = 5 * 60 * 1000000000"
definition tokenFallbackTTL :: int where "tokenFallbackTTL = 60 * 60 * 1000000000"

record authorization_data =
  ad_token :: "string option"
  ad_expires_at :: "int option"

record authenticator =
  au_token :: string
  au_expires_at :: int

definition NewAuthenticator :: authenticator where
  "NewAuthenticator = \<lparr>au_token = [], au_expires_at = zero_time\<rparr>"

definition basic :: "string \<Rightarrow> string" where
  "basic token = ''Basic '' @ token"

text \<open>
  One call: the clock when the cached token is looked at, the answer of the API when it is asked, and the
  clock after it. The mutex makes the calls of a process a sequence.
\<close>

record auth_call =
  ac_now :: int
  ac_answer :: "(go_error, authorization_data list) result"
  ac_later :: int

definition AuthHeader :: "auth_call \<Rightarrow> authenticator \<Rightarrow> (go_error, string) result \<times> authenticator" where
  "AuthHeader c a =
     (if au_token a \<noteq> [] \<and> ac_now c < au_expires_at a then (Inr (basic (au_token a)), a)
      else (case ac_answer c of
          Inl err \<Rightarrow> (Inl (Errorf ''failed to get an ECR authorization token: %w'' [] [err]), a)
        | Inr [] \<Rightarrow> (Inl (ErrorsNew ''ECR returned no authorization data''), a)
        | Inr (d # ds) \<Rightarrow>
            (case ad_token d of
               None \<Rightarrow> (Inl (ErrorsNew ''ECR returned no authorization data''), a)
             | Some token \<Rightarrow>
                 let expiresAt = (case ad_expires_at d of None \<Rightarrow> ac_later c + tokenFallbackTTL | Some e \<Rightarrow> e - tokenSkew)
                 in (Inr (basic token), \<lparr>au_token = token, au_expires_at = expiresAt\<rparr>))))"

fun auth_calls :: "authenticator \<Rightarrow> auth_call list \<Rightarrow> authenticator" where
  "auth_calls a [] = a"
| "auth_calls a (c # cs) = auth_calls (snd (AuthHeader c a)) cs"

section \<open>The router\<close>

type_synonym 'r router = "(registry_kind \<times> 'r) list"   \<comment> \<open>a map, with distinct keys\<close>

definition NewRouter :: "(registry_kind \<times> 'r) list \<Rightarrow> 'r router" where
  "NewRouter resolvers = resolvers"

definition Kinds :: "'r router \<Rightarrow> registry_kind list" where
  "Kinds r = sort (map fst r)"

definition RouterResolve ::
    "('h \<Rightarrow> image_reference \<Rightarrow> (go_error, image_metadata) result) router \<Rightarrow> 'h \<Rightarrow> image_reference \<Rightarrow>
     (go_error, image_metadata) result" where
  "RouterResolve r h ref =
     (case map_of r (ref_kind ref) of
        None \<Rightarrow> Inl (Errorf ''%w: %q'' [AStr (ref_kind ref)] [Sentinel ErrUnsupportedRegistry])
      | Some resolver \<Rightarrow> resolver h ref)"

lemma Kinds_resolved: "ref_kind ref \<in> set (Kinds r) \<Longrightarrow> \<exists>resolver\<in>set (map snd r). RouterResolve r h ref = resolver h ref"
  by (force simp: Kinds_def RouterResolve_def map_of_eq_None_iff dest: map_of_SomeD split: option.splits)

section \<open>A token in the cache\<close>

text \<open>The token a call would fetch, with the time until which it is used.\<close>

definition fetched :: "auth_call \<Rightarrow> (string \<times> int) option" where
  "fetched c = (case ac_answer c of
     Inr (d # ds) \<Rightarrow> map_option (\<lambda>token. (token,
       case ad_expires_at d of None \<Rightarrow> ac_later c + tokenFallbackTTL | Some e \<Rightarrow> e - tokenSkew)) (ad_token d)
   | _ \<Rightarrow> None)"

definition cached_from :: "auth_call list \<Rightarrow> authenticator \<Rightarrow> bool" where
  "cached_from cs a \<longleftrightarrow> au_token a = [] \<or> (\<exists>c\<in>set cs. fetched c = Some (au_token a, au_expires_at a))"

lemma AuthHeader_cases:
  obtains (reused) "AuthHeader c a = (Inr (basic (au_token a)), a)" "au_token a \<noteq> []" "ac_now c < au_expires_at a"
  | (refused) e where "AuthHeader c a = (Inl e, a)"
  | (renewed) token expires where "AuthHeader c a = (Inr (basic token), \<lparr>au_token = token, au_expires_at = expires\<rparr>)"
      "fetched c = Some (token, expires)"
proof (cases "au_token a \<noteq> [] \<and> ac_now c < au_expires_at a")
  case True
  then show ?thesis by (intro reused) (simp_all add: AuthHeader_def)
next
  case False
  show ?thesis
  proof (cases "fetched c")
    case None
    then have "\<exists>e. AuthHeader c a = (Inl e, a)"
      using False by (auto simp: AuthHeader_def fetched_def split: sum.splits list.splits option.splits)
    then show ?thesis using refused by blast
  next
    case (Some te)
    then have "AuthHeader c a = (Inr (basic (fst te)), \<lparr>au_token = fst te, au_expires_at = snd te\<rparr>)"
      using False by (auto simp: AuthHeader_def fetched_def Let_def split: sum.splits list.splits option.splits)
    with Some show ?thesis by (intro renewed [of "fst te" "snd te"]) simp_all
  qed
qed

lemma AuthHeader_cached: "cached_from cs a \<Longrightarrow> cached_from (cs @ [c]) (snd (AuthHeader c a))"
  by (rule AuthHeader_cases [of c a]) (auto simp: cached_from_def)

lemma auth_calls_cached: "cached_from cs a \<Longrightarrow> cached_from (cs @ ds) (auth_calls a ds)"
proof (induction ds arbitrary: cs a)
  case (Cons d ds)
  from Cons.IH [OF AuthHeader_cached [OF Cons.prems, of d]] show ?case by simp
qed simp

section \<open>Properties\<close>

text \<open>
  C39. An event that is decoded can be used: it names an ECR registry, a repository without a slash at its
  ends and a tag, and neither is empty; a payload about anything other than a successful arrival is
  ignored; and no error of the decoder asks for a retry, so an unreadable message does not come back.
\<close>
theorem Decode_usable:
  assumes "case el_unmarshal lib text of Inl err \<Rightarrow> \<not> errors_is ErrRetryable err | Inr raw \<Rightarrow> True"
  shows "case Decode lib text of
      Inl e \<Rightarrow> \<not> errors_is ErrRetryable e
    | Inr event \<Rightarrow> ev_kind event = RegistryECR \<and> ev_tag event \<noteq> [] \<and> ev_repository event \<noteq> [] \<and>
        hd (ev_repository event) \<noteq> CHR ''/'' \<and> last (ev_repository event) \<noteq> CHR ''/'' \<and>
        (case el_unmarshal lib text of Inl err \<Rightarrow> False
         | Inr raw \<Rightarrow> ev_host event = Host (pe_account raw) (pe_region raw) \<and> pe_account raw \<noteq> [] \<and> pe_region raw \<noteq> [] \<and>
            (pe_action_type raw = [] \<or> isArrival (pe_action_type raw)) \<and>
            (pe_result raw = [] \<or> equal_fold_ascii (pe_result raw) resultSuccess))"
proof -
  have ends: "hd (trim ''/'' s) \<noteq> CHR ''/'' \<and> last (trim ''/'' s) \<noteq> CHR ''/''" if "trim ''/'' s \<noteq> []" for s
    using that trim_ends [of "''/''" s] by simp
  then show ?thesis using assms by (auto simp: Decode_def Let_def split: sum.splits)
qed

text \<open>
  C38. The cached token is never used beyond its time: whatever calls were made before, a header carries
  the token that this call has fetched, or one that an earlier call fetched and whose time, five minutes
  before its expiry or an hour after it was fetched, has not come; and a failed call keeps the cache.
\<close>
theorem AuthHeader_fresh:
  "case AuthHeader c (auth_calls NewAuthenticator cs) of
     (Inl e, a) \<Rightarrow> a = auth_calls NewAuthenticator cs
   | (Inr header, a) \<Rightarrow> (\<exists>token expires. header = basic token \<and>
       (fetched c = Some (token, expires) \<or> (ac_now c < expires \<and> Some (token, expires) \<in> fetched ` set cs)))"
proof -
  let ?a = "auth_calls NewAuthenticator cs"
  have "cached_from ([] @ cs) ?a" by (rule auth_calls_cached) (simp add: cached_from_def NewAuthenticator_def)
  then show ?thesis
    by (cases rule: AuthHeader_cases [of c ?a]) (force simp: cached_from_def)+
qed

section \<open>A text to evaluate\<close>

definition sample_event_lib :: event_lib where
  "sample_event_lib = \<lparr>el_unmarshal = (\<lambda>s. if s = [] then Inl (ErrorsNew ''unexpected end of JSON input'') else
     Inr \<lparr>pe_account = ''1'', pe_region = ''r'', pe_time = [], pe_action_type = ''push'', pe_result = [],
       pe_repository_name = ''/a/x/'', pe_image_tag = ''v1'', pe_image_digest = []\<rparr>), el_rfc3339 = (\<lambda>s. None)\<rparr>"

theorem Decode_usable_witness:
  "case Decode sample_event_lib ''{}'' of
      Inl e \<Rightarrow> \<not> errors_is ErrRetryable e
    | Inr event \<Rightarrow> ev_kind event = RegistryECR \<and> ev_host event = Host ''1'' ''r''"
  using Decode_usable [of sample_event_lib "''{}''"] by (auto simp: sample_event_lib_def split: sum.splits)

end
