(* ===== verification/Oci.thy ===== *)
theory Oci
  imports Labels
begin

text \<open>
  \<open>internal/infrastructure/registry/oci\<close>: reading the labels and the size of an image over the OCI
  distribution API (\<open>manifest.go\<close>, \<open>client.go\<close>). An HTTP exchange is a function of the requests made so
  far, so a registry may answer differently each time; what \<open>encoding/json\<close> decodes from the bytes of a
  body is a parameter. Of a body only the bytes within the limit reach the decoder. A body that breaks
  off is one that does not decode.
\<close>

section \<open>Manifests\<close>

record platform =
  pl_os :: string
  pl_architecture :: string

record descriptor =
  de_media_type :: string
  de_digest :: string
  de_size :: int
  de_platform :: "platform option"

record manifest =
  mf_media_type :: string
  mf_config :: descriptor
  mf_layers :: "descriptor list"
  mf_manifests :: "descriptor list"

record image_config =
  ic_labels :: "(string \<times> string) list option"

definition unknownPlatform :: string where "unknownPlatform = ''unknown''"
definition preferredOS :: string where "preferredOS = ''linux''"
definition preferredArchitecture :: string where "preferredArchitecture = ''amd64''"

definition isAttestation :: "descriptor \<Rightarrow> bool" where
  "isAttestation d = (case de_platform d of None \<Rightarrow> False
     | Some p \<Rightarrow> pl_os p = unknownPlatform \<or> pl_architecture p = unknownPlatform)"

definition isPreferredPlatform :: "descriptor \<Rightarrow> bool" where
  "isPreferredPlatform d = (case de_platform d of None \<Rightarrow> False
     | Some p \<Rightarrow> pl_os p = preferredOS \<and> pl_architecture p = preferredArchitecture)"

fun digest_loop :: "string \<Rightarrow> descriptor list \<Rightarrow> string \<times> bool" where
  "digest_loop fallback [] = (fallback, fallback \<noteq> [])"
| "digest_loop fallback (entry # entries) =
     (if de_digest entry = [] \<or> isAttestation entry then digest_loop fallback entries
      else if isPreferredPlatform entry then (de_digest entry, True)
      else digest_loop (if fallback = [] then de_digest entry else fallback) entries)"

definition imageDigest :: "manifest \<Rightarrow> string \<times> bool" where
  "imageDigest m =
     (if de_digest (mf_config m) \<noteq> [] \<or> mf_manifests m = [] then ([], False)
      else digest_loop [] (mf_manifests m))"

text \<open>The sum wraps around as \<open>int64\<close> does.\<close>

definition int64_of :: "int \<Rightarrow> int" where
  "int64_of n = (n + 2 ^ 63) mod 2 ^ 64 - 2 ^ 63"

definition manifest_size :: "manifest \<Rightarrow> int" where
  "manifest_size m = foldl (\<lambda>total layer. int64_of (total + de_size layer)) 0 (mf_layers m)"

section \<open>What goes into a URL\<close>

definition lower_letters :: string where "lower_letters = ''abcdefghijklmnopqrstuvwxyz''"
definition upper_letters :: string where "upper_letters = ''ABCDEFGHIJKLMNOPQRSTUVWXYZ''"
definition digits :: string where "digits = ''0123456789''"

definition contains_rune :: "string \<Rightarrow> nat \<Rightarrow> bool" where
  "contains_rune s r \<longleftrightarrow> r \<in> set (runes s)"

fun unsupported_rune :: "string \<Rightarrow> nat list \<Rightarrow> nat option" where
  "unsupported_rune allowed [] = None"
| "unsupported_rune allowed (r # rs) = (if contains_rune allowed r then unsupported_rune allowed rs else Some r)"

definition validatePathComponent :: "string \<Rightarrow> string \<Rightarrow> string \<Rightarrow> go_error option" where
  "validatePathComponent name value allowed =
     (if value = [] then Some (Errorf ''image reference has no %s'' [AStr name] [])
      else if contains_any [CHR 0x00] value then Some (Errorf ''image %s contains a control character'' [AStr name] [])
      else (case unsupported_rune allowed (runes value) of
          Some r \<Rightarrow> Some (Errorf ''image %s %q contains the unsupported character %q'' [AStr name, AStr value, AInt (int r)] [])
        | None \<Rightarrow>
            if contains ''..'' value
            then Some (Errorf ''image %s %q contains a path traversal'' [AStr name, AStr value] [])
            else None))"

definition validateReference :: "image_reference \<Rightarrow> go_error option" where
  "validateReference ref =
     (if ref_host ref = [] then Some (ErrorsNew ''image reference has no registry host'')
      else (case validatePathComponent ''repository'' (ref_repository ref) (lower_letters @ upper_letters @ digits @ ''._-/'') of
          Some err \<Rightarrow> Some err
        | None \<Rightarrow> validatePathComponent ''tag'' (ref_tag ref) (lower_letters @ upper_letters @ digits @ ''._-'')))"

definition validateDigest :: "string \<Rightarrow> go_error option" where
  "validateDigest digest =
     (if CHR '':'' \<notin> set digest then Some (Errorf ''digest %q carries no algorithm'' [AStr digest] [])
      else (case validatePathComponent ''digest algorithm'' (before_char (CHR '':'') digest) (lower_letters @ digits @ ''+.-_'') of
          Some err \<Rightarrow> Some err
        | None \<Rightarrow> validatePathComponent ''digest'' (after_char (CHR '':'') digest) (lower_letters @ upper_letters @ digits @ ''=_-'')))"

section \<open>Requests\<close>

record http_request =
  hr_url :: string
  hr_authorization :: string
  hr_accept :: string

record http_response =
  hs_status :: int
  hs_body :: string

text \<open>What is left of a body behind the first value: nothing, another value, or something else.\<close>

datatype json_rest = JsonEOF | JsonValue | JsonBroken go_error

text \<open>
  \<open>rl_request\<close> is \<open>http.NewRequestWithContext\<close> on a URL; \<open>rl_manifest\<close>, \<open>rl_config\<close> decode the first
  value of a text, with what follows it.
\<close>

record registry_lib =
  rl_request :: "string \<Rightarrow> go_error option"
  rl_do :: "http_request list \<Rightarrow> http_request \<Rightarrow> (go_error, http_response) result"
  rl_manifest :: "string \<Rightarrow> (go_error, manifest \<times> string) result"
  rl_config :: "string \<Rightarrow> (go_error, image_config \<times> string) result"
  rl_rest :: "string \<Rightarrow> json_rest"

record oci_client =
  oc_auth :: "image_reference \<Rightarrow> (go_error, string) result"
  oc_scheme :: string
  oc_timeout :: int

definition defaultScheme :: string where "defaultScheme = ''https''"
definition defaultTimeout :: int where "defaultTimeout = 30 * 1000000000"
definition maxBlobSize :: nat where "maxBlobSize = 4 * 2 ^ 20"

definition WithScheme :: "string \<Rightarrow> oci_client \<Rightarrow> oci_client" where
  "WithScheme scheme c = (if scheme \<noteq> [] then c\<lparr>oc_scheme := scheme\<rparr> else c)"

definition WithTimeout :: "int \<Rightarrow> oci_client \<Rightarrow> oci_client" where
  "WithTimeout timeout c = (if 0 < timeout then c\<lparr>oc_timeout := timeout\<rparr> else c)"

definition NewClient :: "(image_reference \<Rightarrow> (go_error, string) result) \<Rightarrow> (oci_client \<Rightarrow> oci_client) list \<Rightarrow> oci_client" where
  "NewClient auth opts =
     foldl (\<lambda>client opt. opt client) \<lparr>oc_auth = auth, oc_scheme = defaultScheme, oc_timeout = defaultTimeout\<rparr> opts"

definition too_large :: go_error where
  "too_large = Errorf ''registry response exceeds the %d byte limit'' [AInt (int maxBlobSize)] []"

definition decode_error :: "go_error \<Rightarrow> go_error" where
  "decode_error err = Errorf ''%w: %w'' [] [Sentinel ErrDecodeResponse, err]"

text \<open>
  The decoding half of \<open>getJSON\<close>: the reader passes one byte more than the limit, and it is empty at the
  end exactly when the body has that many.
\<close>

definition decode_limited :: "(string \<Rightarrow> (go_error, 'a \<times> string) result) \<Rightarrow> (string \<Rightarrow> json_rest) \<Rightarrow> string \<Rightarrow> (go_error, 'a) result" where
  "decode_limited first_value rest_of body =
     (let limited = take (maxBlobSize + 1) body; exceeded = (maxBlobSize < length body) in
      case first_value limited of
        Inl err \<Rightarrow> if exceeded then Inl too_large else Inl (decode_error err)
      | Inr (value, rest) \<Rightarrow>
          (case rest_of rest of
             JsonValue \<Rightarrow> if exceeded then Inl too_large
               else Inl (Errorf ''%w: response contains more than one JSON value'' [] [Sentinel ErrDecodeResponse])
           | JsonBroken err \<Rightarrow> if exceeded then Inl too_large else Inl (decode_error err)
           | JsonEOF \<Rightarrow> if exceeded then Inl too_large else Inr value))"

definition getJSON ::
    "registry_lib \<Rightarrow> (string \<Rightarrow> (go_error, 'a \<times> string) result) \<Rightarrow> string \<Rightarrow> string \<Rightarrow> string \<Rightarrow> http_request list \<Rightarrow>
     (go_error, 'a) result \<times> http_request list" where
  "getJSON lib first_value url authHeader accept h =
     (case rl_request lib url of
        Some err \<Rightarrow> (Inl (Errorf ''failed to build the request: %w'' [] [err]), h)
      | None \<Rightarrow>
          let req = \<lparr>hr_url = url, hr_authorization = authHeader, hr_accept = accept\<rparr>; h' = h @ [req] in
          (case rl_do lib h req of
             Inl err \<Rightarrow> (Inl err, h')
           | Inr resp \<Rightarrow>
               if hs_status resp \<noteq> 200 then (Inl (Errorf ''unexpected status code: %d'' [AInt (hs_status resp)] []), h')
               else (decode_limited first_value (rl_rest lib) (hs_body resp), h')))"

definition manifest_accept :: string where
  "manifest_accept = join_with '', '' [''application/vnd.oci.image.manifest.v1+json'', ''application/vnd.oci.image.index.v1+json'',
     ''application/vnd.docker.distribution.manifest.v2+json'', ''application/vnd.docker.distribution.manifest.list.v2+json'']"

definition registry_url :: "oci_client \<Rightarrow> image_reference \<Rightarrow> string \<Rightarrow> string \<Rightarrow> string" where
  "registry_url c ref kind reference =
     oc_scheme c @ ''://'' @ ref_host ref @ ''/v2/'' @ ref_repository ref @ ''/'' @ kind @ ''/'' @ reference"

definition fetch_manifest ::
    "registry_lib \<Rightarrow> oci_client \<Rightarrow> image_reference \<Rightarrow> string \<Rightarrow> string \<Rightarrow> http_request list \<Rightarrow>
     (go_error, manifest) result \<times> http_request list" where
  "fetch_manifest lib c ref authHeader reference h =
     (case getJSON lib (rl_manifest lib) (registry_url c ref ''manifests'' reference) authHeader manifest_accept h of
        (Inl err, h') \<Rightarrow>
          if errors_is ErrDecodeResponse err
          then (Inl (Errorf ''failed to parse the manifest of %s: %w'' [AStr (ref_string ref)] [err]), h')
          else (Inl (Errorf ''failed to fetch the manifest of %s: %w'' [AStr (ref_string ref)] [err]), h')
      | (Inr parsed, h') \<Rightarrow> (Inr parsed, h'))"

definition imageConfig ::
    "registry_lib \<Rightarrow> oci_client \<Rightarrow> image_reference \<Rightarrow> string \<Rightarrow> string \<Rightarrow> http_request list \<Rightarrow>
     (go_error, image_config) result \<times> http_request list" where
  "imageConfig lib c ref authHeader digest h =
     (case validateDigest digest of
        Some err \<Rightarrow> (Inl err, h)
      | None \<Rightarrow>
          (case getJSON lib (rl_config lib) (registry_url c ref ''blobs'' digest) authHeader ''*/*'' h of
             (Inl err, h') \<Rightarrow>
               if errors_is ErrDecodeResponse err
               then (Inl (Errorf ''failed to parse the config blob of %s: %w'' [AStr (ref_string ref)] [err]), h')
               else (Inl (Errorf ''failed to fetch the config blob of %s: %w'' [AStr (ref_string ref)] [err]), h')
           | (Inr parsed, h') \<Rightarrow> (Inr parsed, h')))"

text \<open>The step from an index to the manifest of a platform, and the rest.\<close>

definition follow_index ::
    "registry_lib \<Rightarrow> oci_client \<Rightarrow> image_reference \<Rightarrow> string \<Rightarrow> manifest \<Rightarrow> http_request list \<Rightarrow>
     (go_error, manifest) result \<times> http_request list" where
  "follow_index lib c ref header m h =
     (case imageDigest m of
        (digest, False) \<Rightarrow> (Inr m, h)
      | (digest, True) \<Rightarrow> (case validateDigest digest of
            Some err \<Rightarrow> (Inl err, h)
          | None \<Rightarrow> fetch_manifest lib c ref header digest h))"

definition ResolveImage ::
    "registry_lib \<Rightarrow> oci_client \<Rightarrow> image_reference \<Rightarrow> http_request list \<Rightarrow> (go_error, image_metadata) result \<times> http_request list" where
  "ResolveImage lib c ref h =
     (case validateReference ref of
        Some err \<Rightarrow> (Inl err, h)
      | None \<Rightarrow>
          (case oc_auth c ref of
             Inl err \<Rightarrow> (Inl (Errorf ''failed to authenticate against %s: %w'' [AStr (ref_host ref)] [err]), h)
           | Inr header \<Rightarrow>
               (case fetch_manifest lib c ref header (ref_tag ref) h of
                  (Inl err, h1) \<Rightarrow> (Inl err, h1)
                | (Inr m1, h1) \<Rightarrow>
                    (case follow_index lib c ref header m1 h1 of
                       (Inl err, h2) \<Rightarrow> (Inl err, h2)
                     | (Inr m, h2) \<Rightarrow>
                         if de_digest (mf_config m) = []
                         then (Inl (Errorf ''manifest of %s carries no config descriptor'' [AStr (ref_string ref)] []), h2)
                         else (case imageConfig lib c ref header (de_digest (mf_config m)) h2 of
                             (Inl err, h3) \<Rightarrow> (Inl err, h3)
                           | (Inr config, h3) \<Rightarrow>
                               (Inr \<lparr>md_labels = (case ic_labels config of None \<Rightarrow> [] | Some labels \<Rightarrow> labels),
                                  md_uri = ref_string ref, md_size_bytes = manifest_size m\<rparr>, h3))))))"

section \<open>What a validated text looks like\<close>

definition reference_char :: "char \<Rightarrow> bool" where
  "reference_char ch \<longleftrightarrow> ch \<in> set (lower_letters @ upper_letters @ digits @ ''._-+=:'')"

lemma alphabet_ascii: "ascii (lower_letters @ upper_letters @ digits @ ''._-/+=:'')"
  by (simp add: ascii_def lower_letters_def upper_letters_def digits_def byte_def)

lemma unsupported_rune_None: "unsupported_rune allowed rs = None \<longleftrightarrow> set rs \<subseteq> set (runes allowed)"
  by (induction rs) (auto simp: contains_rune_def)

lemma validatePathComponent_None:
  assumes "validatePathComponent name value allowed = None" "ascii allowed"
  shows "value \<noteq> [] \<and> set value \<subseteq> set allowed \<and> \<not> contains ''..'' value"
proof -
  have v: "value \<noteq> []" "unsupported_rune allowed (runes value) = None" "\<not> contains ''..'' value"
    using assms(1) by (auto simp: validatePathComponent_def split: if_splits option.splits)
  have "runes allowed = map byte allowed" using assms(2) by (rule runes_ascii)
  then have runes: "set (runes value) \<subseteq> byte ` set allowed" using v(2) by (simp add: unsupported_rune_None)
  have "byte ch < 128" if "ch \<in> set allowed" for ch using that assms(2) by (simp add: ascii_def list_all_iff)
  with runes have "\<forall>r\<in>set (runes value). r < 128" by auto
  then have "runes value = map byte value" by (rule runes_all_ascii [THEN conjunct2])
  with runes have "byte ` set value \<subseteq> byte ` set allowed" by simp
  then have "set value \<subseteq> set allowed" by (auto simp: byte_eq_iff image_iff)
  with v show ?thesis by simp
qed

definition safe_reference :: "string \<Rightarrow> bool" where
  "safe_reference x \<longleftrightarrow> x \<noteq> [] \<and> list_all reference_char x \<and> x \<noteq> ''..''"

lemma ascii_alphabets:
  "ascii (lower_letters @ upper_letters @ digits @ ''._-/'')" "ascii (lower_letters @ upper_letters @ digits @ ''._-'')"
  "ascii (lower_letters @ digits @ ''+.-_'')" "ascii (lower_letters @ upper_letters @ digits @ ''=_-'')"
  by (simp_all add: ascii_def lower_letters_def upper_letters_def digits_def byte_def)

definition repository_char :: "char \<Rightarrow> bool" where
  "repository_char ch \<longleftrightarrow> ch \<in> set (lower_letters @ upper_letters @ digits @ ''._-/'')"

lemma validateReference_None:
  assumes "validateReference ref = None"
  shows "ref_host ref \<noteq> [] \<and> ref_repository ref \<noteq> [] \<and> list_all repository_char (ref_repository ref) \<and>
    \<not> contains ''..'' (ref_repository ref) \<and> safe_reference (ref_tag ref)"
proof -
  have parts: "ref_host ref \<noteq> []"
    "validatePathComponent ''repository'' (ref_repository ref) (lower_letters @ upper_letters @ digits @ ''._-/'') = None"
    "validatePathComponent ''tag'' (ref_tag ref) (lower_letters @ upper_letters @ digits @ ''._-'') = None"
    using assms by (auto simp: validateReference_def split: if_splits option.splits)
  from validatePathComponent_None [OF parts(2) ascii_alphabets(1)] validatePathComponent_None [OF parts(3) ascii_alphabets(2)] parts(1)
  show ?thesis by (auto simp: list_all_iff repository_char_def reference_char_def safe_reference_def)
qed

lemma validateDigest_None:
  assumes "validateDigest digest = None"
  shows "safe_reference digest"
proof -
  have colon: "CHR '':'' \<in> set digest"
    and alg: "validatePathComponent ''digest algorithm'' (before_char (CHR '':'') digest) (lower_letters @ digits @ ''+.-_'') = None"
    and enc: "validatePathComponent ''digest'' (after_char (CHR '':'') digest) (lower_letters @ upper_letters @ digits @ ''=_-'') = None"
    using assms by (auto simp: validateDigest_def split: if_splits option.splits)
  have "digest = before_char (CHR '':'') digest @ CHR '':'' # after_char (CHR '':'') digest"
    using colon by (rule before_after_char [symmetric])
  then have "set digest = insert (CHR '':'') (set (before_char (CHR '':'') digest) \<union> set (after_char (CHR '':'') digest))"
    by (metis Un_insert_right list.set(2) set_append)
  with validatePathComponent_None [OF alg ascii_alphabets(3)] validatePathComponent_None [OF enc ascii_alphabets(4)]
  have "list_all reference_char digest" by (auto simp: list_all_iff reference_char_def)
  moreover have "digest \<noteq> ''..''" using colon by auto
  ultimately show ?thesis using colon by (auto simp: safe_reference_def)
qed

section \<open>What is sent\<close>

definition request_ok :: "oci_client \<Rightarrow> image_reference \<Rightarrow> http_request \<Rightarrow> bool" where
  "request_ok c ref rq \<longleftrightarrow> validateReference ref = None \<and> oc_auth c ref = Inr (hr_authorization rq) \<and>
     (\<exists>kind\<in>{''manifests'', ''blobs''}. \<exists>x. safe_reference x \<and> hr_url rq = registry_url c ref kind x)"

definition sends :: "nat \<Rightarrow> (http_request \<Rightarrow> bool) \<Rightarrow> http_request list \<Rightarrow> http_request list \<Rightarrow> bool" where
  "sends n P h h' \<longleftrightarrow> (\<exists>tr. h' = h @ tr \<and> length tr \<le> n \<and> list_all P tr)"

lemma sends_none [simp]: "sends n P h h"
  by (simp add: sends_def)

lemma sends_then: "sends m P h h1 \<Longrightarrow> sends n P h1 h2 \<Longrightarrow> sends (m + n) P h h2"
  by (fastforce simp: sends_def)

lemma sends_more: "sends m P h h1 \<Longrightarrow> m \<le> n \<Longrightarrow> sends n P h h1"
  by (fastforce simp: sends_def)

lemma getJSON_sends:
  assumes "getJSON lib f (registry_url c ref kind x) header accept h = (r, h')"
    and "validateReference ref = None" "oc_auth c ref = Inr header" "kind \<in> {''manifests'', ''blobs''}" "safe_reference x"
  shows "sends 1 (request_ok c ref) h h'"
  using assms by (auto simp: getJSON_def Let_def sends_def request_ok_def split: option.splits sum.splits if_splits)

lemma fetch_manifest_sends:
  assumes "fetch_manifest lib c ref header x h = (r, h')"
    and "validateReference ref = None" "oc_auth c ref = Inr header" "safe_reference x"
  shows "sends 1 (request_ok c ref) h h'"
proof -
  obtain r1 where "getJSON lib (rl_manifest lib) (registry_url c ref ''manifests'' x) header manifest_accept h = (r1, h')"
    using assms(1) by (auto simp: fetch_manifest_def split: prod.splits sum.splits if_splits)
  from getJSON_sends [OF this assms(2,3) _ assms(4)] show ?thesis by simp
qed

lemma imageConfig_sends:
  assumes "imageConfig lib c ref header digest h = (r, h')"
    and "validateReference ref = None" "oc_auth c ref = Inr header"
  shows "sends 1 (request_ok c ref) h h'"
proof (cases "validateDigest digest")
  case None
  then obtain r1 where "getJSON lib (rl_config lib) (registry_url c ref ''blobs'' digest) header ''*/*'' h = (r1, h')"
    using assms(1) by (auto simp: imageConfig_def split: prod.splits sum.splits if_splits)
  from getJSON_sends [OF this assms(2,3) _ validateDigest_None [OF None]] show ?thesis by simp
next
  case (Some err)
  with assms(1) show ?thesis by (auto simp: imageConfig_def)
qed

lemma follow_index_sends:
  assumes "follow_index lib c ref header m h = (r, h')" "validateReference ref = None" "oc_auth c ref = Inr header"
  shows "sends 1 (request_ok c ref) h h'"
  using assms fetch_manifest_sends [OF _ assms(2,3) validateDigest_None]
  by (fastforce simp: follow_index_def split: prod.splits option.splits bool.splits)

lemma ResolveImage_sends:
  assumes "ResolveImage lib c ref h = (r, h')"
  shows "sends 3 (request_ok c ref) h h'"
proof (cases "validateReference ref")
  case (Some err)
  with assms show ?thesis by (auto simp: ResolveImage_def)
next
  case valid: None
  show ?thesis
  proof (cases "oc_auth c ref")
    case (Inl err)
    with assms valid show ?thesis by (auto simp: ResolveImage_def)
  next
    case auth: (Inr header)
    obtain r1 h1 where one: "fetch_manifest lib c ref header (ref_tag ref) h = (r1, h1)" by fastforce
    have sent1: "sends 1 (request_ok c ref) h h1"
      using fetch_manifest_sends [OF one valid auth] validateReference_None [OF valid] by simp
    show ?thesis
    proof (cases r1)
      case (Inl err)
      with assms valid auth one sent1 show ?thesis by (auto simp: ResolveImage_def intro: sends_more)
    next
      case first: (Inr m1)
      obtain r2 h2 where two: "follow_index lib c ref header m1 h1 = (r2, h2)" by fastforce
      note sent2 = sends_then [OF sent1 follow_index_sends [OF two valid auth]]
      show ?thesis
      proof (cases r2)
        case (Inl err)
        with assms valid auth one first two sent2 show ?thesis by (auto simp: ResolveImage_def intro: sends_more)
      next
        case second: (Inr m)
        obtain r3 h3 where three: "imageConfig lib c ref header (de_digest (mf_config m)) h2 = (r3, h3)" by fastforce
        note sent3 = sends_then [OF sent2 imageConfig_sends [OF three valid auth]]
        have "h' = h2 \<or> h' = h3"
          using assms valid auth one first two second three by (auto simp: ResolveImage_def split: if_splits sum.splits)
        with sent2 sent3 show ?thesis by (auto intro: sends_more simp: numeral_eq_Suc)
      qed
    qed
  qed
qed

section \<open>Which manifest of an index\<close>

text \<open>The first entry of the preferred platform, or else the first that is not an attestation.\<close>

lemma digest_loop_choice:
  "digest_loop fallback entries =
     (case List.find isPreferredPlatform (filter (\<lambda>d. de_digest d \<noteq> [] \<and> \<not> isAttestation d) entries) of
        Some d \<Rightarrow> (de_digest d, True)
      | None \<Rightarrow> (case (if fallback = [] then [] else [fallback]) @ map de_digest (filter (\<lambda>d. de_digest d \<noteq> [] \<and> \<not> isAttestation d) entries) of
          [] \<Rightarrow> ([], False) | x # xs \<Rightarrow> (x, True)))"
  by (induction fallback entries rule: digest_loop.induct) (auto split: option.splits list.splits)

lemma imageDigest_choice:
  assumes "de_digest (mf_config m) = []"
  shows "imageDigest m =
     (let images = filter (\<lambda>d. de_digest d \<noteq> [] \<and> \<not> isAttestation d) (mf_manifests m) in
      case List.find isPreferredPlatform images of
        Some d \<Rightarrow> (de_digest d, True)
      | None \<Rightarrow> (case images of [] \<Rightarrow> ([], False) | d # ds \<Rightarrow> (de_digest d, True)))"
  using assms by (auto simp: imageDigest_def digest_loop_choice Let_def split: option.splits list.splits)

lemma int64_of_small: "- (2 ^ 63) \<le> n \<Longrightarrow> n < 2 ^ 63 \<Longrightarrow> int64_of n = n"
  by (simp add: int64_of_def)

lemma int64_of_add: "int64_of (int64_of a + b) = int64_of (a + b)"
proof -
  have "(int64_of a + b + 2 ^ 63) mod 2 ^ 64 = ((a + 2 ^ 63) mod 2 ^ 64 + b) mod 2 ^ 64"
    by (simp add: int64_of_def)
  also have "\<dots> = (a + 2 ^ 63 + b) mod 2 ^ 64" by (rule mod_add_left_eq)
  also have "a + 2 ^ 63 + b = a + b + 2 ^ 63" by simp
  finally show ?thesis by (simp add: int64_of_def)
qed

lemma manifest_size_sum: "manifest_size m = int64_of (sum_list (map de_size (mf_layers m)))"
proof -
  have "foldl (\<lambda>total layer. int64_of (total + de_size layer)) (int64_of n) ls = int64_of (n + sum_list (map de_size ls))" for n ls
    by (induction ls arbitrary: n) (simp_all add: int64_of_add add.assoc)
  from this [of 0 "mf_layers m"] show ?thesis by (simp add: manifest_size_def int64_of_small)
qed

section \<open>Properties\<close>

text \<open>
  C36. What comes from an event or from the registry cannot redirect a request: at most three requests are
  sent for an image, each carries the header that was asked for this reference and goes to its host
  and repository, and what stands behind is a tag or digest that is one plain path segment. Nothing is
  sent for a reference that is not accepted.
\<close>
theorem ResolveImage_requests:
  "case ResolveImage lib c ref h of (r, h') \<Rightarrow>
     take (length h) h' = h \<and> length h' \<le> length h + 3 \<and> list_all (request_ok c ref) (drop (length h) h')"
  using ResolveImage_sends [of lib c ref h] by (cases "ResolveImage lib c ref h") (auto simp: sends_def)

end
