(* ===== verification/Git_Host.thy ===== *)
theory Git_Host
  imports Delivery
begin

text \<open>
  \<open>internal/infrastructure/githost/github\<close>: the manifest repository and the working copy on GitHub
  (\<open>repository.go\<close>, \<open>checkout.go\<close>). go-git and go-github are parameters: each of their calls is a
  function, those of the API and of a clone with the calls made so far. The log output is left out.
\<close>

section \<open>Configuration\<close>

record github_config =
  gc_application_id :: int
  gc_installation_id :: int
  gc_username :: string
  gc_private_key_path :: string
  gc_author_name :: string
  gc_author_email :: string
  gc_base_branch :: string
  gc_work_dir :: string

definition defaultBaseBranch :: string where "defaultBaseBranch = ''main''"
definition checkoutPrefix :: string where "checkoutPrefix = ''image-updater-''"

definition noreplyEmail :: "string \<Rightarrow> string" where
  "noreplyEmail username = username @ ''@users.noreply.github.com''"

text \<open>The defaults, and what stands for reading the key and for building the API client.\<close>

definition with_defaults :: "github_config \<Rightarrow> github_config" where
  "with_defaults cfg = cfg\<lparr>
     gc_base_branch := (if gc_base_branch cfg = [] then defaultBaseBranch else gc_base_branch cfg),
     gc_author_name := (if gc_author_name cfg = [] then gc_username cfg else gc_author_name cfg),
     gc_author_email := (if gc_author_email cfg = [] then noreplyEmail (gc_username cfg) else gc_author_email cfg)\<rparr>"

definition NewRepository :: "(github_config \<Rightarrow> go_error option) \<Rightarrow> (github_config \<Rightarrow> go_error option) \<Rightarrow> github_config \<Rightarrow> (go_error, github_config) result" where
  "NewRepository read_key new_client cfg =
     (if gc_application_id cfg = 0 then Inl (ErrorsNew ''github: application ID is not set'')
      else if gc_installation_id cfg = 0 then Inl (ErrorsNew ''github: installation ID is not set'')
      else if gc_username cfg = [] then Inl (ErrorsNew ''github: username is not set'')
      else if gc_private_key_path cfg = [] then Inl (ErrorsNew ''github: private key path is not set'')
      else let c = with_defaults cfg in
        (case read_key c of
           Some err \<Rightarrow> Inl (Errorf ''github: failed to read the App private key %s: %w'' [AStr (gc_private_key_path c)] [err])
         | None \<Rightarrow> (case new_client c of
             Some err \<Rightarrow> Inl (Errorf ''github: failed to build the API client: %w'' [] [err])
           | None \<Rightarrow> Inr c)))"

section \<open>The API and the clone\<close>

record pull =
  pu_number :: int
  pu_html_url :: string

text \<open>An error of the API, with the status when it is an \<open>ErrorResponse\<close> that has a response.\<close>

record api_error =
  ae_error :: go_error
  ae_status :: "int option"

record new_pull_request =
  np_title :: string
  np_head :: string
  np_base :: string
  np_body :: string

record clone_options =
  cn_dir :: string
  cn_url :: string
  cn_username :: string
  cn_password :: string
  cn_branch :: string

datatype host_call =
    TokenCall "(go_error, string) result"
  | MkdirTemp string string "(go_error, string) result"
  | Clone clone_options "go_error option"
  | RemoveAll string
  | CreateCall string string new_pull_request
  | AddAssignees string string int "string list"
  | RequestReviewers string string int "string list"
  | ListCall string string string

record host_io =
  io_token :: "host_call list \<Rightarrow> (go_error, string) result"
  io_mkdir :: "host_call list \<Rightarrow> string \<Rightarrow> (go_error, string) result"
  io_clone :: "host_call list \<Rightarrow> clone_options \<Rightarrow> go_error option"
  io_create :: "host_call list \<Rightarrow> string \<Rightarrow> string \<Rightarrow> new_pull_request \<Rightarrow> (api_error, pull) result"
  io_list :: "host_call list \<Rightarrow> string \<Rightarrow> string \<Rightarrow> string \<Rightarrow> (go_error, pull list) result"

definition validateRepositoryURL :: "runtime \<Rightarrow> string \<Rightarrow> go_error option" where
  "validateRepositoryURL rt raw =
     (case url_parse rt raw of
        None \<Rightarrow> Some (Errorf ''github: invalid repository URL %q: %w'' [AStr raw] [ErrorsNew ''parse''])
      | Some u \<Rightarrow>
          if url_scheme u \<noteq> ''https'' \<or> url_host u \<noteq> ''github.com'' \<or> url_user u \<or> url_raw_query u \<noteq> [] \<or> url_fragment u \<noteq> []
          then Some (Errorf ''github: repository URL %q must use https://github.com without credentials, port, query, or fragment'' [AStr raw] [])
          else (case split_on (CHR ''/'') (trim ''/'' (url_path u)) of
              [owner, repo] \<Rightarrow>
                if owner = [] \<or> repo = []
                then Some (Errorf ''github: repository URL %q must contain exactly an owner and repository'' [AStr raw] [])
                else None
            | segments \<Rightarrow> Some (Errorf ''github: repository URL %q must contain exactly an owner and repository'' [AStr raw] [])))"

record checkout =
  ck_dir :: string
  ck_username :: string
  ck_password :: string
  ck_author_name :: string
  ck_author_email :: string

definition CheckoutRepository ::
    "runtime \<Rightarrow> github_config \<Rightarrow> host_io \<Rightarrow> string \<Rightarrow> host_call list \<Rightarrow> (go_error, checkout) result \<times> host_call list" where
  "CheckoutRepository rt cfg io repositoryURL h =
     (case validateRepositoryURL rt repositoryURL of
        Some err \<Rightarrow> (Inl err, h)
      | None \<Rightarrow>
          let token = io_token io h; h1 = h @ [TokenCall token] in
          (case token of
             Inl err \<Rightarrow> (Inl (Errorf ''failed to get a GitHub App installation token: %w'' [] [err]), h1)
           | Inr password \<Rightarrow>
               let made = io_mkdir io h1 (gc_work_dir cfg); h2 = h1 @ [MkdirTemp (gc_work_dir cfg) checkoutPrefix made] in
               (case made of
                  Inl err \<Rightarrow> (Inl (Errorf ''failed to create a working directory: %w'' [] [err]), h2)
                | Inr dir \<Rightarrow>
                    let opts = \<lparr>cn_dir = dir, cn_url = repositoryURL, cn_username = gc_username cfg, cn_password = password,
                          cn_branch = gc_base_branch cfg\<rparr>;
                        cloned = io_clone io h2 opts; h3 = h2 @ [Clone opts cloned] in
                    (case cloned of
                       Some err \<Rightarrow> (Inl (Errorf ''failed to clone %s at %s: %w'' [AStr repositoryURL, AStr (gc_base_branch cfg)] [err]),
                         h3 @ [RemoveAll dir])
                     | None \<Rightarrow> (Inr \<lparr>ck_dir = dir, ck_username = gc_username cfg, ck_password = password,
                         ck_author_name = gc_author_name cfg, ck_author_email = gc_author_email cfg\<rparr>, h3)))))"

definition nonEmpty :: "string list \<Rightarrow> string list" where
  "nonEmpty values = filter (\<lambda>value. value \<noteq> []) values"

definition isInvalidPullRequestError :: "api_error \<Rightarrow> bool" where
  "isInvalidPullRequestError e = (case ae_status e of None \<Rightarrow> False | Some status \<Rightarrow> status = 400 \<or> status = 422)"

definition CreateGitHubPullRequest ::
    "github_config \<Rightarrow> host_io \<Rightarrow> pull_request \<Rightarrow> host_call list \<Rightarrow> (go_error, string) result \<times> host_call list" where
  "CreateGitHubPullRequest cfg io pr h =
     (let base = (if pr_base pr = [] then gc_base_branch cfg else pr_base pr);
          request = \<lparr>np_title = pr_title pr, np_head = pr_head pr, np_base = base, np_body = pr_body pr\<rparr>;
          h1 = h @ [CreateCall (pr_owner pr) (pr_repository pr) request] in
      case io_create io h (pr_owner pr) (pr_repository pr) request of
        Inl e \<Rightarrow>
          let wrapped = Errorf ''failed to create the pull request on %s/%s: %w'' [AStr (pr_owner pr), AStr (pr_repository pr)] [ae_error e] in
          if isInvalidPullRequestError e
          then (Inl (Errorf ''%w: %w'' [] [Sentinel ErrInvalidPullRequest, wrapped]), h1)
          else (Inl wrapped, h1)
      | Inr created \<Rightarrow>
          let assignees = nonEmpty (pr_assignees pr); reviewers = nonEmpty (pr_reviewers pr) in
          (Inr (pu_html_url created),
           h1 @ (if assignees \<noteq> [] then [AddAssignees (pr_owner pr) (pr_repository pr) (pu_number created) assignees] else []) @
           (if reviewers \<noteq> [] then [RequestReviewers (pr_owner pr) (pr_repository pr) (pu_number created) reviewers] else [])))"

definition FindOpenPullRequest ::
    "host_io \<Rightarrow> string \<Rightarrow> string \<Rightarrow> string \<Rightarrow> host_call list \<Rightarrow> (go_error, string) result \<times> host_call list" where
  "FindOpenPullRequest io owner repo head h =
     (let filter_head = owner @ '':'' @ head; h1 = h @ [ListCall owner repo filter_head] in
      case io_list io h owner repo filter_head of
        Inl err \<Rightarrow> (Inl (Errorf ''failed to list the pull requests of %s/%s: %w'' [AStr owner, AStr repo] [err]), h1)
      | Inr [] \<Rightarrow> (Inr [], h1)
      | Inr (p # ps) \<Rightarrow> (Inr (pu_html_url p), h1))"

section \<open>The working copy\<close>

text \<open>An error of a push: whether it is go-git's report that nothing was to do, or the rejection of the remote.\<close>

record git_error =
  ge_error :: go_error
  ge_up_to_date :: bool
  ge_non_fast_forward :: bool
  ge_message :: string

text \<open>The calls on the worktree; \<open>wo_rejection\<close> is the text of go-git's \<open>ErrNonFastForwardUpdate\<close>.\<close>

record worktree_io =
  wo_open :: "go_error option"
  wo_checkout :: "string \<Rightarrow> bool \<Rightarrow> go_error option"   \<comment> \<open>the branch, and whether it is to be created\<close>
  wo_add :: "go_error option"
  wo_clean :: "(go_error, bool) result"
  wo_commit :: "string \<Rightarrow> string \<Rightarrow> string \<Rightarrow> go_error option"
  wo_push :: "string \<Rightarrow> git_error option"
  wo_remove :: "string \<Rightarrow> go_error option"
  wo_rejection :: string

definition CheckoutCreateBranch :: "worktree_io \<Rightarrow> string \<Rightarrow> go_error option" where
  "CheckoutCreateBranch w branch =
     (case wo_open w of
        Some err \<Rightarrow> Some (Errorf ''failed to open the worktree: %w'' [] [err])
      | None \<Rightarrow>
          (case wo_checkout w branch True of
             None \<Rightarrow> None
           | Some _ \<Rightarrow> (case wo_checkout w branch False of
               Some err \<Rightarrow> Some (Errorf ''failed to check out the branch %s: %w'' [AStr branch] [err])
             | None \<Rightarrow> None)))"

definition CheckoutCommit :: "worktree_io \<Rightarrow> checkout \<Rightarrow> string \<Rightarrow> go_error option" where
  "CheckoutCommit w c message =
     (case wo_open w of
        Some err \<Rightarrow> Some (Errorf ''failed to open the worktree: %w'' [] [err])
      | None \<Rightarrow> (case wo_add w of
          Some err \<Rightarrow> Some (Errorf ''failed to stage the working copy: %w'' [] [err])
        | None \<Rightarrow> (case wo_clean w of
            Inl err \<Rightarrow> Some (Errorf ''failed to read the worktree status: %w'' [] [err])
          | Inr True \<Rightarrow> Some (Errorf ''%w: nothing to commit'' [] [Sentinel ErrNoDifference])
          | Inr False \<Rightarrow> (case wo_commit w message (ck_author_name c) (ck_author_email c) of
              Some err \<Rightarrow> Some (Errorf ''failed to commit: %w'' [] [err])
            | None \<Rightarrow> None))))"

definition isNonFastForward :: "worktree_io \<Rightarrow> git_error \<Rightarrow> bool" where
  "isNonFastForward w e \<longleftrightarrow> ge_non_fast_forward e \<or> contains (wo_rejection w) (ge_message e)"

definition refSpec :: "string \<Rightarrow> string" where
  "refSpec branch = ''refs/heads/'' @ branch @ '':refs/heads/'' @ branch"

definition CheckoutPush :: "worktree_io \<Rightarrow> string \<Rightarrow> go_error option" where
  "CheckoutPush w branch =
     (case wo_push w (refSpec branch) of
        None \<Rightarrow> None
      | Some e \<Rightarrow>
          if ge_up_to_date e
          then Some (Errorf ''%w: %s is already on the remote'' [AStr branch] [Sentinel ErrDuplicatePullRequest])
          else if isNonFastForward w e
          then Some (Errorf ''%w: %s already exists on the remote: %w'' [AStr branch] [Sentinel ErrDuplicatePullRequest, ge_error e])
          else Some (Errorf ''failed to push %s: %w'' [AStr branch] [ge_error e]))"

definition CheckoutClose :: "worktree_io \<Rightarrow> checkout \<Rightarrow> go_error option" where
  "CheckoutClose w c = wo_remove w (ck_dir c)"

section \<open>The port\<close>

text \<open>
  GitHub as the manifest repository of the service. What the API, go-git and the disk answer to a call of
  the service may depend on everything the service did before; the working copy is the one of the last
  checkout.
\<close>

fun last_checkout :: "history \<Rightarrow> string" where
  "last_checkout [] = []"
| "last_checkout (a # h) = (case last_checkout h of
     [] \<Rightarrow> (case a of Checkout url (Inr root) \<Rightarrow> root | _ \<Rightarrow> []) | root \<Rightarrow> root)"

definition working_copy :: "github_config \<Rightarrow> history \<Rightarrow> checkout" where
  "working_copy cfg h = \<lparr>ck_dir = last_checkout h, ck_username = gc_username cfg, ck_password = [],
     ck_author_name = gc_author_name cfg, ck_author_email = gc_author_email cfg\<rparr>"

definition github_port :: "runtime \<Rightarrow> github_config \<Rightarrow> (history \<Rightarrow> host_io) \<Rightarrow> (history \<Rightarrow> worktree_io) \<Rightarrow> manifest_repository" where
  "github_port rt cfg io w = \<lparr>
     gh_find_open = (\<lambda>h owner repo head. fst (FindOpenPullRequest (io h) owner repo head [])),
     gh_checkout = (\<lambda>h url. map_sum id ck_dir (fst (CheckoutRepository rt cfg (io h) url []))),
     gh_create_branch = (\<lambda>h branch. CheckoutCreateBranch (w h) branch),
     gh_commit = (\<lambda>h message. CheckoutCommit (w h) (working_copy cfg h) message),
     gh_push = (\<lambda>h branch. CheckoutPush (w h) branch),
     gh_close = (\<lambda>h. CheckoutClose (w h) (working_copy cfg h)),
     gh_create_pull_request = (\<lambda>h pr. fst (CreateGitHubPullRequest cfg (io h) pr []))\<rparr>"

section \<open>The destination of the credential\<close>

definition github_repository :: "runtime \<Rightarrow> string \<Rightarrow> bool" where
  "github_repository rt raw = (case url_parse rt raw of None \<Rightarrow> False
     | Some u \<Rightarrow> github_url u \<and> (case split_on (CHR ''/'') (trim ''/'' (url_path u)) of
         [owner, repo] \<Rightarrow> owner \<noteq> [] \<and> repo \<noteq> [] | _ \<Rightarrow> False))"

lemma validateRepositoryURL_None: "validateRepositoryURL rt raw = None \<longleftrightarrow> github_repository rt raw"
  by (auto simp: validateRepositoryURL_def github_repository_def github_url_def split: option.splits list.splits)

fun credential_guard :: "runtime \<Rightarrow> string \<Rightarrow> host_call \<Rightarrow> bool" where
  "credential_guard rt url (TokenCall answer) = github_repository rt url"
| "credential_guard rt url (Clone opts answer) = (cn_url opts = url \<and> github_repository rt url)"
| "credential_guard rt url a = True"

fun made_dir :: "host_call \<Rightarrow> string list" where
  "made_dir (MkdirTemp parent prefix (Inr dir)) = [dir]"
| "made_dir a = []"

fun removed_dir :: "host_call \<Rightarrow> string list" where
  "removed_dir (RemoveAll dir) = [dir]"
| "removed_dir a = []"

text \<open>A push is reported as a duplicate exactly when the branch is on the remote already.\<close>

lemma CheckoutPush_duplicate:
  assumes "wo_push w (refSpec branch) = Some e" "\<not> errors_is ErrDuplicatePullRequest (ge_error e)"
  shows "\<exists>err. CheckoutPush w branch = Some err \<and>
    errors_is ErrDuplicatePullRequest err = (ge_up_to_date e \<or> isNonFastForward w e)"
  using assms by (simp add: CheckoutPush_def)

text \<open>Assignees and reviewers are asked for after the pull request is open and do not affect the result.\<close>

lemma CreateGitHubPullRequest_best_effort:
  assumes "io_create io h (pr_owner pr) (pr_repository pr) \<lparr>np_title = pr_title pr, np_head = pr_head pr,
    np_base = (if pr_base pr = [] then gc_base_branch cfg else pr_base pr), np_body = pr_body pr\<rparr> = Inr created"
  shows "fst (CreateGitHubPullRequest cfg io pr h) = Inr (pu_html_url created)"
  using assms by (simp add: CreateGitHubPullRequest_def Let_def)

section \<open>Searching a pull request\<close>

text \<open>
  What GitHub documents of its list of open pull requests, as far as the adapter relies on it: the list for
  the head of a pull request that was created is not empty, while nobody closes it, and every pull
  request has a URL. The call may fail at any time.
\<close>

definition lists_created :: "(history \<Rightarrow> host_io) \<Rightarrow> bool" where
  "lists_created io \<longleftrightarrow> (\<forall>h pr url calls pulls. CreatePullRequest pr (Inr url) \<in> set h \<longrightarrow>
     io_list (io h) calls (pr_owner pr) (pr_repository pr) (pr_owner pr @ '':'' @ pr_head pr) = Inr pulls \<longrightarrow>
     (\<exists>p ps. pulls = p # ps \<and> pu_html_url p \<noteq> []))"

lemma github_finds:
  assumes "lists_created io"
  shows "finds_pull_requests (github_port rt cfg io w)"
proof -
  have "gh_find_open (github_port rt cfg io w) h (pr_owner pr) (pr_repository pr) (pr_head pr) \<noteq> Inr []"
    if "CreatePullRequest pr (Inr url) \<in> set h" for h pr url
    using assms that unfolding lists_created_def
    by (fastforce simp: github_port_def FindOpenPullRequest_def Let_def split: sum.splits list.splits)
  then show ?thesis by (auto simp: finds_pull_requests_def)
qed

section \<open>Properties\<close>

text \<open>
  C37. The credential goes to GitHub only: whatever GitHub and the disk answer, an installation token is
  asked for, and put into a clone, only for a URL of one repository of github.com over https without
  credentials, query or fragment. And a failed checkout leaves no directory behind: each one that was
  made is removed, unless it is the working copy that is handed out.
\<close>
theorem CheckoutRepository_guarded:
  "case CheckoutRepository rt cfg io url h of (r, h') \<Rightarrow>
     take (length h) h' = h \<and> list_all (credential_guard rt url) (drop (length h) h') \<and>
     concat (map made_dir (drop (length h) h')) =
       (case r of Inl err \<Rightarrow> concat (map removed_dir (drop (length h) h'))
        | Inr c \<Rightarrow> concat (map removed_dir (drop (length h) h')) @ [ck_dir c])"
proof (cases "validateRepositoryURL rt url")
  case None
  then have "github_repository rt url" by (simp add: validateRepositoryURL_None)
  with None show ?thesis by (auto simp: CheckoutRepository_def Let_def split: sum.splits option.splits)
qed (simp add: CheckoutRepository_def)

section \<open>A location the git host refuses\<close>

text \<open>
  Finding. A rule may name an owner with an encoded question mark: the location is accepted, with the
  decoded owner in its URL, and only the checkout refuses that URL. The service marks every failure of a
  checkout as one to retry, so the event comes back again and again.
\<close>
lemma refused_location:
  "parseManifestURL sample_runtime ''https://github.com/a%3Fb/r/x'' = Inr (location_at ''a?b'' ''r'' [''x''])"
  "validateRepositoryURL sample_runtime (ml_repository_url (location_at ''a?b'' ''r'' [''x''])) \<noteq> None"
proof -
  have question: "char_of (63::nat) = CHR ''?''" by (simp flip: byte_eq_iff add: byte_def)
  show "parseManifestURL sample_runtime ''https://github.com/a%3Fb/r/x'' = Inr (location_at ''a?b'' ''r'' [''x''])"
    by (simp add: parseManifestURL_def url_eval text_eval rule_eval Let_def validateManifestPath_def path_join_def
        path_clean_def path_marks_def question location_at_def)
  have "ml_repository_url (location_at ''a?b'' ''r'' [''x'']) = ''https://github.com/a?b/r''" by (simp add: location_at_def)
  then show "validateRepositoryURL sample_runtime (ml_repository_url (location_at ''a?b'' ''r'' [''x''])) \<noteq> None"
    by (simp add: validateRepositoryURL_def url_eval text_eval)
qed

end
