(* ===== verification/Configuration.thy ===== *)
theory Configuration
  imports Rules Image_Manifest
begin

text \<open>
  The configuration of the process: the environment (\<open>internal/config/config.go\<close>) and the rule file
  (\<open>internal/infrastructure/ruleset/loader.go\<close>). What the env library reads from the environment, what
  the YAML library decodes from a file, and the bytes of the file are parameters.
\<close>

section \<open>The environment\<close>

datatype slog_level = LevelDebug | LevelInfo | LevelWarn | LevelError

definition LogLevelDebug :: string where "LogLevelDebug = ''debug''"
definition LogLevelInfo :: string where "LogLevelInfo = ''info''"
definition LogLevelWarn :: string where "LogLevelWarn = ''warn''"
definition LogLevelError :: string where "LogLevelError = ''error''"

definition ToSlog :: "string \<Rightarrow> slog_level" where
  "ToSlog l =
     (if l = LogLevelDebug then LevelDebug
      else if l = LogLevelInfo then LevelInfo
      else if l = LogLevelWarn then LevelWarn
      else if l = LogLevelError then LevelError
      else LevelInfo)"

text \<open>The levels of \<open>log/slog\<close> are numbers; a record is written when its level is at least the configured one.\<close>

fun slog_value :: "slog_level \<Rightarrow> int" where
  "slog_value LevelDebug = - 4"
| "slog_value LevelInfo = 0"
| "slog_value LevelWarn = 4"
| "slog_value LevelError = 8"

instantiation slog_level :: linorder
begin

definition less_eq_slog_level :: "slog_level \<Rightarrow> slog_level \<Rightarrow> bool" where
  "less_eq_slog_level a b \<longleftrightarrow> slog_value a \<le> slog_value b"

definition less_slog_level :: "slog_level \<Rightarrow> slog_level \<Rightarrow> bool" where
  "less_slog_level a b \<longleftrightarrow> slog_value a < slog_value b"

instance
proof
  show "a \<le> b \<Longrightarrow> b \<le> a \<Longrightarrow> a = b" for a b :: slog_level
    by (cases a; cases b) (simp_all add: less_eq_slog_level_def)
qed (auto simp: less_eq_slog_level_def less_slog_level_def)

end

text \<open>A typo in the configuration never hides a warning: only the level \<open>error\<close> itself does.\<close>

lemma ToSlog_warnings: "ToSlog l \<le> LevelWarn \<longleftrightarrow> l \<noteq> LogLevelError"
  by (simp add: ToSlog_def less_eq_slog_level_def LogLevelDebug_def LogLevelInfo_def LogLevelWarn_def LogLevelError_def)

record app_config =
  ap_log_level :: string
  ap_rule_path :: string
  ap_poll_interval :: int
  ap_concurrency :: int
  ap_shutdown_timeout :: int
  ap_work_dir :: string
  ap_image_label_annotation :: bool
  ap_image_manifest_indent :: int

record github_settings =
  gs_application_id :: int
  gs_installation_id :: int
  gs_username :: string
  gs_private_key_path :: string
  gs_author_email :: string
  gs_base_branch :: string

record aws_settings =
  aw_queue_url :: string
  aw_visibility_timeout :: int
  aw_wait_time :: int
  aw_max_messages :: int

record env_config =
  en_app :: app_config
  en_github :: github_settings
  en_aws :: aws_settings

definition blank :: "string \<Rightarrow> bool" where
  "blank s \<longleftrightarrow> trim_space s = []"

definition missing_variables :: "env_config \<Rightarrow> string list" where
  "missing_variables c =
     (if blank (ap_rule_path (en_app c)) then [''CONFIG_PATH''] else []) @
     (if gs_application_id (en_github c) = 0 then [''GITHUB_APPLICATION_ID''] else []) @
     (if gs_installation_id (en_github c) = 0 then [''GITHUB_INSTALLATION_ID''] else []) @
     (if blank (gs_username (en_github c)) then [''GITHUB_USERNAME''] else []) @
     (if blank (gs_private_key_path (en_github c)) then [''GITHUB_CRT_PATH''] else []) @
     (if blank (aw_queue_url (en_aws c)) then [''AWS_QUEUE_URI''] else [])"

definition validate_config :: "env_config \<Rightarrow> go_error option" where
  "validate_config c =
     (let missing = missing_variables c; app = en_app c; aws = en_aws c in
      if missing \<noteq> []
      then Some (Errorf ''these variables are required but empty: %s'' [AStr (join_with '', '' missing)] [])
      else if ap_concurrency app < 1 \<or> 10 < ap_concurrency app
      then Some (Errorf ''CONCURRENCY has to be between 1 and 10, got %d'' [AInt (ap_concurrency app)] [])
      else if ap_poll_interval app < 0
      then Some (Errorf ''INTERVAL must not be negative, got %s'' [AInt (ap_poll_interval app)] [])
      else if ap_shutdown_timeout app \<le> 0
      then Some (Errorf ''SHUTDOWN_TIMEOUT has to be positive, got %s'' [AInt (ap_shutdown_timeout app)] [])
      else if aw_max_messages aws < 1 \<or> 10 < aw_max_messages aws
      then Some (Errorf ''AWS_QUEUE_MAX_MESSAGES has to be between 1 and 10, got %d'' [AInt (aw_max_messages aws)] [])
      else if aw_visibility_timeout aws < 1 \<or> 43200 < aw_visibility_timeout aws
      then Some (Errorf ''AWS_QUEUE_VISIBILITY_TIMEOUT has to be between 1 and 43200, got %d'' [AInt (aw_visibility_timeout aws)] [])
      else if aw_wait_time aws < 1 \<or> 20 < aw_wait_time aws
      then Some (Errorf ''AWS_QUEUE_WAIT_TIME has to be between 1 and 20, got %d'' [AInt (aw_wait_time aws)] [])
      else if \<not> IsValidImageManifestIndent (ap_image_manifest_indent app)
      then Some (Errorf ''IMAGE_MANIFEST_INDENT has to be between %d and %d, got %d''
        [AInt ImageManifestIndentMin, AInt ImageManifestIndentMax, AInt (ap_image_manifest_indent app)] [])
      else None)"

definition LoadConfig :: "(go_error, env_config) result \<Rightarrow> (go_error, env_config) result" where
  "LoadConfig parsed =
     (case parsed of
        Inl err \<Rightarrow> Inl (Errorf ''failed to read the configuration: %w'' [] [err])
      | Inr cfg \<Rightarrow> (case validate_config cfg of
          Some err \<Rightarrow> Inl (Errorf ''failed to read the configuration: %w'' [] [err])
        | None \<Rightarrow> Inr cfg))"

section \<open>The rule file\<close>

record message_settings =
  ms_pull_request_title :: "string option"
  ms_pull_request_body :: "string option"
  ms_commit_message :: "string option"

record file_config =
  fc_rule_set :: rule_set
  fc_messages :: message_settings

text \<open>The on-disk rule; \<open>re_legacy_env\<close> says whether the key \<open>env\<close> is there at all.\<close>

record rule_entry =
  re_registry_uri :: string
  re_github_repository :: string
  re_environment :: string
  re_legacy_env :: bool
  re_allow_image_tag :: string
  re_deny_image_tag :: "string list"
  re_image_manifest :: "bool option"

record file_document =
  fd_messages :: message_settings
  fd_rules :: "rule_entry list"

text \<open>The root node of a document, with what decoding it gives; a document without content has none.\<close>

datatype config_root =
    SequenceRoot "(go_error, rule_entry list) result"
  | MappingRoot "(go_error, file_document) result"
  | OtherRoot

type_synonym config_yaml = "string \<Rightarrow> (go_error, config_root option) result"

definition quoted :: "string \<Rightarrow> string" where
  "quoted s = [CHR 34] @ s @ [CHR 34]"

definition toModel :: "rule_entry \<Rightarrow> (go_error, rule) result" where
  "toModel r =
     (if re_legacy_env r then Inl (ErrorsNew (quoted ''env'' @ '' is not supported; use '' @ quoted ''environment''))
      else if blank (re_environment r) then Inl (ErrorsNew (quoted ''environment'' @ '' is required''))
      else Inr \<lparr>rl_image_pattern = re_registry_uri r, rl_manifest_url = re_github_repository r, rl_env = re_environment r,
        rl_allow_tag = re_allow_image_tag r, rl_deny_tags = re_deny_image_tag r, rl_write_image_manifest = re_image_manifest r\<rparr>)"

definition no_messages :: message_settings where
  "no_messages = \<lparr>ms_pull_request_title = None, ms_pull_request_body = None, ms_commit_message = None\<rparr>"

fun convert_rules :: "nat \<Rightarrow> rule_entry list \<Rightarrow> (go_error, rule list) result" where
  "convert_rules i [] = Inr []"
| "convert_rules i (entry # entries) =
     (case toModel entry of
        Inl err \<Rightarrow> Inl (Errorf ''rule %d: %w'' [AInt (int i)] [err])
      | Inr r \<Rightarrow> (case convert_rules (Suc i) entries of Inl err \<Rightarrow> Inl err | Inr rs \<Rightarrow> Inr (r # rs)))"

definition read_entries :: "config_root \<Rightarrow> (go_error, rule_entry list \<times> message_settings) result" where
  "read_entries root =
     (case root of
        SequenceRoot (Inl err) \<Rightarrow> Inl (Errorf ''failed to decode the legacy rule list: %w'' [] [err])
      | SequenceRoot (Inr entries) \<Rightarrow> Inr (entries, no_messages)
      | MappingRoot (Inl err) \<Rightarrow> Inl (Errorf ''failed to decode the configuration document: %w'' [] [err])
      | MappingRoot (Inr file_doc) \<Rightarrow> Inr (fd_rules file_doc, fd_messages file_doc)
      | OtherRoot \<Rightarrow> Inl (ErrorsNew ''the configuration root must be a mapping or a rule sequence''))"

definition ParseFile :: "runtime \<Rightarrow> config_yaml \<Rightarrow> string \<Rightarrow> (go_error, file_config) result" where
  "ParseFile rt yaml content =
     (case yaml content of
        Inl err \<Rightarrow> Inl (Errorf ''failed to unmarshal the configuration file: %w'' [] [err])
      | Inr None \<Rightarrow> Inl (ErrorsNew ''the configuration file declares no rule'')
      | Inr (Some root) \<Rightarrow>
          (case read_entries root of
             Inl err \<Rightarrow> Inl err
           | Inr (entries, messages) \<Rightarrow>
               if entries = [] then Inl (ErrorsNew ''the configuration file declares no rule'')
               else (case convert_rules 0 entries of
                   Inl err \<Rightarrow> Inl err
                 | Inr rules \<Rightarrow> (case NewRuleSet rt rules of
                     Inl err \<Rightarrow> Inl err
                   | Inr compiled \<Rightarrow> Inr \<lparr>fc_rule_set = compiled, fc_messages = messages\<rparr>))))"

definition LoadFile :: "runtime \<Rightarrow> config_yaml \<Rightarrow> (string \<Rightarrow> (go_error, string) result) \<Rightarrow> string \<Rightarrow> (go_error, file_config) result" where
  "LoadFile rt yaml read_file path =
     (case read_file path of
        Inl err \<Rightarrow> Inl (Errorf ''failed to read the configuration file %s: %w'' [AStr path] [err])
      | Inr content \<Rightarrow> (case ParseFile rt yaml content of
          Inl err \<Rightarrow> Inl (Errorf ''%s: %w'' [AStr path] [err])
        | Inr loaded \<Rightarrow> Inr loaded))"

definition LoadRules :: "runtime \<Rightarrow> config_yaml \<Rightarrow> (string \<Rightarrow> (go_error, string) result) \<Rightarrow> string \<Rightarrow> (go_error, rule_set) result" where
  "LoadRules rt yaml read_file path = map_sum id fc_rule_set (LoadFile rt yaml read_file path)"

definition ParseRules :: "runtime \<Rightarrow> config_yaml \<Rightarrow> string \<Rightarrow> (go_error, rule_set) result" where
  "ParseRules rt yaml content = map_sum id fc_rule_set (ParseFile rt yaml content)"

section \<open>What a loaded file holds\<close>

lemma convert_rules_Inr:
  "convert_rules i entries = Inr rules \<longleftrightarrow> list_all2 (\<lambda>e r. toModel e = Inr r) entries rules"
  by (induction i entries arbitrary: rules rule: convert_rules.induct)
    (auto simp: list_all2_Cons1 split: sum.splits)

lemma toModel_Inr:
  "toModel e = Inr r \<Longrightarrow> \<not> re_legacy_env e \<and> \<not> blank (rl_env r) \<and> rl_env r = re_environment e \<and>
     rl_image_pattern r = re_registry_uri e \<and> rl_manifest_url r = re_github_repository e"
  by (auto simp: toModel_def split: if_splits)

text \<open>
  The compiled rules are those of the file, in its order, and each of them names an environment; the
  legacy key is refused, never ignored.
\<close>

lemma ParseFile_rules:
  assumes "ParseFile rt yaml content = Inr loaded"
  shows "\<exists>root entries rules. yaml content = Inr (Some root) \<and> read_entries root = Inr (entries, fc_messages loaded) \<and>
    entries \<noteq> [] \<and> list_all (\<lambda>e. \<not> re_legacy_env e) entries \<and> map re_registry_uri entries = map rl_image_pattern rules \<and>
    list_all (\<lambda>r. \<not> blank (rl_env r)) rules \<and> NewRuleSet rt rules = Inr (fc_rule_set loaded)"
proof -
  obtain root entries rules where parsed: "yaml content = Inr (Some root)" "read_entries root = Inr (entries, fc_messages loaded)"
    "entries \<noteq> []" "convert_rules 0 entries = Inr rules" "NewRuleSet rt rules = Inr (fc_rule_set loaded)"
    using assms by (auto simp: ParseFile_def split: sum.splits option.splits prod.splits if_splits)
  from parsed(4) have conv: "list_all2 (\<lambda>e r. toModel e = Inr r) entries rules" by (simp add: convert_rules_Inr)
  then have "list_all (\<lambda>e. \<not> re_legacy_env e) entries \<and> map re_registry_uri entries = map rl_image_pattern rules \<and>
      list_all (\<lambda>r. \<not> blank (rl_env r)) rules"
    by (induction rule: list_all2_induct) (auto dest: toModel_Inr)
  with parsed show ?thesis by blast
qed

lemma LoadFile_Inr: "LoadFile rt yaml read_file path = Inr loaded \<longleftrightarrow> (\<exists>content. read_file path = Inr content \<and> ParseFile rt yaml content = Inr loaded)"
  by (auto simp: LoadFile_def split: sum.splits)

text \<open>An accepted configuration.\<close>

lemma validate_config_None:
  "validate_config c = None \<longleftrightarrow>
     missing_variables c = [] \<and> ap_concurrency (en_app c) \<in> {1..10} \<and> 0 \<le> ap_poll_interval (en_app c) \<and>
     0 < ap_shutdown_timeout (en_app c) \<and> aw_max_messages (en_aws c) \<in> {1..10} \<and> aw_visibility_timeout (en_aws c) \<in> {1..43200} \<and>
     aw_wait_time (en_aws c) \<in> {1..20} \<and> IsValidImageManifestIndent (ap_image_manifest_indent (en_app c))"
  by (auto simp: validate_config_def Let_def)

lemma missing_variables_Nil:
  "missing_variables c = [] \<longleftrightarrow>
     \<not> blank (ap_rule_path (en_app c)) \<and> gs_application_id (en_github c) \<noteq> 0 \<and> gs_installation_id (en_github c) \<noteq> 0 \<and>
     \<not> blank (gs_username (en_github c)) \<and> \<not> blank (gs_private_key_path (en_github c)) \<and> \<not> blank (aw_queue_url (en_aws c))"
  by (simp add: missing_variables_def)

lemma not_blank_nonempty: "\<not> blank s \<Longrightarrow> s \<noteq> []"
  by (auto simp: blank_def trim_space_def)

end
