(* ===== verification/Lifecycle.thy ===== *)
theory Lifecycle
  imports Errors
begin

text \<open>
  \<open>pkg/lifecycle/lifecycle.go\<close>: the goroutines of \<open>Run\<close> as a step relation. A step of the environment is
  an application whose \<open>Run\<close> or \<open>Shutdown\<close> returns, a signal, or the deadline that passes; a step of the
  package is a goroutine of the group that ends, a \<open>Wait\<close> that returns, or a branch of one of the two
  selects. A select with several ready branches may take any of them. Of \<open>errgroup\<close> the documented
  behaviour is used: \<open>Wait\<close> returns when every function has, with the first error one of them returned.
\<close>

section \<open>State\<close>

datatype run_state = RunActive | RunFailed go_error | RunOver   \<comment> \<open>failed: the error is published, the goroutine not yet over\<close>
datatype stop_state = StopActive | StopOver
datatype lifecycle_phase = Selecting | Stopping | Finished "go_error option"

record lifecycle =
  lc_names :: "string list"
  lc_timeout :: string
  lc_runs :: "run_state list"
  lc_failures :: "go_error list"                 \<comment> \<open>the channel \<open>runFailures\<close>\<close>
  lc_group_err :: "go_error option"              \<comment> \<open>the first error of the group\<close>
  lc_waited :: bool                              \<comment> \<open>the group's \<open>Wait\<close> has returned\<close>
  lc_run_done :: "go_error option option"        \<comment> \<open>the channel \<open>runDone\<close>\<close>
  lc_signal :: bool
  lc_phase :: lifecycle_phase
  lc_run_err :: "go_error option"
  lc_shutdown_err :: "go_error option"
  lc_run_ch :: bool                              \<comment> \<open>whether \<open>runCh\<close> is not nil\<close>
  lc_shutdown_ch :: bool
  lc_stops :: "stop_state list"
  lc_stop_err :: "go_error option"
  lc_stop_waited :: bool
  lc_shutdown_done :: "go_error option option"
  lc_deadline :: bool

definition first_error :: "go_error option \<Rightarrow> go_error \<Rightarrow> go_error option" where
  "first_error err e = (case err of None \<Rightarrow> Some e | Some e' \<Rightarrow> Some e')"

definition is_canceled :: "go_error option \<Rightarrow> bool" where
  "is_canceled err = (case err of None \<Rightarrow> False | Some e \<Rightarrow> errors_is ContextCanceled e)"

definition finish :: "go_error option \<Rightarrow> go_error option \<Rightarrow> go_error option" where
  "finish runErr shutdownErr =
     (if runErr \<noteq> None \<and> \<not> is_canceled runErr then runErr
      else if shutdownErr \<noteq> None then shutdownErr else None)"

definition is_timeout :: "go_error option \<Rightarrow> bool" where
  "is_timeout err = (case err of None \<Rightarrow> False | Some e \<Rightarrow> errors_is ContextDeadlineExceeded e)"

definition timeout_result :: "string \<Rightarrow> go_error option \<Rightarrow> go_error option \<Rightarrow> go_error option" where
  "timeout_result timeout runErr shutdownErr =
     (let timeoutErr = Errorf ''lifecycle: shutdown did not complete within %s: %w'' [AStr timeout] [Sentinel ContextDeadlineExceeded];
          runErr' = (if is_canceled runErr then None else runErr)
      in errors_join (List.map_filter id [runErr', shutdownErr, Some timeoutErr]))"

text \<open>The state when the applications were started.\<close>

definition start :: "string \<Rightarrow> string list \<Rightarrow> lifecycle" where
  "start timeout names = \<lparr>lc_names = names, lc_timeout = timeout, lc_runs = replicate (length names) RunActive,
     lc_failures = [], lc_group_err = None, lc_waited = False, lc_run_done = None, lc_signal = False,
     lc_phase = Selecting, lc_run_err = None, lc_shutdown_err = None, lc_run_ch = False, lc_shutdown_ch = False,
     lc_stops = [], lc_stop_err = None, lc_stop_waited = False, lc_shutdown_done = None, lc_deadline = False\<rparr>"

definition RunApplications :: "string \<Rightarrow> string list \<Rightarrow> (go_error, lifecycle) result" where
  "RunApplications timeout names =
     (if names = [] then Inl (ErrorsNew ''lifecycle: no application to run'') else Inr (start timeout names))"

text \<open>The code after the first select: the deadline starts and every \<open>Shutdown\<close> is called.\<close>

definition begin_shutdown :: "bool \<Rightarrow> lifecycle \<Rightarrow> lifecycle" where
  "begin_shutdown waitForRun s = s\<lparr>lc_phase := Stopping, lc_run_ch := waitForRun, lc_shutdown_ch := True,
     lc_stops := replicate (length (lc_names s)) StopActive\<rparr>"

text \<open>The \<open>Shutdown\<close> of an application returns to the group of \<open>shutdown\<close>.\<close>

definition stop_returned :: "nat \<Rightarrow> go_error option \<Rightarrow> lifecycle \<Rightarrow> lifecycle" where
  "stop_returned i err s = s\<lparr>lc_stops := (lc_stops s)[i := StopOver],
     lc_stop_err := (case err of None \<Rightarrow> lc_stop_err s
       | Some e \<Rightarrow> first_error (lc_stop_err s) (Errorf ''%s: %w'' [AStr (lc_names s ! i)] [e]))\<rparr>"

section \<open>Steps\<close>

inductive env_step :: "lifecycle \<Rightarrow> lifecycle \<Rightarrow> bool" where
  run_returns: "i < length (lc_runs s) \<Longrightarrow> lc_runs s ! i = RunActive \<Longrightarrow> env_step s (s\<lparr>lc_runs := (lc_runs s)[i := RunOver]\<rparr>)"
| run_fails: "i < length (lc_runs s) \<Longrightarrow> lc_runs s ! i = RunActive \<Longrightarrow> wrapped = Errorf ''%s: %w'' [AStr (lc_names s ! i)] [e] \<Longrightarrow>
    env_step s (s\<lparr>lc_runs := (lc_runs s)[i := RunFailed wrapped], lc_failures := lc_failures s @ [wrapped]\<rparr>)"
| signalled: "\<not> lc_signal s \<Longrightarrow> env_step s (s\<lparr>lc_signal := True\<rparr>)"
| stop_returns: "i < length (lc_stops s) \<Longrightarrow> lc_stops s ! i = StopActive \<Longrightarrow> env_step s (stop_returned i err s)"
| deadline_passes: "lc_phase s = Stopping \<Longrightarrow> \<not> lc_deadline s \<Longrightarrow> env_step s (s\<lparr>lc_deadline := True\<rparr>)"

inductive package_step :: "lifecycle \<Rightarrow> lifecycle \<Rightarrow> bool" where
  goroutine_over: "i < length (lc_runs s) \<Longrightarrow> lc_runs s ! i = RunFailed e \<Longrightarrow>
    package_step s (s\<lparr>lc_runs := (lc_runs s)[i := RunOver], lc_group_err := first_error (lc_group_err s) e\<rparr>)"
| group_waited: "list_all (\<lambda>r. r = RunOver) (lc_runs s) \<Longrightarrow> \<not> lc_waited s \<Longrightarrow>
    package_step s (s\<lparr>lc_waited := True, lc_run_done := Some (lc_group_err s)\<rparr>)"
| select_done: "lc_phase s = Selecting \<Longrightarrow> lc_run_done s = Some r \<Longrightarrow>
    package_step s (begin_shutdown False (s\<lparr>lc_run_err := r, lc_run_done := None\<rparr>))"
| select_failure: "lc_phase s = Selecting \<Longrightarrow> lc_failures s = e # es \<Longrightarrow>
    package_step s (begin_shutdown True (s\<lparr>lc_run_err := Some e, lc_failures := es\<rparr>))"
| select_signal: "lc_phase s = Selecting \<Longrightarrow> lc_signal s \<Longrightarrow> package_step s (begin_shutdown True s)"
| stops_waited: "lc_phase s \<noteq> Selecting \<Longrightarrow> list_all (\<lambda>r. r = StopOver) (lc_stops s) \<Longrightarrow> \<not> lc_stop_waited s \<Longrightarrow>
    package_step s (s\<lparr>lc_stop_waited := True, lc_shutdown_done := Some (lc_stop_err s)\<rparr>)"
| receive_run: "lc_phase s = Stopping \<Longrightarrow> lc_run_ch s \<Longrightarrow> lc_run_done s = Some r \<Longrightarrow>
    package_step s (s\<lparr>lc_run_err := r, lc_run_done := None, lc_run_ch := False\<rparr>)"
| receive_shutdown: "lc_phase s = Stopping \<Longrightarrow> lc_shutdown_ch s \<Longrightarrow> lc_shutdown_done s = Some r \<Longrightarrow>
    package_step s (s\<lparr>lc_shutdown_err := r, lc_shutdown_done := None, lc_shutdown_ch := False\<rparr>)"
| times_out: "lc_phase s = Stopping \<Longrightarrow> lc_run_ch s \<or> lc_shutdown_ch s \<Longrightarrow> lc_deadline s \<Longrightarrow>
    package_step s (s\<lparr>lc_phase := Finished (timeout_result (lc_timeout s) (lc_run_err s) (lc_shutdown_err s))\<rparr>)"
| finishes: "lc_phase s = Stopping \<Longrightarrow> \<not> lc_run_ch s \<Longrightarrow> \<not> lc_shutdown_ch s \<Longrightarrow>
    package_step s (s\<lparr>lc_phase := Finished (finish (lc_run_err s) (lc_shutdown_err s))\<rparr>)"

inductive lifecycle_run :: "lifecycle \<Rightarrow> nat \<Rightarrow> lifecycle \<Rightarrow> bool" where
  lifecycle_start: "lifecycle_run s 0 s"
| lifecycle_env: "lifecycle_run s n t \<Longrightarrow> env_step t u \<Longrightarrow> lifecycle_run s (Suc n) u"
| lifecycle_package: "lifecycle_run s n t \<Longrightarrow> package_step t u \<Longrightarrow> lifecycle_run s (Suc n) u"

section \<open>Invariant\<close>

text \<open>What has been handed over between the goroutines, in each phase.\<close>

definition handed_over :: "lifecycle \<Rightarrow> bool" where
  "handed_over s \<longleftrightarrow>
     (case lc_phase s of
        Selecting \<Rightarrow> lc_run_done s = (if lc_waited s then Some (lc_group_err s) else None) \<and>
          lc_stops s = [] \<and> lc_stop_err s = None \<and> \<not> lc_stop_waited s \<and> lc_shutdown_done s = None \<and> \<not> lc_deadline s
      | Stopping \<Rightarrow>
          (if lc_run_ch s then lc_run_done s = (if lc_waited s then Some (lc_group_err s) else None)
           else lc_waited s \<and> lc_run_err s = lc_group_err s) \<and>
          (if lc_shutdown_ch s then lc_shutdown_done s = (if lc_stop_waited s then Some (lc_stop_err s) else None)
           else lc_stop_waited s \<and> lc_shutdown_err s = lc_stop_err s) \<and>
          length (lc_stops s) = length (lc_names s)
      | Finished r \<Rightarrow> (if lc_waited s \<and> lc_stop_waited s \<and> r = finish (lc_group_err s) (lc_stop_err s) then True
          else lc_deadline s \<and> is_timeout r) \<and>
          length (lc_stops s) = length (lc_names s))"

definition lifecycle_inv :: "lifecycle \<Rightarrow> bool" where
  "lifecycle_inv s \<longleftrightarrow> length (lc_runs s) = length (lc_names s) \<and>
     (lc_waited s \<longrightarrow> list_all (\<lambda>r. r = RunOver) (lc_runs s)) \<and>
     (lc_stop_waited s \<longrightarrow> list_all (\<lambda>r. r = StopOver) (lc_stops s)) \<and> handed_over s"

lemma all_over_nth: "list_all (\<lambda>r. r = x) rs \<Longrightarrow> i < length rs \<Longrightarrow> rs ! i = x"
  by (simp add: list_all_length)

lemma is_timeout_result [simp]: "is_timeout (timeout_result timeout runErr shutdownErr)"
  by (auto simp: is_timeout_def timeout_result_def Let_def List.map_filter_def)

lemma env_step_inv: "env_step s t \<Longrightarrow> lifecycle_inv s \<Longrightarrow> lifecycle_inv t"
  by (induction rule: env_step.induct)
    (auto simp: stop_returned_def lifecycle_inv_def handed_over_def dest: all_over_nth split: lifecycle_phase.splits if_splits)

lemma package_step_inv: "package_step s t \<Longrightarrow> lifecycle_inv s \<Longrightarrow> lifecycle_inv t"
  by (induction rule: package_step.induct)
    (auto simp: lifecycle_inv_def handed_over_def begin_shutdown_def dest: all_over_nth
      split: lifecycle_phase.splits if_splits)

lemma start_inv: "lifecycle_inv (start timeout names)"
  by (simp add: lifecycle_inv_def handed_over_def start_def)

lemma lifecycle_run_inv: "lifecycle_run s n t \<Longrightarrow> lifecycle_inv s \<Longrightarrow> lifecycle_inv t"
  by (induction rule: lifecycle_run.induct) (auto intro: env_step_inv package_step_inv)

section \<open>How many steps are left\<close>

fun run_weight :: "run_state \<Rightarrow> nat" where
  "run_weight RunActive = 2"
| "run_weight (RunFailed e) = 1"
| "run_weight RunOver = 0"

fun stop_weight :: "stop_state \<Rightarrow> nat" where
  "stop_weight StopActive = 1"
| "stop_weight StopOver = 0"

definition steps_left :: "lifecycle \<Rightarrow> nat" where
  "steps_left s = sum_list (map run_weight (lc_runs s)) + of_bool (\<not> lc_waited s) + of_bool (\<not> lc_signal s) +
     (case lc_phase s of
        Selecting \<Rightarrow> length (lc_names s) + 6
      | Stopping \<Rightarrow> sum_list (map stop_weight (lc_stops s)) + of_bool (\<not> lc_stop_waited s) + of_bool (lc_run_ch s) +
          of_bool (lc_shutdown_ch s) + of_bool (\<not> lc_deadline s) + 1
      | Finished r \<Rightarrow> sum_list (map stop_weight (lc_stops s)) + of_bool (\<not> lc_stop_waited s))"

lemma sum_weight_update:
  fixes w :: "'a \<Rightarrow> nat"
  assumes "i < length xs" "w y < w (xs ! i)"
  shows "sum_list (map w (xs[i := y])) < sum_list (map w xs)"
  using assms elem_le_sum_list [of i "map w xs"] by (simp add: map_update sum_list_update)

lemma env_step_left: "env_step s t \<Longrightarrow> lifecycle_inv s \<Longrightarrow> steps_left t < steps_left s"
  by (induction rule: env_step.induct)
    (auto simp: stop_returned_def steps_left_def lifecycle_inv_def handed_over_def sum_weight_update split: lifecycle_phase.splits)

lemma package_step_left: "package_step s t \<Longrightarrow> lifecycle_inv s \<Longrightarrow> steps_left t < steps_left s"
  by (induction rule: package_step.induct)
    (auto simp: steps_left_def lifecycle_inv_def handed_over_def begin_shutdown_def sum_weight_update sum_list_replicate
      split: lifecycle_phase.splits)

lemma lifecycle_run_left:
  "lifecycle_run s n t \<Longrightarrow> lifecycle_inv s \<Longrightarrow> n + steps_left t \<le> steps_left s"
proof (induction rule: lifecycle_run.induct)
  case (lifecycle_env s n t u)
  then have "steps_left u < steps_left t" by (blast intro: env_step_left lifecycle_run_inv)
  with lifecycle_env show ?case by simp
next
  case (lifecycle_package s n t u)
  then have "steps_left u < steps_left t" by (blast intro: package_step_left lifecycle_run_inv)
  with lifecycle_package show ?case by simp
qed simp

section \<open>Who can hold it up\<close>

text \<open>What \<open>Run\<close> waits for outside the package: an application, and in the shutdown the deadline.\<close>

definition awaits_applications :: "lifecycle \<Rightarrow> bool" where
  "awaits_applications s =
     (case lc_phase s of
        Selecting \<Rightarrow> RunActive \<in> set (lc_runs s)
      | Stopping \<Rightarrow> \<not> lc_deadline s \<and> (RunActive \<in> set (lc_runs s) \<or> StopActive \<in> set (lc_stops s))
      | Finished r \<Rightarrow> True)"

lemma runs_progress:
  assumes "RunActive \<notin> set (lc_runs s)" "\<not> lc_waited s"
  shows "\<exists>t. package_step s t"
proof (cases "list_all (\<lambda>r. r = RunOver) (lc_runs s)")
  case True
  then show ?thesis using assms(2) by (blast intro: package_step.group_waited)
next
  case False
  then obtain r where "r \<in> set (lc_runs s)" "r \<noteq> RunOver" by (auto simp: list_all_iff)
  with assms(1) obtain e where "RunFailed e \<in> set (lc_runs s)" by (cases r) auto
  then show ?thesis by (auto simp: in_set_conv_nth intro: package_step.goroutine_over)
qed

lemma stops_progress:
  assumes "StopActive \<notin> set (lc_stops s)" "\<not> lc_stop_waited s" "lc_phase s = Stopping"
  shows "\<exists>t. package_step s t"
proof -
  have "list_all (\<lambda>r. r = StopOver) (lc_stops s)"
    using assms(1) by (auto simp: list_all_iff) (metis stop_state.exhaust)
  then show ?thesis using assms(2,3) package_step.stops_waited [of s] by auto
qed

lemma lifecycle_moves:
  assumes "lifecycle_inv s" "\<not> awaits_applications s"
  shows "\<exists>t. package_step s t"
proof (cases "lc_phase s")
  case Selecting
  with assms have "RunActive \<notin> set (lc_runs s)" "lc_run_done s = (if lc_waited s then Some (lc_group_err s) else None)"
    by (auto simp: awaits_applications_def lifecycle_inv_def handed_over_def)
  with runs_progress [of s] Selecting show ?thesis by (cases "lc_waited s") (auto intro: package_step.select_done)
next
  case Stopping
  note handed = assms(1) [unfolded lifecycle_inv_def handed_over_def] Stopping
  consider "\<not> lc_run_ch s \<and> \<not> lc_shutdown_ch s" | "lc_run_ch s \<or> lc_shutdown_ch s" "lc_deadline s"
    | "lc_run_ch s" "\<not> lc_deadline s" | "lc_shutdown_ch s" "\<not> lc_deadline s" by blast
  then show ?thesis
  proof cases
    case 1
    then show ?thesis using Stopping by (blast intro: package_step.finishes)
  next
    case 2
    then show ?thesis using Stopping by (blast intro: package_step.times_out)
  next
    case 3
    then have "RunActive \<notin> set (lc_runs s)" using assms(2) Stopping by (simp add: awaits_applications_def)
    with 3 handed runs_progress [of s] show ?thesis
      by (cases "lc_waited s") (auto intro: package_step.receive_run)
  next
    case 4
    then have "StopActive \<notin> set (lc_stops s)" using assms(2) Stopping by (simp add: awaits_applications_def)
    with 4 handed stops_progress [of s] show ?thesis
      by (cases "lc_stop_waited s") (auto intro: package_step.receive_shutdown)
  qed
qed (use assms(2) in \<open>simp add: awaits_applications_def\<close>)

section \<open>Properties\<close>


text \<open>
  C12. Run returns: a lifecycle makes at most three steps for each application and eight more, and as
  long as it has not returned it can go on by itself, except when it waits for an application to
  return, during the shutdown only until the deadline.
\<close>
theorem lifecycle_terminates:
  assumes "lifecycle_run (start timeout names) n s"
  shows "n \<le> 3 * length names + 8 \<and> (if awaits_applications s then True else (\<exists>t. package_step s t))"
proof -
  have "steps_left (start timeout names) = 3 * length names + 8"
    by (simp add: steps_left_def start_def sum_list_replicate)
  then show ?thesis
    using lifecycle_run_left [OF assms start_inv] lifecycle_moves lifecycle_run_inv [OF assms start_inv] by simp
qed

section \<open>Lifecycles to evaluate\<close>

text \<open>One application that returns by itself, and one that ignores the signal until the deadline.\<close>

definition clean_end :: lifecycle where
  "clean_end = (start ''1s'' [''a''])\<lparr>lc_runs := [RunOver], lc_waited := True, lc_phase := Finished None, lc_stops := [StopOver],
     lc_stop_waited := True\<rparr>"

lemma clean_run: "lifecycle_run (start ''1s'' [''a'']) 7 clean_end"
proof -
  let ?s0 = "start ''1s'' [''a'']"
  let ?s1 = "?s0\<lparr>lc_runs := [RunOver]\<rparr>"
  let ?s2 = "?s1\<lparr>lc_waited := True, lc_run_done := Some None\<rparr>"
  let ?s3 = "begin_shutdown False (?s2\<lparr>lc_run_err := None, lc_run_done := None\<rparr>)"
  let ?s4 = "?s3\<lparr>lc_stops := [StopOver]\<rparr>"
  let ?s5 = "?s4\<lparr>lc_stop_waited := True, lc_shutdown_done := Some None\<rparr>"
  let ?s6 = "?s5\<lparr>lc_shutdown_err := None, lc_shutdown_done := None, lc_shutdown_ch := False\<rparr>"
  have "env_step ?s0 ?s1" using env_step.run_returns [of 0 ?s0] by (simp add: start_def)
  note run = lifecycle_env [OF lifecycle_start this]
  have "package_step ?s1 ?s2" using package_step.group_waited [of ?s1] by (simp add: start_def)
  note run = lifecycle_package [OF run this]
  have "package_step ?s2 ?s3" by (rule package_step.select_done) (simp_all add: start_def)
  note run = lifecycle_package [OF run this]
  have "env_step ?s3 ?s4" using env_step.stop_returns [of 0 ?s3 None] by (simp add: stop_returned_def start_def begin_shutdown_def)
  note run = lifecycle_env [OF run this]
  have "package_step ?s4 ?s5" using package_step.stops_waited [of ?s4] by (simp add: start_def begin_shutdown_def)
  note run = lifecycle_package [OF run this]
  have "package_step ?s5 ?s6" by (rule package_step.receive_shutdown) (simp_all add: start_def begin_shutdown_def)
  note run = lifecycle_package [OF run this]
  have "package_step ?s6 clean_end"
    using package_step.finishes [of ?s6] by (simp add: start_def begin_shutdown_def clean_end_def finish_def)
  from lifecycle_package [OF run this] show ?thesis by (simp add: numeral_eq_Suc)
qed

definition late_end :: lifecycle where
  "late_end = (begin_shutdown True ((start ''1s'' [''a''])\<lparr>lc_signal := True\<rparr>))\<lparr>lc_deadline := True,
     lc_phase := Finished (timeout_result ''1s'' None None)\<rparr>"

text \<open>
  Finding. A timeout returns while an application still runs: its goroutine and the one that waits for the
  group are left behind, although the comment of \<open>Run\<close> says that nothing is left running behind a
  returned error.
\<close>
lemma timeout_leaves_goroutine: "lifecycle_run (start ''1s'' [''a'']) 4 late_end \<and> RunActive \<in> set (lc_runs late_end)"
proof
  let ?s0 = "start ''1s'' [''a'']"
  let ?s1 = "?s0\<lparr>lc_signal := True\<rparr>"
  let ?s2 = "begin_shutdown True ?s1"
  let ?s3 = "?s2\<lparr>lc_deadline := True\<rparr>"
  have "env_step ?s0 ?s1" using env_step.signalled [of ?s0] by (simp add: start_def)
  note run = lifecycle_env [OF lifecycle_start this]
  have "package_step ?s1 ?s2" by (rule package_step.select_signal) (simp_all add: start_def)
  note run = lifecycle_package [OF run this]
  have "env_step ?s2 ?s3" using env_step.deadline_passes [of ?s2] by (simp add: start_def begin_shutdown_def)
  note run = lifecycle_env [OF run this]
  have "package_step ?s3 late_end"
    using package_step.times_out [of ?s3] by (simp add: start_def begin_shutdown_def late_end_def)
  from lifecycle_package [OF run this] show "lifecycle_run ?s0 4 late_end" by (simp add: numeral_eq_Suc)
qed (simp add: late_end_def begin_shutdown_def start_def)

text \<open>
  Finding. The group keeps its first error only, so an application that answers the signal with its
  cancellation hides the failure of another one that stops after it: the shutdown counts as clean.
\<close>
lemma cancellation_hides_failure: "is_canceled err \<Longrightarrow> finish (first_error err failure) None = None"
  by (cases err) (auto simp: finish_def first_error_def is_canceled_def)


theorem lifecycle_terminates_witness:
  "4 \<le> 3 * length [''a''] + (8 :: nat) \<and> awaits_applications late_end"
  using lifecycle_terminates [of "''1s''" "[''a'']" 4 late_end] timeout_leaves_goroutine
  by (simp add: awaits_applications_def late_end_def begin_shutdown_def)

end
