(* ===== verification/Container.thy ===== *)
theory Container
  imports Worker Working_Copy Registry Oci Git_Host Configuration Lifecycle
begin

text \<open>
  \<open>internal/container/container.go\<close>: how the parts are put together, in the order in which the dependency
  container resolves the parameters of the providers. What the process takes from outside is collected in
  one record: the AWS configuration, the files, the libraries behind the adapters, and the disk with the
  working copies as it is after a history of calls. A panic of \<open>Patch\<close> ends the process; the model goes
  on with an arbitrary answer, so a history of the model has every real one as its beginning.
\<close>

section \<open>The providers\<close>

record process_env =
  pv_runtime :: runtime
  pv_aws :: "go_error option"
  pv_yaml :: config_yaml
  pv_read_file :: "string \<Rightarrow> (go_error, string) result"
  pv_templates :: template_lib
  pv_registry :: "history \<Rightarrow> registry_lib"
  pv_auth_call :: "history \<Rightarrow> auth_call"
  pv_auth_calls :: "history \<Rightarrow> auth_call list"
  pv_manifest_yaml :: yaml_lib
  pv_disk :: "history \<Rightarrow> os_env \<times> fnode"
  pv_panicked :: "go_error option"
  pv_read_key :: "github_config \<Rightarrow> go_error option"
  pv_new_client :: "github_config \<Rightarrow> go_error option"
  pv_host :: "history \<Rightarrow> host_io"
  pv_worktree :: "history \<Rightarrow> worktree_io"
  pv_sqs :: sqs_api
  pv_events :: event_lib
  pv_dig :: "go_error \<Rightarrow> go_error"

definition provideFileConfig :: "process_env \<Rightarrow> env_config \<Rightarrow> (go_error, file_config) result" where
  "provideFileConfig pv cfg = LoadFile (pv_runtime pv) (pv_yaml pv) (pv_read_file pv) (ap_rule_path (en_app cfg))"

definition message_template :: "string \<Rightarrow> string option \<Rightarrow> string" where
  "message_template standard setting = (case setting of None \<Rightarrow> standard | Some t \<Rightarrow> t)"

definition provideMessageRenderer :: "process_env \<Rightarrow> file_config \<Rightarrow> (go_error, message_renderer) result" where
  "provideMessageRenderer pv loaded =
     NewMessageRenderer (pv_templates pv)
       \<lparr>mt_pull_request_title = message_template DefaultPullRequestTitleTemplate (ms_pull_request_title (fc_messages loaded)),
        mt_pull_request_body = message_template DefaultPullRequestBodyTemplate (ms_pull_request_body (fc_messages loaded)),
        mt_commit_message = message_template DefaultCommitMessageTemplate (ms_commit_message (fc_messages loaded))\<rparr>"

definition provideMetadataResolver :: "process_env \<Rightarrow> metadata_resolver" where
  "provideMetadataResolver pv = RouterResolve (NewRouter
     [(RegistryECR, \<lambda>h ref. fst (ResolveImage (pv_registry pv h)
        (NewClient (\<lambda>_. fst (AuthHeader (pv_auth_call pv h) (auth_calls NewAuthenticator (pv_auth_calls pv h)))) []) ref []))])"

definition provideKustomizePatcher :: "env_config \<Rightarrow> patcher" where
  "provideKustomizePatcher cfg = NewPatcher [WithIndent (ap_image_manifest_indent (en_app cfg))]"

definition provideManifestDirectoryResolver :: "process_env \<Rightarrow> directory_resolver" where
  "provideManifestDirectoryResolver pv = (\<lambda>h root pat. Resolve (fst (pv_disk pv h)) (snd (pv_disk pv h)) root pat)"

definition provideManifestPatcher :: "process_env \<Rightarrow> patcher \<Rightarrow> patcher_port" where
  "provideManifestPatcher pv p = (\<lambda>h dir u.
     case Patch (pv_runtime pv) (pv_manifest_yaml pv) (fst (pv_disk pv h)) p (snd (pv_disk pv h)) dir u of
       Some (fs, err) \<Rightarrow> err
     | None \<Rightarrow> pv_panicked pv)"

definition github_config_of :: "env_config \<Rightarrow> github_config" where
  "github_config_of cfg = \<lparr>gc_application_id = gs_application_id (en_github cfg),
     gc_installation_id = gs_installation_id (en_github cfg), gc_username = gs_username (en_github cfg),
     gc_private_key_path = gs_private_key_path (en_github cfg), gc_author_name = [],
     gc_author_email = gs_author_email (en_github cfg), gc_base_branch = gs_base_branch (en_github cfg),
     gc_work_dir = ap_work_dir (en_app cfg)\<rparr>"

definition provideManifestRepository :: "process_env \<Rightarrow> env_config \<Rightarrow> (go_error, manifest_repository) result" where
  "provideManifestRepository pv cfg =
     (case NewRepository (pv_read_key pv) (pv_new_client pv) (github_config_of cfg) of
        Inl err \<Rightarrow> Inl err
      | Inr c \<Rightarrow> Inr (github_port (pv_runtime pv) c (pv_host pv) (pv_worktree pv)))"

definition source_config_of :: "env_config \<Rightarrow> source_config" where
  "source_config_of cfg = \<lparr>cf_queue_url = aw_queue_url (en_aws cfg), cf_max_messages = aw_max_messages (en_aws cfg),
     cf_visibility_timeout = aw_visibility_timeout (en_aws cfg), cf_wait_time = aw_wait_time (en_aws cfg),
     cf_concurrency = ap_concurrency (en_app cfg), cf_poll_interval = ap_poll_interval (en_app cfg)\<rparr>"

definition provideEventSource :: "process_env \<Rightarrow> env_config \<Rightarrow> (go_error, source) result" where
  "provideEventSource pv cfg = NewSource (Some (pv_sqs pv)) (Some (Decode (pv_events pv))) (source_config_of cfg)"

definition provideService :: "process_env \<Rightarrow> env_config \<Rightarrow> rule_set \<Rightarrow> manifest_repository \<Rightarrow> message_renderer \<Rightarrow> (go_error, service) result" where
  "provideService pv cfg rules manifests messages =
     NewService rules (Some (provideMetadataResolver pv)) (Some manifests) (Some (provideManifestDirectoryResolver pv))
       (Some (provideManifestPatcher pv (provideKustomizePatcher cfg))) (Some messages)
       [WithImageLabelAnnotation (ap_image_label_annotation (en_app cfg))]"

text \<open>The source and the service of the worker.\<close>

definition assemble :: "process_env \<Rightarrow> env_config \<Rightarrow> (go_error, source \<times> service) result" where
  "assemble pv cfg =
     (case provideEventSource pv cfg of
        Inl err \<Rightarrow> Inl err
      | Inr src \<Rightarrow> (case provideFileConfig pv cfg of
          Inl err \<Rightarrow> Inl err
        | Inr loaded \<Rightarrow> (case provideManifestRepository pv cfg of
            Inl err \<Rightarrow> Inl err
          | Inr manifests \<Rightarrow> (case provideMessageRenderer pv loaded of
              Inl err \<Rightarrow> Inl err
            | Inr messages \<Rightarrow> (case provideService pv cfg (fc_rule_set loaded) manifests messages of
                Inl err \<Rightarrow> Inl err
              | Inr svc \<Rightarrow> Inr (src, svc))))))"

definition provideWorker :: "process_env \<Rightarrow> source \<times> service \<Rightarrow> (go_error, history worker) result" where
  "provideWorker pv = (\<lambda>(src, svc). NewWorker (Some (sqs_event_source src)) (Some (Handle (pv_runtime pv) svc)))"

definition BuildWorker :: "process_env \<Rightarrow> env_config \<Rightarrow> (go_error, history worker) result" where
  "BuildWorker pv cfg =
     (case pv_aws pv of
        Some err \<Rightarrow> Inl (Errorf ''failed to load the AWS configuration: %w'' [] [err])
      | None \<Rightarrow> (case result_bind (assemble pv cfg) (provideWorker pv) of
          Inl err \<Rightarrow> Inl (Errorf ''failed to build the worker: %w'' [] [pv_dig pv err])
        | Inr w \<Rightarrow> Inr w))"

text \<open>\<open>version.String\<close> of \<open>internal/version\<close>, with what the build injects.\<close>

definition version_string :: "string \<Rightarrow> string \<Rightarrow> string \<Rightarrow> string" where
  "version_string version commit build_date =
     ''image-updater version='' @ version @ '' commit='' @ commit @ '' build_date='' @ build_date"

section \<open>A validated configuration\<close>

lemma applyDefaults_validated: "validate_config cfg = None \<Longrightarrow> applyDefaults (source_config_of cfg) = source_config_of cfg"
  by (auto simp: validate_config_None applyDefaults_def source_config_of_def)

lemma validated_source:
  "validate_config cfg = None \<Longrightarrow>
     provideEventSource pv cfg = Inr \<lparr>sc_api = pv_sqs pv, sc_decoder = Decode (pv_events pv), sc_config = source_config_of cfg\<rparr>"
  using applyDefaults_validated [of cfg]
  by (auto simp: provideEventSource_def NewSource_def Let_def validate_config_None missing_variables_Nil source_config_of_def
      dest: not_blank_nonempty)

lemma validated_github:
  "validate_config cfg = None \<Longrightarrow>
     NewRepository read_key new_client (github_config_of cfg) =
       (let c = with_defaults (github_config_of cfg) in
        case read_key c of
          Some err \<Rightarrow> Inl (Errorf ''github: failed to read the App private key %s: %w'' [AStr (gc_private_key_path c)] [err])
        | None \<Rightarrow> (case new_client c of
            Some err \<Rightarrow> Inl (Errorf ''github: failed to build the API client: %w'' [] [err]) | None \<Rightarrow> Inr c))"
  by (auto simp: NewRepository_def validate_config_None missing_variables_Nil github_config_of_def dest: not_blank_nonempty)

lemma validated_patcher: "validate_config cfg = None \<Longrightarrow> pt_indent (provideKustomizePatcher cfg) = ap_image_manifest_indent (en_app cfg)"
  by (simp add: provideKustomizePatcher_def NewPatcher_def WithIndent_def validate_config_None)

lemma loaded_rules_nonempty:
  assumes "provideFileConfig pv cfg = Inr loaded"
  shows "fc_rule_set loaded \<noteq> []"
proof -
  obtain content where "ParseFile (pv_runtime pv) (pv_yaml pv) content = Inr loaded"
    using assms by (auto simp: provideFileConfig_def LoadFile_Inr)
  from ParseFile_rules [OF this] obtain entries :: "rule_entry list" and rules :: "rule list"
    where rules: "entries \<noteq> []" "map re_registry_uri entries = map rl_image_pattern rules"
    "NewRuleSet (pv_runtime pv) rules = Inr (fc_rule_set loaded)" by blast
  have "rules \<noteq> []" using rules(1,2) by auto
  with rules(3) show ?thesis by (cases rules) (auto simp: NewRuleSet_def split: sum.splits)
qed

definition service_of :: "process_env \<Rightarrow> env_config \<Rightarrow> rule_set \<Rightarrow> manifest_repository \<Rightarrow> message_renderer \<Rightarrow> service" where
  "service_of pv cfg rules manifests messages =
     \<lparr>sv_rules = rules, sv_resolver = Some (provideMetadataResolver pv), sv_manifests = manifests,
      sv_directories = provideManifestDirectoryResolver pv, sv_patcher = provideManifestPatcher pv (provideKustomizePatcher cfg),
      sv_messages = messages, sv_annotate_from_labels = ap_image_label_annotation (en_app cfg)\<rparr>"

lemma service_built:
  assumes "provideFileConfig pv cfg = Inr loaded"
  shows "provideService pv cfg (fc_rule_set loaded) manifests messages = Inr (service_of pv cfg (fc_rule_set loaded) manifests messages)"
  using loaded_rules_nonempty [OF assms]
  by (simp add: provideService_def NewService_def WithImageLabelAnnotation_def service_of_def)

text \<open>What the service that is built needs of the disk so that its pull requests propose what they should.\<close>

lemma service_on_disk:
  assumes "disk_follows (pv_runtime pv) (pv_manifest_yaml pv) (provideKustomizePatcher cfg) (pv_disk pv)"
    and "\<And>h. faults_plain (fst (pv_disk pv h))"
  shows "on_disk (pv_runtime pv) (pv_manifest_yaml pv) (provideKustomizePatcher cfg) (pv_disk pv)
    (service_of pv cfg rules manifests messages)"
  using assms
  by (auto simp: on_disk_def service_of_def provideManifestDirectoryResolver_def directory_port_def provideManifestPatcher_def patching_port_def)

text \<open>The settings of a small deployment.\<close>

definition example_environment :: env_config where
  "example_environment = \<lparr>
     en_app = \<lparr>ap_log_level = ''info'', ap_rule_path = ''config.yaml'', ap_poll_interval = 5000000000, ap_concurrency = 1,
       ap_shutdown_timeout = 30000000000, ap_work_dir = [], ap_image_label_annotation = True, ap_image_manifest_indent = 4\<rparr>,
     en_github = \<lparr>gs_application_id = 1, gs_installation_id = 2, gs_username = ''bot'', gs_private_key_path = ''key.pem'',
       gs_author_email = [], gs_base_branch = ''main''\<rparr>,
     en_aws = \<lparr>aw_queue_url = ''https://sqs'', aw_visibility_timeout = 300, aw_wait_time = 20, aw_max_messages = 10\<rparr>\<rparr>"

lemma example_environment_valid: "validate_config example_environment = None"
  by (simp add: validate_config_None missing_variables_Nil example_environment_def blank_def text_eval IsValidImageManifestIndent_def
      ImageManifestIndentMin_def ImageManifestIndentMax_def)

section \<open>The worker that is built\<close>

lemma BuildWorker_service:
  assumes "BuildWorker pv cfg = Inr w"
  obtains svc c where "wk_handler w = Handle (pv_runtime pv) svc"
    "sv_manifests svc = github_port (pv_runtime pv) c (pv_host pv) (pv_worktree pv)"
    "sv_directories svc = provideManifestDirectoryResolver pv"
proof -
  obtain src svc where parts: "assemble pv cfg = Inr (src, svc)" "provideWorker pv (src, svc) = Inr w"
    using assms by (auto simp: BuildWorker_def result_bind_Inr split: option.splits sum.splits)
  obtain loaded manifests messages where "provideFileConfig pv cfg = Inr loaded" and m: "provideManifestRepository pv cfg = Inr manifests"
    and svc: "provideService pv cfg (fc_rule_set loaded) manifests messages = Inr svc"
    using parts(1) by (auto simp: assemble_def split: sum.splits)
  from service_built [OF this(1)] svc have "sv_manifests svc = manifests" "sv_directories svc = provideManifestDirectoryResolver pv"
    by (auto simp: service_of_def)
  moreover obtain c where "manifests = github_port (pv_runtime pv) c (pv_host pv) (pv_worktree pv)"
    using m by (auto simp: provideManifestRepository_def split: sum.splits)
  moreover have "wk_handler w = Handle (pv_runtime pv) svc"
    using parts(2) by (auto simp: provideWorker_def NewWorker_def)
  ultimately show thesis by (intro that) simp_all
qed

text \<open>Messages of the queue that are processed one after the other.\<close>

fun process_all :: "source \<Rightarrow> 'w event_handler \<Rightarrow> sqs_message list \<Rightarrow> 'w \<Rightarrow> 'w" where
  "process_all src handler [] h = h"
| "process_all src handler (m # ms) h = process_all src handler ms (snd (process src handler m h))"

lemma process_all_deliveries: "\<exists>events. process_all src (Handle rt svc) ms h = deliveries rt svc events h"
proof (induction ms arbitrary: h)
  case Nil
  have "process_all src (Handle rt svc) [] h = deliveries rt svc [] h" by simp
  then show ?case by blast
next
  case (Cons m ms)
  show ?case
  proof (cases "sc_decoder src (aws_ToString (sm_body m))")
    case (Inl err)
    then have "snd (process src (Handle rt svc) m h) = h" by (simp add: process_def Let_def split: prod.splits)
    with Cons.IH [of h] show ?thesis by simp
  next
    case (Inr event)
    then have "snd (process src (Handle rt svc) m h) = snd (Handle rt svc event h)"
      by (simp add: process_def Let_def split: prod.splits)
    moreover obtain events where "process_all src (Handle rt svc) ms (snd (Handle rt svc event h)) =
        deliveries rt svc events (snd (Handle rt svc event h))" using Cons.IH by blast
    ultimately have "process_all src (Handle rt svc) (m # ms) h = deliveries rt svc (event # events) h" by simp
    then show ?thesis by blast
  qed
qed

section \<open>Properties\<close>

text \<open>
  C40. What the validation of the environment accepts is what the process runs with. With an accepted
  configuration the worker fails to be built only over the rule file, the GitHub key, the GitHub client or
  the message templates, in this order; otherwise the source polls with the configured values, none
  replaced by a default, the service has the rules of the file, and the patcher indents a metadata block
  as configured.
\<close>
theorem assemble_validated:
  assumes "validate_config cfg = None"
  shows "assemble pv cfg =
    (let c = with_defaults (github_config_of cfg) in
     case provideFileConfig pv cfg of
       Inl err \<Rightarrow> Inl err
     | Inr loaded \<Rightarrow> (case pv_read_key pv c of
         Some err \<Rightarrow> Inl (Errorf ''github: failed to read the App private key %s: %w'' [AStr (gc_private_key_path c)] [err])
       | None \<Rightarrow> (case pv_new_client pv c of
           Some err \<Rightarrow> Inl (Errorf ''github: failed to build the API client: %w'' [] [err])
         | None \<Rightarrow> (case provideMessageRenderer pv loaded of
             Inl err \<Rightarrow> Inl err
           | Inr messages \<Rightarrow> Inr
               (\<lparr>sc_api = pv_sqs pv, sc_decoder = Decode (pv_events pv), sc_config = source_config_of cfg\<rparr>,
                service_of pv cfg (fc_rule_set loaded)
                  (github_port (pv_runtime pv) c (pv_host pv) (pv_worktree pv)) messages))))) \<and>
    pt_indent (provideKustomizePatcher cfg) = ap_image_manifest_indent (en_app cfg)"
proof (cases "provideFileConfig pv cfg")
  case (Inl err)
  then show ?thesis using validated_patcher [OF assms] by (simp add: assemble_def validated_source [OF assms] Let_def)
next
  case (Inr loaded)
  then show ?thesis
    using validated_patcher [OF assms]
    by (simp add: assemble_def validated_source [OF assms] provideManifestRepository_def validated_github [OF assms]
        service_built [OF Inr] Let_def split: sum.split option.split)
qed

theorem assemble_validated_witness:
  "\<forall>pv. pt_indent (provideKustomizePatcher example_environment) = 4 \<and>
     (provideFileConfig pv example_environment = Inl (ErrorsNew ''no file'') \<longrightarrow>
        assemble pv example_environment = Inl (ErrorsNew ''no file''))"
  using assemble_validated [OF example_environment_valid] by (simp add: Let_def example_environment_def)


text \<open>A directory of a working copy that was safe when the resolver returned it.\<close>

definition patched_inside :: "process_env \<Rightarrow> history \<Rightarrow> action \<Rightarrow> bool" where
  "patched_inside pv h a =
     (case a of
        PatchDir dir u answer \<Rightarrow> \<exists>root d url n. dir = path_join [root, d] \<and> Checkout url (Inr root) \<in> set h \<and>
          safe_directory (snd (pv_disk pv (take n h))) root d
      | _ \<Rightarrow> True)"

text \<open>
  C9. End to end: the worker touches its working copies only. Whatever messages arrive and whatever the rule
  file says, a directory that is patched is the join of the root of a checkout and a relative directory
  that does not climb above it and had no symbolic link on its path when it was resolved.
\<close>
theorem worker_patches_inside:
  assumes "BuildWorker pv cfg = Inr w" and "\<And>h. env_ok (fst (pv_disk pv h))"
  shows "list_all (patched_inside pv (process_all src (wk_handler w) messages [])) (process_all src (wk_handler w) messages [])"
proof -
  obtain svc c where w: "wk_handler w = Handle (pv_runtime pv) svc"
    "sv_manifests svc = github_port (pv_runtime pv) c (pv_host pv) (pv_worktree pv)"
    "sv_directories svc = provideManifestDirectoryResolver pv"
    using assms(1) by (rule BuildWorker_service)
  obtain events where h: "process_all src (wk_handler w) messages [] = deliveries (pv_runtime pv) svc events []"
    using process_all_deliveries unfolding w(1) by blast
  have "patched_inside pv (deliveries (pv_runtime pv) svc events []) a" if "a \<in> set (deliveries (pv_runtime pv) svc events [])" for a
  proof (cases "\<exists>dir u answer. a = PatchDir dir u answer")
    case True
    then obtain dir u answer where a: "a = PatchDir dir u answer" by blast
    from deliveries_patch_origin [OF that [unfolded a]] obtain root d url n pat ds where
      found: "dir = path_join [root, d]" "Checkout url (Inr root) \<in> set (deliveries (pv_runtime pv) svc events [])"
        "sv_directories svc (take n (deliveries (pv_runtime pv) svc events [])) root pat = Inr ds" "d \<in> set ds" by metis
    from found(3,4) Resolve_safe [OF assms(2)] have "safe_directory (snd (pv_disk pv (take n (deliveries (pv_runtime pv) svc events [])))) root d"
      by (fastforce simp: w(3) provideManifestDirectoryResolver_def list_all_iff)
    with found(1,2) show ?thesis unfolding a patched_inside_def by auto
  qed (auto simp: patched_inside_def split: action.split)
  then show ?thesis unfolding h by (simp add: list_all_iff)
qed

text \<open>A process to evaluate.\<close>

definition sample_entry :: rule_entry where
  "sample_entry = \<lparr>re_registry_uri = ''h/a/$1'', re_github_repository = rl_manifest_url sample_rule, re_environment = ''dev'',
     re_legacy_env = False, re_allow_image_tag = [], re_deny_image_tag = [[], ''latest''], re_image_manifest = None\<rparr>"

definition sample_host :: "history \<Rightarrow> host_io" where
  "sample_host h = \<lparr>io_token = (\<lambda>calls. Inr ''token''), io_mkdir = (\<lambda>calls dir. Inr ''/w''), io_clone = (\<lambda>calls opts. None),
     io_create = (\<lambda>calls owner repo request. Inr \<lparr>pu_number = 1, pu_html_url = ''/pull/1''\<rparr>),
     io_list = (\<lambda>calls owner repo head. Inr [\<lparr>pu_number = 1, pu_html_url = ''/pull/1''\<rparr>])\<rparr>"

definition sample_process :: process_env where
  "sample_process = \<lparr>pv_runtime = sample_runtime, pv_aws = None, pv_yaml = (\<lambda>s. Inr (Some (SequenceRoot (Inr [sample_entry])))),
     pv_read_file = (\<lambda>path. Inr []), pv_templates = default_lib,
     pv_registry = (\<lambda>h. \<lparr>rl_request = (\<lambda>url. None), rl_do = (\<lambda>sent request. Inl (ErrorsNew ''offline'')),
       rl_manifest = (\<lambda>s. Inl (ErrorsNew ''EOF'')), rl_config = (\<lambda>s. Inl (ErrorsNew ''EOF'')), rl_rest = (\<lambda>s. JsonEOF)\<rparr>),
     pv_auth_call = (\<lambda>h. \<lparr>ac_now = 0, ac_answer = Inr [], ac_later = 0\<rparr>), pv_auth_calls = (\<lambda>h. []),
     pv_manifest_yaml = sample_yl, pv_disk = (\<lambda>h. (no_faults, sample_tree (FFile sample_file 420))), pv_panicked = None, pv_read_key = (\<lambda>c. None), pv_new_client = (\<lambda>c. None),
     pv_host = sample_host, pv_worktree = (\<lambda>h. \<lparr>wo_open = None, wo_checkout = (\<lambda>b create. None), wo_add = None, wo_clean = Inr False,
       wo_commit = (\<lambda>m name email. None), wo_push = (\<lambda>r. None), wo_remove = (\<lambda>d. None), wo_rejection = ''non-fast-forward update''\<rparr>),
     pv_sqs = sample_api, pv_events = sample_event_lib, pv_dig = id\<rparr>"

lemma sample_file: "provideFileConfig sample_process example_environment =
    Inr \<lparr>fc_rule_set = [sample_compiled], fc_messages = no_messages\<rparr>"
proof -
  have "toModel sample_entry = Inr sample_rule"
    by (simp add: toModel_def sample_entry_def sample_rule_def blank_def text_eval)
  then show ?thesis
    by (simp add: provideFileConfig_def LoadFile_def ParseFile_def sample_process_def read_entries_def sample_compile)
qed

lemma sample_messages_built: "provideMessageRenderer sample_process \<lparr>fc_rule_set = rules, fc_messages = no_messages\<rparr> = Inr default_renderer"
  using default_built by (simp add: provideMessageRenderer_def message_template_def no_messages_def sample_process_def default_templates_def)

lemma sample_built_worker: "\<exists>w. BuildWorker sample_process example_environment = Inr w"
proof -
  have "provideManifestRepository sample_process example_environment = Inr (github_port sample_runtime
      (with_defaults (github_config_of example_environment)) sample_host (pv_worktree sample_process))"
    using validated_github [OF example_environment_valid]
    by (simp add: provideManifestRepository_def sample_process_def Let_def)
  moreover have "pv_aws sample_process = None" by (simp add: sample_process_def)
  ultimately show ?thesis
    by (simp add: BuildWorker_def assemble_def validated_source [OF example_environment_valid] sample_file sample_messages_built
        service_built [OF sample_file, simplified] provideWorker_def NewWorker_def result_bind_def)
qed


theorem worker_patches_inside_witness:
  "\<exists>w. BuildWorker sample_process example_environment = Inr w \<and>
     (let h = process_all sample_source (wk_handler w) [\<lparr>sm_id = None, sm_receipt_handle = Some ''r'', sm_body = Some ''{}''\<rparr>] []
      in list_all (patched_inside sample_process h) h)"
proof -
  obtain w where w: "BuildWorker sample_process example_environment = Inr w" using sample_built_worker by blast
  moreover have "env_ok (fst (pv_disk sample_process h))" for h by (simp add: sample_process_def env_ok_no_faults)
  ultimately show ?thesis using worker_patches_inside unfolding Let_def by blast
qed

end
