(* ===== verification/Command_Line.thy ===== *)
theory Command_Line
  imports Container Lifecycle
begin

text \<open>
  \<open>cmd/main.go\<close>: from the arguments of the command to the process lifecycle. What the flag package makes of
  the arguments, what the environment library reads and whether the output can be written are parameters;
  the set-up of the log is left out.
\<close>

section \<open>The command\<close>

datatype parsed_flags =
    FlagHelp                          \<comment> \<open>\<open>flag.ErrHelp\<close>\<close>
  | FlagError go_error
  | Flags bool "string list"          \<comment> \<open>\<open>-version\<close> and the arguments behind the flags\<close>

record build_identity =
  bi_version :: string
  bi_commit :: string
  bi_build_date :: string

text \<open>What the command does: it returns, with what it printed, or it hands a worker over to the lifecycle.\<close>

datatype command_outcome =
    Returned string "go_error option"
  | Started "history worker" lifecycle

definition run_command ::
    "process_env \<Rightarrow> build_identity \<Rightarrow> parsed_flags \<Rightarrow> (string \<Rightarrow> go_error option) \<Rightarrow> (go_error, env_config) result \<Rightarrow>
     (int \<Rightarrow> string) \<Rightarrow> command_outcome" where
  "run_command pv build flags write environment format_duration =
     (case flags of
        FlagHelp \<Rightarrow> Returned [] None
      | FlagError err \<Rightarrow> Returned [] (Some (Errorf ''parse command arguments: %w'' [] [err]))
      | Flags showVersion args \<Rightarrow>
          if args \<noteq> [] then Returned [] (Some (Errorf ''unexpected command arguments: %s'' [AStr (join_with '' '' args)] []))
          else if showVersion
          then (let out = version_string (bi_version build) (bi_commit build) (bi_build_date build) @ [CHR 10] in
            case write out of
              Some err \<Rightarrow> Returned [] (Some (Errorf ''write version: %w'' [] [err]))
            | None \<Rightarrow> Returned out None)
          else (case LoadConfig environment of
              Inl err \<Rightarrow> Returned [] (Some err)
            | Inr cfg \<Rightarrow>
                (case BuildWorker pv cfg of
                   Inl err \<Rightarrow> Returned [] (Some err)
                 | Inr w \<Rightarrow>
                     (case RunApplications (format_duration (ap_shutdown_timeout (en_app cfg))) [WorkerName w] of
                        Inl err \<Rightarrow> Returned [] (Some err)
                      | Inr s \<Rightarrow> Started w s))))"

definition exit_code :: "go_error option \<Rightarrow> int" where
  "exit_code err = (case err of Some e \<Rightarrow> 1 | None \<Rightarrow> 0)"

section \<open>What is started\<close>

text \<open>
  A worker is started only for a valid configuration whose source and service could be built; it polls that
  source and hands every event to that service.
\<close>

lemma run_command_started:
  assumes "run_command pv build flags write environment format_duration = Started w s"
  shows "\<exists>cfg src svc. environment = Inr cfg \<and> validate_config cfg = None \<and> assemble pv cfg = Inr (src, svc) \<and>
    NewWorker (Some (sqs_event_source src)) (Some (Handle (pv_runtime pv) svc)) = Inr w \<and>
    s = start (format_duration (ap_shutdown_timeout (en_app cfg))) [WorkerName w]"
  using assms
  by (auto simp: run_command_def LoadConfig_def BuildWorker_def provideWorker_def RunApplications_def Let_def
      split: parsed_flags.splits if_splits sum.splits option.splits prod.splits)

lemma run_command_version:
  "run_command pv build (Flags True []) (\<lambda>out. None) environment format_duration =
     Returned (''image-updater version='' @ bi_version build @ '' commit='' @ bi_commit build @ '' build_date='' @ bi_build_date build @ [CHR 10]) None"
  by (simp add: run_command_def version_string_def)

end
