(* ===== verification/Recovery.thy ===== *)
theory Recovery
  imports Working_Copy
begin

text \<open>
  An update gets through: when nothing is wrong any more, the pull request is opened, also when an earlier
  attempt was cut off after its push and the branch is on the remote already.
\<close>

section \<open>When nothing is wrong\<close>

text \<open>No pull request of the update was opened, on its branch or the one an older version would have used.\<close>

definition unopened :: "repository_plan \<Rightarrow> action list \<Rightarrow> bool" where
  "unopened t tr \<longleftrightarrow> (\<forall>pr url. CreatePullRequest pr (Inr url) \<in> set tr \<longrightarrow> \<not> (pr_owner pr = ml_owner (rp_location t) \<and>
     pr_repository pr = ml_repository (rp_location t) \<and> pr_head pr \<in> set (searched_branches t)))"

lemma unopened_append [simp]: "unopened t (tr @ rest) \<longleftrightarrow> unopened t tr \<and> unopened t rest"
  by (auto simp: unopened_def)

lemma unopened_Nil [simp]: "unopened t []"
  by (simp add: unopened_def)

lemma unopened_Cons [simp]:
  "unopened t (FindOpen owner repo head r1 # tr) = unopened t tr" "unopened t (Checkout url r1 # tr) = unopened t tr"
  "unopened t (ResolveDirs root pat r2 # tr) = unopened t tr" "unopened t (CreateBranch b e # tr) = unopened t tr"
  "unopened t (PatchDir dir u e # tr) = unopened t tr" "unopened t (Commit m e # tr) = unopened t tr"
  "unopened t (Push b e # tr) = unopened t tr"
  by (auto simp: unopened_def)

text \<open>
  The git host after \<open>h\<close>: it finds no pull request for the update until there is one, takes every call, and
  refuses the push at most because the branch is there.
\<close>

definition host_works :: "manifest_repository \<Rightarrow> repository_plan \<Rightarrow> history \<Rightarrow> bool" where
  "host_works gh t h \<longleftrightarrow> (\<forall>tr. unopened t tr \<longrightarrow>
     (\<forall>b\<in>set (searched_branches t). gh_find_open gh (h @ tr) (ml_owner (rp_location t)) (ml_repository (rp_location t)) b = Inr []) \<and>
     (\<exists>root. gh_checkout gh (h @ tr) (ml_repository_url (rp_location t)) = Inr root) \<and>
     gh_create_branch gh (h @ tr) (rp_branch t) = None \<and> (\<forall>m. gh_commit gh (h @ tr) m = None) \<and>
     (\<forall>e. gh_push gh (h @ tr) (rp_branch t) = Some e \<longrightarrow> errors_is ErrDuplicatePullRequest e) \<and>
     (\<forall>pr. is_pull_request t pr \<longrightarrow> (\<exists>url. gh_create_pull_request gh (h @ tr) pr = Inr url)))"

text \<open>The calls made on the working copy at \<open>root\<close>, and those that left a directory alone.\<close>

fun works_on :: "image_push_event \<Rightarrow> image_labels \<Rightarrow> string \<Rightarrow> manifest_target list \<Rightarrow> action \<Rightarrow> bool" where
  "works_on event labels root ms (ResolveDirs r pat answer) = True"
| "works_on event labels root ms (CreateBranch b answer) = True"
| "works_on event labels root ms (PatchDir dir u answer) =
     list_ex (\<lambda>m. dir = path_join [root, tg_dir m] \<and> u = update_of m event labels) ms"
| "works_on event labels root ms a = False"

definition untouched :: "string \<Rightarrow> action list \<Rightarrow> bool" where
  "untouched dir tr \<longleftrightarrow> (\<forall>u answer. PatchDir dir u answer \<notin> set tr)"

text \<open>
  The manifests in a fresh working copy: the targets resolve, every directory is patched or has the tag
  already, and one of them is patched at the first call.
\<close>

definition copy_behind :: "service \<Rightarrow> repository_plan \<Rightarrow> image_labels \<Rightarrow> string \<Rightarrow> history \<Rightarrow> bool" where
  "copy_behind s t labels root g \<longleftrightarrow>
     (\<exists>ms. fst (resolveManifestTargets s root t g) = Inr ms \<and>
        (\<forall>later m e. list_all (works_on (rp_event t) labels root ms) later \<longrightarrow> m \<in> set ms \<longrightarrow>
           sv_patcher s (g @ later) (path_join [root, tg_dir m]) (update_of m (rp_event t) labels) = Some e \<longrightarrow> errors_is ErrNoDifference e) \<and>
        (\<exists>dir\<in>(\<lambda>m. path_join [root, tg_dir m]) ` set ms. \<forall>later m. list_all (works_on (rp_event t) labels root ms) later \<longrightarrow>
           untouched dir later \<longrightarrow> m \<in> set ms \<longrightarrow> path_join [root, tg_dir m] = dir \<longrightarrow>
           sv_patcher s (g @ later) dir (update_of m (rp_event t) labels) = None))"

definition manifests_behind :: "service \<Rightarrow> repository_plan \<Rightarrow> image_labels \<Rightarrow> history \<Rightarrow> bool" where
  "manifests_behind s t labels h \<longleftrightarrow> (\<forall>before root. unopened t before \<longrightarrow>
     gh_checkout (sv_manifests s) (h @ before) (ml_repository_url (rp_location t)) = Inr root \<longrightarrow>
     copy_behind s t labels root (h @ before @ [Checkout (ml_repository_url (rp_location t)) (Inr root)]))"

section \<open>The update goes through\<close>

lemma search_free:
  "(\<And>tr b. unopened t tr \<Longrightarrow> b \<in> set bs \<Longrightarrow> gh_find_open gh (h @ tr) (ml_owner (rp_location t)) (ml_repository (rp_location t)) b = Inr []) \<Longrightarrow>
   unopened t before \<Longrightarrow> \<exists>tr. find_open_loop gh t bs (h @ before) = (None, h @ tr) \<and> unopened t tr"
proof (induction bs arbitrary: before)
  case (Cons b bs)
  let ?a = "FindOpen (ml_owner (rp_location t)) (ml_repository (rp_location t)) b (Inr [])"
  have "\<exists>tr. find_open_loop gh t bs (h @ before @ [?a]) = (None, h @ tr) \<and> unopened t tr"
    using Cons.prems by (intro Cons.IH) simp_all
  then show ?case using Cons.prems(1) [OF Cons.prems(2), of b] by (simp add: Let_def)
qed auto

lemma resolve_works: "\<exists>tr. snd (resolve_loop s root acc xs h) = h @ tr \<and> list_all (works_on event labels root []) tr"
proof (induction xs arbitrary: acc h)
  case (Cons x xs)
  let ?a = "ResolveDirs root (tg_dir x) (sv_directories s h root (tg_dir x))"
  have "\<exists>acc'. snd (resolve_loop s root acc (x # xs) h) \<in> {snd (resolve_loop s root acc' xs (h @ [?a])), h @ [?a]}"
    by (auto simp: Let_def split: sum.split)
  then show ?case using Cons.IH [of _ "h @ [?a]"] by fastforce
qed simp

lemma works_on_none:
  "list_all (works_on event labels root []) tr \<Longrightarrow> untouched dir tr \<and> list_all (works_on event labels root ms) tr"
proof (induction tr)
  case (Cons a tr)
  then show ?case by (cases a) (auto simp: untouched_def)
qed (simp add: untouched_def)

lemma patch_loop_through:
  assumes fine: "\<And>later m e. list_all (works_on event labels root all) later \<Longrightarrow> m \<in> set all \<Longrightarrow>
      sv_patcher s (g @ later) (path_join [root, tg_dir m]) (update_of m event labels) = Some e \<Longrightarrow> errors_is ErrNoDifference e"
    and behind: "\<And>later m. list_all (works_on event labels root all) later \<Longrightarrow> untouched dir later \<Longrightarrow> m \<in> set all \<Longrightarrow>
      path_join [root, tg_dir m] = dir \<Longrightarrow> sv_patcher s (g @ later) dir (update_of m event labels) = None"
  shows "set ms \<subseteq> set all \<Longrightarrow> list_all (works_on event labels root all) later \<Longrightarrow>
    changed \<or> untouched dir later \<and> dir \<in> (\<lambda>m. path_join [root, tg_dir m]) ` set ms \<Longrightarrow>
    \<exists>tr. patch_loop s root event labels changed ms (g @ later) = (Inr True, g @ tr) \<and> list_all (works_on event labels root all) tr"
proof (induction ms arbitrary: changed later)
  case (Cons m ms)
  let ?dir = "path_join [root, tg_dir m]"
  let ?answer = "sv_patcher s (g @ later) ?dir (update_of m event labels)"
  let ?later = "later @ [PatchDir ?dir (update_of m event labels) ?answer]"
  have m: "m \<in> set all" "set ms \<subseteq> set all" using Cons.prems(1) by auto
  have works: "list_all (works_on event labels root all) ?later" using Cons.prems(2) m(1) by (auto simp: list_ex_iff)
  show ?case
  proof (cases ?answer)
    case None
    then show ?thesis using Cons.IH [OF m(2) works, of True] by (simp add: Let_def)
  next
    case (Some e)
    have "changed \<or> ?dir \<noteq> dir"
      using Cons.prems(3) behind [OF Cons.prems(2) _ m(1)] Some by auto
    then have "changed \<or> untouched dir ?later \<and> dir \<in> (\<lambda>m. path_join [root, tg_dir m]) ` set ms"
      using Cons.prems(3) by (auto simp: untouched_def)
    from Cons.IH [OF m(2) works this] Some fine [OF Cons.prems(2) m(1) Some] show ?thesis by (simp add: Let_def)
  qed
qed auto

lemma works_on_unopened: "list_all (works_on event labels root ms) tr \<Longrightarrow> unopened t tr"
  by (auto simp: unopened_def list_all_iff)

lemma host_worksD:
  assumes "host_works gh t h" and "unopened t tr"
  shows "b \<in> set (searched_branches t) \<Longrightarrow>
      gh_find_open gh (h @ tr) (ml_owner (rp_location t)) (ml_repository (rp_location t)) b = Inr []"
    "\<exists>root. gh_checkout gh (h @ tr) (ml_repository_url (rp_location t)) = Inr root"
    "gh_create_branch gh (h @ tr) (rp_branch t) = None" "gh_commit gh (h @ tr) m = None"
    "gh_push gh (h @ tr) (rp_branch t) = Some e \<Longrightarrow> errors_is ErrDuplicatePullRequest e"
    "is_pull_request t pr \<Longrightarrow> \<exists>url. gh_create_pull_request gh (h @ tr) pr = Inr url"
  using assms unfolding host_works_def by blast+

lemma search_through:
  assumes "host_works (sv_manifests s) t h" and "unopened t before"
  obtains tr where "ensureNoOpenPullRequest s t (h @ before) = (None, h @ tr)" "unopened t tr"
  using search_free [OF host_worksD(1) [OF assms(1)] assms(2)] by (auto simp: ensureNoOpenPullRequest_def)

lemma publish_through:
  assumes host: "host_works (sv_manifests s) t h" and before: "unopened t before"
  shows "\<exists>tr url. commit_and_push s t labels messages (h @ before) =
    (None, h @ tr @ [CreatePullRequest (pullRequest t labels messages) (Inr url)])"
proof -
  have pr: "is_pull_request t (pullRequest t labels messages)" by (simp add: is_pull_request_def pullRequest_def Let_def)
  have create: "\<exists>url. create_pull_request s t labels messages (h @ tr) =
      (None, h @ tr @ [CreatePullRequest (pullRequest t labels messages) (Inr url)])" if "unopened t tr" for tr
    using host_worksD(6) [OF host that pr] by (auto simp: create_pull_request_def Let_def)
  let ?committed = "before @ [Commit (rm_commit_message messages) None]"
  let ?pushed = "?committed @ [Push (rp_branch t) (gh_push (sv_manifests s) (h @ ?committed) (rp_branch t))]"
  have u: "unopened t ?committed" "unopened t ?pushed" using before by simp_all
  have commit: "commit_and_push s t labels messages (h @ before) = push_and_open s t labels messages (h @ ?committed)"
    using host_worksD(4) [OF host before] by (simp add: commit_and_push_def Let_def)
  obtain tr where searched: "ensureNoOpenPullRequest s t (h @ ?pushed) = (None, h @ tr)" "unopened t tr"
    using search_through [OF host u(2)] .
  have "push_and_open s t labels messages (h @ ?committed) \<in>
      {create_pull_request s t labels messages (h @ ?pushed), create_pull_request s t labels messages (h @ tr)}"
    using host_worksD(5) [OF host u(1)] searched(1) by (auto simp: push_and_open_def Let_def split: option.split)
  with create [OF u(2)] create [OF searched(2)] show ?thesis unfolding commit by fastforce
qed

lemma patching_through:
  assumes "copy_behind s t labels root g"
  obtains ms tr1 where "resolveManifestTargets s root t g = (Inr ms, g @ tr1)" "list_all (works_on (rp_event t) labels root ms) tr1"
    "\<exists>tr2. patch_loop s root (rp_event t) labels False ms (g @ tr1 @ [CreateBranch (rp_branch t) None]) = (Inr True, g @ tr2) \<and>
      list_all (works_on (rp_event t) labels root ms) tr2"
proof -
  obtain ms where resolve: "fst (resolveManifestTargets s root t g) = Inr ms"
    and fine: "\<forall>later m e. list_all (works_on (rp_event t) labels root ms) later \<longrightarrow> m \<in> set ms \<longrightarrow>
      sv_patcher s (g @ later) (path_join [root, tg_dir m]) (update_of m (rp_event t) labels) = Some e \<longrightarrow> errors_is ErrNoDifference e"
    and some_dir: "\<exists>dir\<in>(\<lambda>m. path_join [root, tg_dir m]) ` set ms. \<forall>later m. list_all (works_on (rp_event t) labels root ms) later \<longrightarrow>
      untouched dir later \<longrightarrow> m \<in> set ms \<longrightarrow> path_join [root, tg_dir m] = dir \<longrightarrow>
      sv_patcher s (g @ later) dir (update_of m (rp_event t) labels) = None"
    using assms unfolding copy_behind_def by blast
  obtain dir where dir: "dir \<in> (\<lambda>m. path_join [root, tg_dir m]) ` set ms"
    and patched: "\<forall>later m. list_all (works_on (rp_event t) labels root ms) later \<longrightarrow> untouched dir later \<longrightarrow> m \<in> set ms \<longrightarrow>
      path_join [root, tg_dir m] = dir \<longrightarrow> sv_patcher s (g @ later) dir (update_of m (rp_event t) labels) = None"
    using some_dir by (rule bexE)
  obtain tr1 where tr1: "resolveManifestTargets s root t g = (Inr ms, g @ tr1)" "list_all (works_on (rp_event t) labels root []) tr1"
    using resolve resolve_works [of s root "[]" "rp_targets t" g "rp_event t" labels]
    by (auto simp: resolveManifestTargets_def split: prod.splits sum.splits)
  have "list_all (works_on (rp_event t) labels root []) (tr1 @ [CreateBranch (rp_branch t) None])" using tr1(2) by simp
  note clean = works_on_none [OF this, of dir ms]
  have "\<exists>tr2. patch_loop s root (rp_event t) labels False ms (g @ tr1 @ [CreateBranch (rp_branch t) None]) = (Inr True, g @ tr2) \<and>
      list_all (works_on (rp_event t) labels root ms) tr2"
  proof (rule patch_loop_through [where dir = dir])
    show "False \<or> untouched dir (tr1 @ [CreateBranch (rp_branch t) None]) \<and> dir \<in> (\<lambda>m. path_join [root, tg_dir m]) ` set ms"
      using clean dir by (intro disjI2 conjI) (rule conjunct1)
    show "list_all (works_on (rp_event t) labels root ms) (tr1 @ [CreateBranch (rp_branch t) None])" using clean by (rule conjunct2)
    show "sv_patcher s (g @ later) dir (update_of m (rp_event t) labels) = None"
      if "list_all (works_on (rp_event t) labels root ms) later" "untouched dir later" "m \<in> set ms" "path_join [root, tg_dir m] = dir" for later m
      using that patched by simp
  qed (use fine in \<open>blast+\<close>)
  then show thesis using tr1(1) conjunct2 [OF works_on_none [OF tr1(2)]] by (intro that)
qed

lemma in_checkout_through:
  assumes host: "host_works (sv_manifests s) t h" and behind: "copy_behind s t labels root (h @ copied)" and copied: "unopened t copied"
  shows "\<exists>tr url. in_checkout s t labels messages root (h @ copied) =
    (None, h @ tr @ [CreatePullRequest (pullRequest t labels messages) (Inr url)])"
proof -
  obtain ms tr1 tr2 where tr1: "resolveManifestTargets s root t (h @ copied) = (Inr ms, (h @ copied) @ tr1)"
      "list_all (works_on (rp_event t) labels root ms) tr1"
    and tr2: "patch_loop s root (rp_event t) labels False ms ((h @ copied) @ tr1 @ [CreateBranch (rp_branch t) None]) = (Inr True, (h @ copied) @ tr2)"
      "list_all (works_on (rp_event t) labels root ms) tr2"
    using patching_through [OF behind] by metis
  have "unopened t (copied @ tr1)" "unopened t (copied @ tr2)" using copied works_on_unopened tr1(2) tr2(2) by simp_all
  from host_worksD(3) [OF host this(1)] publish_through [OF host this(2), of labels messages] tr1(1) tr2(1) show ?thesis
    by (simp add: in_checkout_def Let_def)
qed

section \<open>Properties\<close>

text \<open>
  C6. An update gets through. When the git host works and the manifests are behind, carrying out the plan of
  a repository opens its pull request, whatever was tried before, in particular when an attempt was cut off
  after its push and the host now refuses the push because the branch is there.
\<close>
theorem applyRepository_completes:
  assumes "host_works (sv_manifests s) t h" and "manifests_behind s t labels h"
  shows "\<exists>tr url. applyRepository s t labels messages h = (None, h @ tr) \<and>
    CreatePullRequest (pullRequest t labels messages) (Inr url) \<in> set tr"
proof -
  obtain before where before: "ensureNoOpenPullRequest s t h = (None, h @ before)" "unopened t before"
    using search_through [OF assms(1), of "[]"] by auto
  obtain root where root: "gh_checkout (sv_manifests s) (h @ before) (ml_repository_url (rp_location t)) = Inr root"
    using host_worksD(2) [OF assms(1) before(2)] by blast
  let ?copied = "before @ [Checkout (ml_repository_url (rp_location t)) (Inr root)]"
  have "copy_behind s t labels root (h @ ?copied)"
    using assms(2) before(2) root unfolding manifests_behind_def by blast
  from in_checkout_through [OF assms(1) this, of messages] before(2)
  obtain tr url where "in_checkout s t labels messages root (h @ ?copied) = (None, h @ tr @ [CreatePullRequest (pullRequest t labels messages) (Inr url)])"
    by auto
  with before(1) root show ?thesis by (simp add: applyRepository_def Let_def) blast
qed

section \<open>An update that was cut off\<close>

text \<open>The branch was pushed, the pull request was not opened, and the host remembers the branch.\<close>

definition cut_off :: history where
  "cut_off = [Push (rp_branch retag_plan) None,
     CreatePullRequest (pullRequest retag_plan no_labels \<lparr>rm_pull_request_title = [], rm_pull_request_body = [], rm_commit_message = []\<rparr>)
       (Inl (ErrorsNew ''timeout''))]"

definition remembering_gh :: manifest_repository where
  "remembering_gh = sample_gh\<lparr>gh_push := (\<lambda>h b. if Push b None \<in> set h then Some (Sentinel ErrDuplicatePullRequest) else None)\<rparr>"

definition second_service :: service where
  "second_service = disk_service\<lparr>sv_manifests := remembering_gh\<rparr>"

lemma remembering_works: "host_works remembering_gh retag_plan cut_off"
proof -
  have "gh_find_open sample_gh (cut_off @ tr) (ml_owner (rp_location retag_plan)) (ml_repository (rp_location retag_plan)) b = Inr []"
    if "unopened retag_plan tr" "b \<in> set (searched_branches retag_plan)" for tr b
    using that by (fastforce simp: sample_gh_def unopened_def cut_off_def list_ex_iff split: action.splits sum.splits)
  then show ?thesis
    by (auto simp: host_works_def remembering_gh_def) (auto simp: sample_gh_def split: if_splits)
qed

lemma sample_disk_snoc: "snd (sample_disk (h @ [a])) = replay sample_runtime two_yl (NewPatcher []) no_faults (snd (sample_disk h)) a"
  by (simp add: sample_disk_def)

lemma retagged_again:
  obtains e where "Patch sample_runtime two_yl no_faults (NewPatcher []) (sample_tree (FFile retagged_file 420)) ''/w/a'' sample_update =
      Some (sample_tree (FFile retagged_file 420), Some e)" "errors_is ErrNoDifference e"
  using Patch_again_lemma [OF sample_patch sample_effective] by blast

lemma works_on_retag:
  assumes "works_on (rp_event retag_plan) labels ''/w'' (rp_targets retag_plan) a"
  shows "(\<exists>root pat answer. a = ResolveDirs root pat answer) \<or> (\<exists>b answer. a = CreateBranch b answer) \<or>
    (\<exists>answer. a = PatchDir ''/w/a'' sample_update answer)"
proof -
  obtain m where "rp_targets retag_plan = [m]" "tg_dir m = ''a''" "update_of m (rp_event retag_plan) labels = sample_update"
    by (rule retag_target) blast
  with assms retag_dir show ?thesis by (cases a) auto
qed

lemma copy_state:
  assumes "list_all (works_on (rp_event retag_plan) labels ''/w'' (rp_targets retag_plan)) later" and "snd (sample_disk g) = cloned_tree"
  shows "snd (sample_disk (g @ later)) \<in> {cloned_tree, sample_tree (FFile retagged_file 420)} \<and>
    (untouched ''/w/a'' later \<longrightarrow> snd (sample_disk (g @ later)) = cloned_tree)"
  using assms(1)
proof (induction later rule: rev_induct)
  case (snoc a later)
  then have IH: "snd (sample_disk (g @ later)) \<in> {cloned_tree, sample_tree (FFile retagged_file 420)}"
      "untouched ''/w/a'' later \<Longrightarrow> snd (sample_disk (g @ later)) = cloned_tree"
    and a: "(\<exists>root pat answer. a = ResolveDirs root pat answer) \<or> (\<exists>b answer. a = CreateBranch b answer) \<or>
      (\<exists>answer. a = PatchDir ''/w/a'' sample_update answer)"
    using works_on_retag [of labels a] by simp_all
  have same: "snd (sample_disk (g @ later @ [a])) = replay sample_runtime two_yl (NewPatcher []) no_faults (snd (sample_disk (g @ later))) a"
    using sample_disk_snoc [of "g @ later" a] by simp
  show ?case
  proof (cases "\<exists>answer. a = PatchDir ''/w/a'' sample_update answer")
    case True
    obtain e where "Patch sample_runtime two_yl no_faults (NewPatcher []) (sample_tree (FFile retagged_file 420)) ''/w/a'' sample_update =
      Some (sample_tree (FFile retagged_file 420), Some e)" by (rule retagged_again)
    with True IH(1) sample_patch [of sample_runtime "NewPatcher []"] show ?thesis
      unfolding same by (auto simp: cloned_tree_def untouched_def)
  next
    case False
    with a have "snd (sample_disk (g @ later @ [a])) = snd (sample_disk (g @ later))" unfolding same by auto
    moreover have "untouched ''/w/a'' (later @ [a]) \<Longrightarrow> untouched ''/w/a'' later" by (auto simp: untouched_def)
    ultimately show ?thesis using IH by simp
  qed
qed (simp add: assms(2))

lemma second_copy_behind:
  assumes "snd (sample_disk g) = cloned_tree"
  shows "copy_behind second_service retag_plan labels ''/w'' g"
proof -
  obtain m where m: "rp_targets retag_plan = [m]" "tg_dir m = ''a''" "update_of m (rp_event retag_plan) labels = sample_update"
    by (rule retag_target) blast
  have ports: "sv_directories second_service = directory_port sample_disk"
    "sv_patcher second_service = patching_port sample_runtime two_yl (NewPatcher []) sample_disk None"
    by (simp_all add: second_service_def disk_service_ports)
  have "errors_is ErrNoDifference e"
    if "list_all (works_on (rp_event retag_plan) labels ''/w'' (rp_targets retag_plan)) later"
      "sv_patcher second_service (g @ later) ''/w/a'' sample_update = Some e" for later e
  proof -
    obtain e' where "Patch sample_runtime two_yl no_faults (NewPatcher []) (sample_tree (FFile retagged_file 420)) ''/w/a'' sample_update =
      Some (sample_tree (FFile retagged_file 420), Some e')" "errors_is ErrNoDifference e'" by (rule retagged_again)
    moreover have "fst (sample_disk (g @ later)) = no_faults" by (simp add: sample_disk_def)
    ultimately show ?thesis
      using copy_state [OF that(1) assms] that(2) retag_port [of "g @ later" second_service, OF _ ports(2)]
      by (auto simp: ports(2) patching_port_def)
  qed
  moreover have "sv_patcher second_service (g @ later) ''/w/a'' sample_update = None"
    if "list_all (works_on (rp_event retag_plan) labels ''/w'' (rp_targets retag_plan)) later" "untouched ''/w/a'' later" for later
    using copy_state [OF that(1) assms] that(2) retag_port [OF _ ports(2)] by simp
  ultimately show ?thesis
    unfolding copy_behind_def using retag_targets [OF assms ports(1)] m retag_dir by simp
qed

theorem applyRepository_completes_witness:
  "Push (rp_branch retag_plan) None \<in> set cut_off \<and> (\<forall>messages. \<exists>tr url. applyRepository second_service retag_plan no_labels messages cut_off = (None, cut_off @ tr) \<and>
     CreatePullRequest (pullRequest retag_plan no_labels messages) (Inr url) \<in> set tr)"
proof -
  have gh: "sv_manifests second_service = remembering_gh" by (simp add: second_service_def)
  have "manifests_behind second_service retag_plan no_labels cut_off"
    unfolding manifests_behind_def
  proof (intro allI impI)
    fix before root
    assume "gh_checkout (sv_manifests second_service) (cut_off @ before) (ml_repository_url (rp_location retag_plan)) = Inr root"
    then have root: "root = ''/w''" by (simp add: gh remembering_gh_def sample_gh_def)
    have "snd (sample_disk (cut_off @ before @ [Checkout (ml_repository_url (rp_location retag_plan)) (Inr root)])) = cloned_tree"
      using sample_disk_snoc [of "cut_off @ before"] by simp
    then show "copy_behind second_service retag_plan no_labels root
        (cut_off @ before @ [Checkout (ml_repository_url (rp_location retag_plan)) (Inr root)])"
      unfolding root by (rule second_copy_behind)
  qed
  from applyRepository_completes [OF _ this] remembering_works show ?thesis by (simp add: gh cut_off_def)
qed

end
