(* ===== verification/Spec2Isabelle.thy ===== *)
theory Spec2Isabelle
  imports Command_Line Recovery
begin

text \<open>
  A verification development for image-updater: a worker that reads the push events of a container registry
  from a queue, finds out which kustomize manifests use the pushed image, and opens one pull request per
  manifest repository that bumps the tag. All the Go code of \<open>cmd\<close>, \<open>internal\<close> and \<open>pkg\<close> that decides
  something is modelled; what is left out is listed at the end.

  \<^bold>\<open>How the parts interact.\<close> \<open>cmd/main.go\<close> loads the environment, builds the worker and hands it to the
  process lifecycle. The worker runs the SQS source with the update service as the handler. The source
  receives batches, decodes each message with the ECR decoder, calls the handler while a heartbeat keeps the
  message hidden, and deletes the message unless the handler asks for a retry. The service matches the event
  against the rules of the rule file, works out a plan, reads the labels of the image over the OCI client,
  and carries the plan out: for each repository it looks for an open pull request, checks the repository
  out, patches the manifests on a new branch, pushes, and opens the pull request.

  \<^bold>\<open>Which theory models what.\<close>
  \<^item> \<open>Prelude\<close>, \<open>Go_Strings\<close>, \<open>Go_Url\<close>, \<open>Go_Quote\<close>, \<open>Filesystem\<close>: the Go library as far as the source uses it:
    byte strings and their UTF-8 runes, \<open>strings\<close>, \<open>path\<close>, \<open>strconv.Quote\<close>, \<open>url.Parse\<close>, and a tree of files.
  \<^item> \<open>Errors\<close>, \<open>Events\<close>: \<open>internal/model/error.go\<close>, \<open>event.go\<close>, \<open>image.go\<close>, \<open>update.go\<close>. An error is a tree of
    wrapped errors; \<open>errors.Is\<close>, \<open>errors.Join\<close> and the retry mark are functions on it.
  \<^item> \<open>Rules\<close>: \<open>internal/model/rule.go\<close>. \<open>Labels\<close>: \<open>label_value.go\<close> and \<open>labels.go\<close>. \<open>Image_Manifest\<close>:
    \<open>manifest.go\<close>, the metadata document in a managed comment block.
  \<^item> \<open>Replace_Tag\<close>, \<open>Document\<close>, \<open>Patcher\<close>: \<open>internal/infrastructure/manifest/kustomize\<close>: which images entries
    change, the edits of a kustomization.yaml line by line, and the operations on a working copy.
  \<^item> \<open>Pull_Request_Body\<close>, \<open>Message_Renderer\<close>, \<open>Plan\<close>, \<open>Service\<close>: \<open>internal/application/updater\<close>: the texts, the
    plan of an event, and carrying it out through the ports of \<open>internal/model/port.go\<close>.
  \<^item> \<open>Protocol\<close>, \<open>Delivery\<close>, \<open>Trace\<close>: the protocol of the service with its ports as a state machine, that the
    service implements it, what follows for an event and for repeated deliveries, and that a history has
    the answers the ports gave.
  \<^item> \<open>Working_Copy\<close>, \<open>Recovery\<close>: the service on the kustomize patcher and a disk that follows its calls, what
    its pull requests propose, and that an update gets through once nothing is wrong any more.
  \<^item> \<open>Sqs_Source\<close>, \<open>Worker\<close>: \<open>internal/infrastructure/queue/sqs/source.go\<close> and \<open>worker.go\<close>.
  \<^item> \<open>Lifecycle\<close>: \<open>pkg/lifecycle/lifecycle.go\<close>, the goroutines and channels as a step relation.
  \<^item> \<open>Registry\<close>, \<open>Oci\<close>, \<open>Git_Host\<close>: the adapters of \<open>internal/infrastructure/registry\<close> and \<open>githost/github\<close>.
  \<^item> \<open>Configuration\<close>, \<open>Container\<close>, \<open>Command_Line\<close>: \<open>internal/config\<close>, \<open>ruleset\<close>, \<open>internal/container\<close>,
    \<open>internal/version\<close> and \<open>cmd/main.go\<close>.

  \<^bold>\<open>State and effects.\<close> A Go struct is a record, a fallible function returns \<open>go_error + 'a\<close> or an optional
  error, and an index out of range is \<open>None\<close> where the bounds do not follow from the code. The calls of
  the service to its ports are a history, each call with its answer; a port is a function of the history,
  so it may answer differently each time, and every theorem about the service holds for all ports unless it
  says otherwise. What SQS, the clock and a context do are lists of observations. Concurrency is explicit in
  two places: the batch of \<open>Sqs_Source\<close> (with the limit of the group) and the lifecycle. Durations are
  nanoseconds; \<open>int32\<close> and \<open>int64\<close> arithmetic wraps where the code does it (\<open>int32_of\<close>, \<open>int64_of\<close>).

  \<^bold>\<open>What the groups of lemmas show.\<close>
  \<^item> The queue: a message is deleted exactly when no call made for it asks for a retry; a batch is handled
    completely within its limit; the heartbeat ends, stays within the limits of SQS, and keeps a message hidden in a
    timely world.
  \<^item> The service: what \<open>Handle\<close> reports; every run of \<open>applyRepository\<close> is a run of the protocol; nothing
    unpatched is committed or proposed; every checkout is given back; a second delivery is harmless. A pull
    request proposes the copy that was checked out with exactly the manifests of the resolved directories
    retagged, and an attempt that was cut off after its push does not keep a later one from opening it. For the
    assembled worker, on the GitHub and the kustomize adapters: no two pull requests are opened for one branch,
    and nothing outside a working copy is patched.
  \<^item> The plan and the rules: grouping by repository, branch names that identify an update, the most specific
    rules, tags, captures, and that a location stays inside its repository.
  \<^item> Untrusted text: the shapes of label values, Markdown that stays literal and on its line, templates that
    render for every event if they did at the start, and round trips of the managed block.
  \<^item> Manifests: successive edits equal one simultaneous edit; metadata is replaced or inserted and nothing
    else moves; a patch changes one file or nothing, refines an abstract patcher on image lists, and does not
    leave the checkout through a symbolic link.
  \<^item> Adapters: requests to a registry carry their credential to validated paths only; the GitHub token goes
    to github.com only; a cached token is not used beyond its time; a decoded event is usable.
  \<^item> The process: the lifecycle ends, and with what; an accepted configuration is what the process runs
    with.

  \<^bold>\<open>Interfaces as locales.\<close> \<open>label_filter\<close> and \<open>label_normaliser\<close> (interpreted by the five sanitisers),
  \<open>keyed\<close> (by \<open>Upsert\<close>), \<open>manifest_patcher\<close> (by the abstract patcher that \<open>Patch\<close> refines), and
  \<open>retry_contract\<close>, what the source relies on in a handler (by the service).

  \<^bold>\<open>Parameters.\<close> Code outside the repository is an argument: the regular expression engine, the Unicode tables
  beyond Latin-1, SHA-256 and the order of \<open>sort.Slice\<close> on ties (\<open>runtime\<close>); the YAML libraries
  (\<open>yaml_codec\<close>, \<open>yaml_lib\<close>, \<open>config_yaml\<close>); the parser of \<open>text/template\<close> (\<open>template_lib\<close>; its execution
  on the nodes the validation lets through is written out); JSON and time parsing (\<open>event_lib\<close>,
  \<open>registry_lib\<close>); HTTP; go-git and go-github (\<open>worktree_io\<close>, \<open>host_io\<close>); the AWS API; the environment and
  flag libraries; dig. Of \<open>errgroup\<close> the documented behaviour is used. Hypotheses on a parameter are named
  definitions, for instance \<open>runtime_ok\<close>, \<open>finds_pull_requests\<close>, \<open>lists_created\<close> and \<open>host_works\<close>, and each is shown to hold
  for a concrete value where a property uses it.

  \<^bold>\<open>Bounds.\<close> There is no fuel: every loop is structural recursion or has a measure. Loops of the source that may
  run forever (polling, the heartbeat) run over the list of their observations, and the step relations of
  the batch and of the lifecycle have a measure, so that termination is proved and not assumed.

  \<^bold>\<open>Not modelled.\<close> Log output and the \<open>LogValue\<close> methods, which decide nothing. \<open>WithHTTPClient\<close>, a test hook.
  The disk is a function of the history; that it holds what the patches leave is the hypothesis \<open>disk_follows\<close>
  of what a pull request proposes, and that an edited manifest reads back as edited, which depends on the YAML
  library, is \<open>reads_back\<close>. A panic of \<open>Patch\<close> has no place in the answer of a port, see \<open>Container\<close>. What git
  stages for a commit is go-git's. Concurrent handling of two events is covered
  by ports that answer anything between two calls, and not as an interleaving of two histories; the claims
  on several deliveries are about deliveries one after the other. The Helm chart, the examples and the build
  files hold no program logic.
\<close>

end
